(* ===== verification/Prelude.thy ===== *)
theory Prelude
  imports Main "HOL-Library.Sublist"
begin

text \<open>
  What the components share.

  \<^item> The model of Rust text.  A \<^verbatim>\<open>char\<close> is its Unicode scalar value, a natural number; a
    \<^verbatim>\<open>&str\<close> or \<^verbatim>\<open>String\<close> is the list of its chars.  Byte lengths, byte slices and
    \<^verbatim>\<open>as_bytes\<close> go through the UTF-8 encoding, so that code that mixes chars and byte
    offsets is modelled exactly, for every script.  The functions of \<^verbatim>\<open>str\<close> and
    \<^verbatim>\<open>char\<close> that the sources call (\<open>trim\<close>, \<open>find\<close>, \<open>split_once\<close>,
    \<open>is_whitespace\<close>, \<open>is_ascii_digit\<close>, \<open>parse\<close>) are defined on it.
  \<^item> Transition systems: reachability from an initial predicate and a step relation, and
    the interface \<open>invariant_system\<close> every stateful component interprets.
  \<^item> Generic lemmas on lists, and the collections \<open>text_simps\<close> (definitions that evaluate
    text) and \<open>str_len_simps\<close>.
\<close>

named_theorems text_simps \<open>definitions unfolded to evaluate operations on text\<close>
named_theorems str_len_simps \<open>facts about byte lengths\<close>

section \<open>Text\<close>

type_synonym rchar = nat
type_synonym byte = nat
type_synonym rstr = "rchar list"

text \<open>ASCII literals of the source: \<open>lit ''rm *''\<close> is the Rust literal \<^verbatim>\<open>"rm *"\<close>.\<close>

definition lit :: "string \<Rightarrow> rstr" where
  [text_simps]: "lit s = map of_char s"

abbreviation (input) c_nul :: rchar where "c_nul \<equiv> 0"
abbreviation (input) c_tab :: rchar where "c_tab \<equiv> 9"
abbreviation (input) c_newline :: rchar where "c_newline \<equiv> 10"
abbreviation (input) c_return :: rchar where "c_return \<equiv> 13"
abbreviation (input) c_space :: rchar where "c_space \<equiv> 32"
abbreviation (input) c_bang :: rchar where "c_bang \<equiv> 33"
abbreviation (input) c_dquote :: rchar where "c_dquote \<equiv> 34"
abbreviation (input) c_dollar :: rchar where "c_dollar \<equiv> 36"
abbreviation (input) c_amp :: rchar where "c_amp \<equiv> 38"
abbreviation (input) c_squote :: rchar where "c_squote \<equiv> 39"
abbreviation (input) c_lparen :: rchar where "c_lparen \<equiv> 40"
abbreviation (input) c_rparen :: rchar where "c_rparen \<equiv> 41"
abbreviation (input) c_star :: rchar where "c_star \<equiv> 42"
abbreviation (input) c_comma :: rchar where "c_comma \<equiv> 44"
abbreviation (input) c_minus :: rchar where "c_minus \<equiv> 45"
abbreviation (input) c_dot :: rchar where "c_dot \<equiv> 46"
abbreviation (input) c_slash :: rchar where "c_slash \<equiv> 47"
abbreviation (input) c_colon :: rchar where "c_colon \<equiv> 58"
abbreviation (input) c_semi :: rchar where "c_semi \<equiv> 59"
abbreviation (input) c_lt :: rchar where "c_lt \<equiv> 60"
abbreviation (input) c_eq :: rchar where "c_eq \<equiv> 61"
abbreviation (input) c_gt :: rchar where "c_gt \<equiv> 62"
abbreviation (input) c_qmark :: rchar where "c_qmark \<equiv> 63"
abbreviation (input) c_lbracket :: rchar where "c_lbracket \<equiv> 91"
abbreviation (input) c_backslash :: rchar where "c_backslash \<equiv> 92"
abbreviation (input) c_rbracket :: rchar where "c_rbracket \<equiv> 93"
abbreviation (input) c_underscore :: rchar where "c_underscore \<equiv> 95"
abbreviation (input) c_backtick :: rchar where "c_backtick \<equiv> 96"
abbreviation (input) c_lbrace :: rchar where "c_lbrace \<equiv> 123"
abbreviation (input) c_pipe :: rchar where "c_pipe \<equiv> 124"
abbreviation (input) c_rbrace :: rchar where "c_rbrace \<equiv> 125"

subsection \<open>Scalar values and UTF-8\<close>

text \<open>\<^verbatim>\<open>char::from_u32\<close> accepts exactly the Unicode scalar values.\<close>

definition is_scalar :: "nat \<Rightarrow> bool" where
  [text_simps]: "is_scalar c \<longleftrightarrow> c < 0xD800 \<or> (0xE000 \<le> c \<and> c < 0x110000)"

definition from_u32 :: "nat \<Rightarrow> rchar option" where
  [text_simps]: "from_u32 n = (if is_scalar n then Some n else None)"

definition wf_str :: "rstr \<Rightarrow> bool" where
  [text_simps]: "wf_str s \<longleftrightarrow> list_all is_scalar s"

definition len_utf8 :: "rchar \<Rightarrow> nat" where
  [text_simps]: "len_utf8 c =
     (if c < 0x80 then 1 else if c < 0x800 then 2 else if c < 0x10000 then 3 else 4)"

definition utf8_char :: "rchar \<Rightarrow> byte list" where
  [text_simps]: "utf8_char c =
     (if c < 0x80 then [c]
      else if c < 0x800 then [0xC0 + c div 64, 0x80 + c mod 64]
      else if c < 0x10000 then [0xE0 + c div 4096, 0x80 + c div 64 mod 64, 0x80 + c mod 64]
      else [0xF0 + c div 262144, 0x80 + c div 4096 mod 64, 0x80 + c div 64 mod 64, 0x80 + c mod 64])"

definition as_bytes :: "rstr \<Rightarrow> byte list" where
  [text_simps]: "as_bytes s = concat (map utf8_char s)"

text \<open>\<^verbatim>\<open>str::len\<close>: the length in bytes.\<close>

definition str_len :: "rstr \<Rightarrow> nat" where
  [text_simps]: "str_len s = sum_list (map len_utf8 s)"

text \<open>The byte slices \<^verbatim>\<open>&s[..n]\<close> and \<^verbatim>\<open>&s[n..]\<close>, at a char boundary \<open>n\<close>.\<close>

fun take_bytes :: "nat \<Rightarrow> rstr \<Rightarrow> rstr" where
  "take_bytes n [] = []"
| "take_bytes n (c # s) = (if len_utf8 c \<le> n then c # take_bytes (n - len_utf8 c) s else [])"

fun drop_bytes :: "nat \<Rightarrow> rstr \<Rightarrow> rstr" where
  "drop_bytes n [] = []"
| "drop_bytes n (c # s) = (if len_utf8 c \<le> n then drop_bytes (n - len_utf8 c) s else c # s)"

fun is_char_boundary :: "rstr \<Rightarrow> nat \<Rightarrow> bool" where
  "is_char_boundary [] n = (n = 0)"
| "is_char_boundary (c # s) n = (n = 0 \<or> (len_utf8 c \<le> n \<and> is_char_boundary s (n - len_utf8 c)))"

lemma str_len_Nil [simp]: "str_len [] = 0"
  by (simp add: str_len_def)

lemma str_len_Cons [simp]: "str_len (c # s) = len_utf8 c + str_len s"
  by (simp add: str_len_def)

lemma str_len_append [simp]: "str_len (a @ b) = str_len a + str_len b"
  by (simp add: str_len_def)

lemma len_utf8_pos [simp]: "0 < len_utf8 c"
  by (simp add: len_utf8_def)

lemma len_utf8_ascii: "c < 128 \<Longrightarrow> len_utf8 c = 1"
  by (simp add: len_utf8_def)

lemma str_len_0_iff [simp]: "str_len s = 0 \<longleftrightarrow> s = []"
  by (cases s) (simp_all add: len_utf8_def)

lemma length_le_str_len: "length s \<le> str_len s"
proof (induction s)
  case (Cons c s)
  have "0 < len_utf8 c" by simp
  with Cons.IH show ?case by (simp del: len_utf8_pos)
qed simp

lemma str_len_ascii: "list_all (\<lambda>c. c < 128) s \<Longrightarrow> str_len s = length s"
  by (induction s) (simp_all add: len_utf8_ascii)

lemma take_bytes_0 [simp]: "take_bytes 0 s = []"
  by (cases s) (simp_all add: len_utf8_def)

lemma drop_bytes_0 [simp]: "drop_bytes 0 s = s"
  by (cases s) (simp_all add: len_utf8_def)

lemma take_bytes_str_len [simp]: "take_bytes (str_len a) (a @ b) = a"
  by (induction a) simp_all

lemma drop_bytes_str_len [simp]: "drop_bytes (str_len a) (a @ b) = b"
  by (induction a) simp_all

lemma take_bytes_self [simp]: "take_bytes (str_len a) a = a"
  using take_bytes_str_len [of a "[]"] by simp

lemma take_drop_bytes: "take_bytes n s @ drop_bytes n s = s"
  by (induction n s rule: take_bytes.induct) auto

lemma length_utf8_char [simp]: "length (utf8_char c) = len_utf8 c"
  by (simp add: utf8_char_def len_utf8_def)

lemma length_as_bytes [simp]: "length (as_bytes s) = str_len s"
  by (induction s) (simp_all add: as_bytes_def)

lemma as_bytes_Nil [simp]: "as_bytes [] = []"
  by (simp add: as_bytes_def)

lemma as_bytes_Cons [simp]: "as_bytes (c # s) = utf8_char c @ as_bytes s"
  by (simp add: as_bytes_def)

lemma as_bytes_append [simp]: "as_bytes (a @ b) = as_bytes a @ as_bytes b"
  by (simp add: as_bytes_def)

text \<open>
  UTF-8 is a prefix code: the bytes of two scalar values agree on a common prefix only if
  the scalar values are equal.  Hence \<^verbatim>\<open>as_bytes\<close> determines the text.
\<close>

definition utf8_decode1 :: "byte list \<Rightarrow> rchar" where
  "utf8_decode1 bs =
     (let b = bs ! 0; t = (\<lambda>k. bs ! k - 0x80) in
      if b < 0x80 then b
      else if b < 0xE0 then (b - 0xC0) * 64 + t 1
      else if b < 0xF0 then ((b - 0xE0) * 64 + t 1) * 64 + t 2
      else (((b - 0xF0) * 64 + t 1) * 64 + t 2) * 64 + t 3)"

lemma decode1_utf8_char:
  assumes "c < 0x110000"
  shows "utf8_decode1 (utf8_char c @ u) = c"
proof -
  have lead: "c < 0x800 \<Longrightarrow> c div 64 < 32" "c < 0x10000 \<Longrightarrow> c div 4096 < 16"
    by (rule less_mult_imp_div_less, simp)+
  have d1: "c div 64 * 64 + c mod 64 = c" by (rule div_mult_mod_eq)
  have d2: "c div 4096 * 64 + c div 64 mod 64 = c div 64"
    using div_mult_mod_eq [of "c div 64" 64] by (simp only: div_mult2_eq [symmetric]) simp
  have d3: "c div 262144 * 64 + c div 4096 mod 64 = c div 4096"
    using div_mult_mod_eq [of "c div 4096" 64] by (simp only: div_mult2_eq [symmetric]) simp
  consider "c < 0x80" | "0x80 \<le> c" "c < 0x800" | "0x800 \<le> c" "c < 0x10000" | "0x10000 \<le> c"
    by linarith
  then show ?thesis
  proof cases
    case 1
    then show ?thesis by (simp add: utf8_char_def utf8_decode1_def)
  next
    case 2
    with lead(1) show ?thesis
      by (simp add: utf8_char_def utf8_decode1_def d1)
  next
    case 3
    with lead(2) show ?thesis
      by (simp add: utf8_char_def utf8_decode1_def d1 d2)
  next
    case 4
    then show ?thesis
      by (simp add: utf8_char_def utf8_decode1_def d1 d2 d3)
  qed
qed

lemma utf8_char_prefix_free:
  assumes "is_scalar c" and "is_scalar d" and eq: "utf8_char c @ u = utf8_char d @ v"
  shows "c = d"
proof -
  have "c < 0x110000" and "d < 0x110000"
    using assms(1,2) by (auto simp: is_scalar_def)
  then show ?thesis
    using arg_cong [OF eq, of utf8_decode1] by (simp add: decode1_utf8_char)
qed

lemma as_bytes_inj:
  "wf_str s \<Longrightarrow> wf_str t \<Longrightarrow> as_bytes s = as_bytes t \<Longrightarrow> s = t"
proof (induction s arbitrary: t)
  case Nil
  then show ?case by (cases t) (auto simp: utf8_char_def split: if_splits)
next
  case (Cons c s)
  from Cons.prems(3) obtain d t' where t: "t = d # t'"
    by (cases t) (auto simp: utf8_char_def split: if_splits)
  have eq: "c = d"
    using Cons.prems t utf8_char_prefix_free [of c d "as_bytes s" "as_bytes t'"]
    by (simp add: wf_str_def)
  have "s = t'" by (rule Cons.IH) (use Cons.prems t eq in \<open>auto simp: wf_str_def\<close>)
  with eq t show ?case by simp
qed

lemma wf_str_append [simp]: "wf_str (a @ b) \<longleftrightarrow> wf_str a \<and> wf_str b"
  by (simp add: wf_str_def)

lemma wf_str_Nil [simp]: "wf_str []"
  by (simp add: wf_str_def)

lemma wf_str_Cons [simp]: "wf_str (c # s) \<longleftrightarrow> is_scalar c \<and> wf_str s"
  by (simp add: wf_str_def)

subsection \<open>Classes of chars\<close>

text \<open>\<^verbatim>\<open>char::is_whitespace\<close>: the Unicode property \<open>White_Space\<close>.\<close>

definition is_whitespace :: "rchar \<Rightarrow> bool" where
  [text_simps]: "is_whitespace c \<longleftrightarrow>
     (9 \<le> c \<and> c \<le> 13) \<or> c = 32 \<or> c = 0x85 \<or> c = 0xA0 \<or> c = 0x1680 \<or>
     (0x2000 \<le> c \<and> c \<le> 0x200A) \<or> c = 0x2028 \<or> c = 0x2029 \<or> c = 0x202F \<or>
     c = 0x205F \<or> c = 0x3000"

definition is_ascii_digit :: "rchar \<Rightarrow> bool" where
  [text_simps]: "is_ascii_digit c \<longleftrightarrow> 48 \<le> c \<and> c \<le> 57"

definition is_ascii_upper :: "rchar \<Rightarrow> bool" where
  [text_simps]: "is_ascii_upper c \<longleftrightarrow> 65 \<le> c \<and> c \<le> 90"

definition is_ascii_lower :: "rchar \<Rightarrow> bool" where
  [text_simps]: "is_ascii_lower c \<longleftrightarrow> 97 \<le> c \<and> c \<le> 122"

definition is_ascii_alphabetic :: "rchar \<Rightarrow> bool" where
  [text_simps]: "is_ascii_alphabetic c \<longleftrightarrow> is_ascii_upper c \<or> is_ascii_lower c"

definition is_ascii_alphanumeric :: "rchar \<Rightarrow> bool" where
  [text_simps]: "is_ascii_alphanumeric c \<longleftrightarrow> is_ascii_alphabetic c \<or> is_ascii_digit c"

definition is_ascii_hexdigit :: "rchar \<Rightarrow> bool" where
  [text_simps]: "is_ascii_hexdigit c \<longleftrightarrow>
     is_ascii_digit c \<or> (65 \<le> c \<and> c \<le> 70) \<or> (97 \<le> c \<and> c \<le> 102)"

definition to_ascii_lowercase :: "rchar \<Rightarrow> rchar" where
  [text_simps]: "to_ascii_lowercase c = (if is_ascii_upper c then c + 32 else c)"

definition eq_ignore_ascii_case :: "rstr \<Rightarrow> rstr \<Rightarrow> bool" where
  [text_simps]: "eq_ignore_ascii_case a b \<longleftrightarrow> map to_ascii_lowercase a = map to_ascii_lowercase b"

lemma not_whitespace_ascii_alnum: "is_ascii_alphanumeric c \<Longrightarrow> \<not> is_whitespace c"
  by (auto simp: text_simps)

subsection \<open>Operations on text\<close>

definition trim_start :: "rstr \<Rightarrow> rstr" where
  [text_simps]: "trim_start s = dropWhile is_whitespace s"

definition trim_end :: "rstr \<Rightarrow> rstr" where
  [text_simps]: "trim_end s = rev (dropWhile is_whitespace (rev s))"

definition trim :: "rstr \<Rightarrow> rstr" where
  [text_simps]: "trim s = trim_end (trim_start s)"

text \<open>
  \<^verbatim>\<open>s.find(p)\<close> followed by the two slices at the position found: the text before the
  first char that satisfies \<open>p\<close>, and the text from that char on.
\<close>

definition split_find :: "(rchar \<Rightarrow> bool) \<Rightarrow> rstr \<Rightarrow> (rstr \<times> rstr) option" where
  [text_simps]: "split_find p s =
     (case dropWhile (\<lambda>c. \<not> p c) s of
        [] \<Rightarrow> None
      | rest \<Rightarrow> Some (takeWhile (\<lambda>c. \<not> p c) s, rest))"

definition split_once :: "rchar \<Rightarrow> rstr \<Rightarrow> (rstr \<times> rstr) option" where
  [text_simps]: "split_once d s =
     map_option (\<lambda>(before, rest). (before, tl rest)) (split_find (\<lambda>c. c = d) s)"

fun split_on :: "rchar \<Rightarrow> rstr \<Rightarrow> rstr list" where
  "split_on d [] = [[]]"
| "split_on d (c # s) =
     (if c = d then [] # split_on d s
      else case split_on d s of [] \<Rightarrow> [[c]] | w # ws \<Rightarrow> (c # w) # ws)"

fun join_with :: "rstr \<Rightarrow> rstr list \<Rightarrow> rstr" where
  "join_with sep [] = []"
| "join_with sep [w] = w"
| "join_with sep (w # ws) = w @ sep @ join_with sep ws"

text \<open>\<^verbatim>\<open>u64::from_str_radix\<close> on digits, and the decimal \<^verbatim>\<open>parse::<u64>()\<close>.\<close>

definition digit_value :: "rchar \<Rightarrow> nat" where
  [text_simps]: "digit_value c =
     (if is_ascii_digit c then c - 48 else if 97 \<le> c then c - 87 else c - 55)"

definition digits_value :: "nat \<Rightarrow> rstr \<Rightarrow> nat" where
  [text_simps]: "digits_value radix s = foldl (\<lambda>n c. n * radix + digit_value c) 0 s"

definition parse_unsigned :: "nat \<Rightarrow> rstr \<Rightarrow> nat option" where
  [text_simps]: "parse_unsigned bits s =
     (let body = (case s of c # t \<Rightarrow> if c = 43 then t else s | [] \<Rightarrow> s) in
      if body = [] \<or> \<not> list_all is_ascii_digit body then None
      else if digits_value 10 body < 2 ^ bits then Some (digits_value 10 body) else None)"

lemma trim_Nil [simp]: "trim [] = []"
  by (simp add: text_simps)

lemma trim_end_append_ws:
  "list_all is_whitespace w \<Longrightarrow> trim_end (s @ w) = trim_end s"
  unfolding trim_end_def rev_append list_all_iff by (subst dropWhile_append2) auto

lemma trim_end_id: "s \<noteq> [] \<Longrightarrow> \<not> is_whitespace (last s) \<Longrightarrow> trim_end s = s"
  by (cases s rule: rev_cases) (simp_all add: trim_end_def)

lemma trim_start_id: "s \<noteq> [] \<Longrightarrow> \<not> is_whitespace (hd s) \<Longrightarrow> trim_start s = s"
  by (cases s) (simp_all add: trim_start_def)

lemma trim_id:
  "s = [] \<or> (\<not> is_whitespace (hd s) \<and> \<not> is_whitespace (last s)) \<Longrightarrow> trim s = s"
  by (cases "s = []") (simp add: trim_def trim_end_def trim_start_def, simp add: trim_def trim_end_id trim_start_id)

lemma trim_end_Nil_iff: "trim_end s = [] \<longleftrightarrow> list_all is_whitespace s"
  by (simp add: trim_end_def dropWhile_eq_Nil_conv list_all_iff)

lemma hd_trim_start: "trim_start s \<noteq> [] \<Longrightarrow> \<not> is_whitespace (hd (trim_start s))"
  by (simp add: trim_start_def hd_dropWhile)

lemma last_trim_end: "trim_end s \<noteq> [] \<Longrightarrow> \<not> is_whitespace (last (trim_end s))"
  by (simp add: trim_end_def last_rev hd_dropWhile)

lemma trim_end_prefix: "\<exists>w. s = trim_end s @ w \<and> list_all is_whitespace w"
proof -
  have "s = rev (takeWhile is_whitespace (rev s) @ dropWhile is_whitespace (rev s))"
    by simp
  then have "s = trim_end s @ rev (takeWhile is_whitespace (rev s))"
    by (simp add: trim_end_def del: takeWhile_dropWhile_id)
  moreover have "list_all is_whitespace (rev (takeWhile is_whitespace (rev s)))"
    by (auto simp: list_all_iff dest: set_takeWhileD)
  ultimately show ?thesis by blast
qed

lemma hd_trim_end: "trim_end s \<noteq> [] \<Longrightarrow> hd (trim_end s) = hd s"
  using trim_end_prefix [of s] by (metis hd_append2)

lemma hd_trim: "trim s \<noteq> [] \<Longrightarrow> \<not> is_whitespace (hd (trim s))"
  unfolding trim_def
  by (metis hd_trim_end hd_trim_start list.pred_inject(1) trim_end_Nil_iff)

lemma last_trim: "trim s \<noteq> [] \<Longrightarrow> \<not> is_whitespace (last (trim s))"
  unfolding trim_def by (rule last_trim_end)

lemma trim_trim [simp]: "trim (trim s) = trim s"
  by (rule trim_id) (use hd_trim last_trim in blast)

lemma trim_decompose:
  "\<exists>a b. s = a @ trim s @ b \<and> list_all is_whitespace a \<and> list_all is_whitespace b"
proof -
  obtain b where "trim_start s = trim s @ b" "list_all is_whitespace b"
    using trim_end_prefix [of "trim_start s"] by (auto simp: trim_def)
  moreover have "s = takeWhile is_whitespace s @ trim_start s"
    by (simp add: trim_start_def)
  moreover have "list_all is_whitespace (takeWhile is_whitespace s)"
    by (auto simp: list_all_iff dest: set_takeWhileD)
  ultimately show ?thesis by metis
qed

lemma set_trim: "set (trim s) \<subseteq> set s"
  using trim_decompose [of s] by (metis set_append Un_subset_iff subset_refl)

lemma split_find_Some:
  "split_find p s = Some (a, b) \<Longrightarrow>
     s = a @ b \<and> list_all (\<lambda>c. \<not> p c) a \<and> (\<exists>c t. b = c # t \<and> p c)"
  by (auto simp: split_find_def list_all_iff dropWhile_eq_Cons_conv
        split: list.splits dest: set_takeWhileD)

lemma split_find_None: "split_find p s = None \<longleftrightarrow> list_all (\<lambda>c. \<not> p c) s"
  by (simp add: split_find_def list_all_iff flip: dropWhile_eq_Nil_conv split: list.split)

lemma split_find_append:
  "list_all (\<lambda>c. \<not> p c) a \<Longrightarrow> p c \<Longrightarrow> split_find p (a @ c # b) = Some (a, c # b)"
  by (simp add: split_find_def list_all_iff dropWhile_append2 takeWhile_append2)

lemma split_once_Some_iff:
  "split_once d s = Some (a, b) \<longleftrightarrow> s = a @ d # b \<and> d \<notin> set a"
proof
  assume "split_once d s = Some (a, b)"
  then obtain r where r: "split_find (\<lambda>c. c = d) s = Some (a, r)" and b: "b = tl r"
    by (auto simp: split_once_def)
  from split_find_Some [OF r] b show "s = a @ d # b \<and> d \<notin> set a"
    by (auto simp: list_all_iff)
next
  assume "s = a @ d # b \<and> d \<notin> set a"
  then show "split_once d s = Some (a, b)"
    using split_find_append [of "\<lambda>c. c = d" a d b] by (force simp: split_once_def list_all_iff)
qed

lemma split_once_None_iff: "split_once d s = None \<longleftrightarrow> d \<notin> set s"
  by (auto simp: split_once_def split_find_None list_all_iff)

lemma join_with_Cons: "ws \<noteq> [] \<Longrightarrow> join_with sep (w # ws) = w @ sep @ join_with sep ws"
  by (cases ws) simp_all

lemma join_with_Nil: "[] = join_with sep (w # ws) \<Longrightarrow> w = []"
  by (cases ws) auto

section \<open>Tables\<close>

text \<open>A database table is the list of its rows; \<open>update_rows\<close> is \<^verbatim>\<open>UPDATE ... SET ... WHERE\<close>.\<close>

definition update_rows :: "('r \<Rightarrow> bool) \<Rightarrow> ('r \<Rightarrow> 'r) \<Rightarrow> 'r list \<Rightarrow> 'r list" where
  "update_rows p f rows = map (\<lambda>r. if p r then f r else r) rows"

lemma set_update_rows: "set (update_rows p f rows) = (\<lambda>r. if p r then f r else r) ` set rows"
  by (simp add: update_rows_def)

lemma in_update_rows:
  "x \<in> set (update_rows p f rows) \<longleftrightarrow> (\<exists>r \<in> set rows. x = (if p r then f r else r))"
  by (auto simp: set_update_rows)

lemma bex_update_rows:
  "(\<exists>x \<in> set (update_rows p f rows). P x) \<longleftrightarrow> (\<exists>r \<in> set rows. P (if p r then f r else r))"
  unfolding set_update_rows by blast

lemma ball_update_rows:
  "(\<forall>x \<in> set (update_rows p f rows). P x) \<longleftrightarrow> (\<forall>r \<in> set rows. P (if p r then f r else r))"
  unfolding set_update_rows by blast

lemmas update_rows_simps = bex_update_rows ball_update_rows

lemma map_update_rows:
  "(\<And>r. key (f r) = key r) \<Longrightarrow> map key (update_rows p f rows) = map key rows"
  by (simp add: update_rows_def)

lemma length_update_rows [simp]: "length (update_rows p f rows) = length rows"
  by (simp add: update_rows_def)

section \<open>Transition systems\<close>

text \<open>
  The states a component can reach: from a state that satisfies \<open>init\<close>, by any number of
  steps.  A component proves an invariant once, by interpreting \<open>invariant_system\<close>, and its
  properties rest on \<open>reachable_inv\<close>.
\<close>

inductive reachable :: "('s \<Rightarrow> bool) \<Rightarrow> ('s \<Rightarrow> 's \<Rightarrow> bool) \<Rightarrow> 's \<Rightarrow> bool"
  for init :: "'s \<Rightarrow> bool" and step :: "'s \<Rightarrow> 's \<Rightarrow> bool"
  where
    reachable_init: "init s \<Longrightarrow> reachable init step s"
  | reachable_step: "reachable init step s \<Longrightarrow> step s t \<Longrightarrow> reachable init step t"

lemma reachable_rtranclp:
  "reachable init step s \<Longrightarrow> step\<^sup>*\<^sup>* s t \<Longrightarrow> reachable init step t"
  by (rotate_tac, induction rule: rtranclp_induct) (auto intro: reachable_step)

locale invariant_system =
  fixes init :: "'s \<Rightarrow> bool" and step :: "'s \<Rightarrow> 's \<Rightarrow> bool" and inv :: "'s \<Rightarrow> bool"
  assumes init_inv: "init s \<Longrightarrow> inv s"
    and step_inv: "inv s \<Longrightarrow> step s t \<Longrightarrow> inv t"
begin

lemma reachable_inv: "reachable init step s \<Longrightarrow> inv s"
  by (induction rule: reachable.induct) (auto intro: init_inv step_inv)

lemma steps_inv: "step\<^sup>*\<^sup>* s t \<Longrightarrow> inv s \<Longrightarrow> inv t"
  by (induction rule: rtranclp_induct) (auto intro: step_inv)

end

end
