(* ===== verification/Stack_Error.thy ===== *)
theory Stack_Error
  imports Prelude
begin

text \<open>
  The errors of the modelled operations: the variants of \<^verbatim>\<open>StackError\<close> (\<^verbatim>\<open>src/error.rs\<close>) that
  they return, the result type, decimal printing, and the outcome type of code that may panic.
\<close>

datatype stack_error =
    InvalidParam rstr rstr
  | SecretNotFound rstr
  | MissingField rstr
  | NonZeroRequired rstr
  | PathMustBeAbsolute rstr
  | PathContainsParentDir rstr
  | InvalidExpectedSha256
  | InvalidPermissionsMode
  | InvalidDurationField rstr
  | CommandNotFound rstr
  | CommandDenied rstr
  | CommandCwdOutsideWorkspace rstr
  | CommandEnvNotAllowed rstr
  | InvalidSecretRefName rstr
  | SecretTemplateInvalid rstr rstr
  | SecretRefLooksLikeValue rstr
  | InvalidTimeoutAction
  | InvalidAcpPromptAction
  | PermissionNotFound rstr
  | InvalidPermissionTransition rstr rstr rstr
  | InvalidEventPayload
  | StateAccessFailed
  | SandboxUnresolved
  | WorkspacePathInvalid rstr rstr
  | ArchiveReadFailed
  | ArchiveUnsupportedFormat
  | ArchiveUnsafeEntry rstr rstr
  | ArchiveTooLarge nat
  | DomainRateLimited rstr nat
  | InvalidAuthFailurePayload
  | SessionNotFound rstr
  | SessionDeleted rstr
  | SessionEventCursorUnknown rstr rstr
  | SessionTargetRenameConflict rstr rstr nat
  | PromptNotFound rstr
  | StateInvalidJson rstr
  | StateWriterStopped

type_synonym 'a result = "stack_error + 'a"

abbreviation Err :: "stack_error \<Rightarrow> 'a result" where
  "Err \<equiv> Inl"

abbreviation Ok :: "'a \<Rightarrow> 'a result" where
  "Ok \<equiv> Inr"

definition ok_or :: "stack_error \<Rightarrow> 'a option \<Rightarrow> 'a result" where
  [text_simps]: "ok_or e x = (case x of Some v \<Rightarrow> Ok v | None \<Rightarrow> Err e)"

definition and_then :: "'a result \<Rightarrow> ('a \<Rightarrow> 'b result) \<Rightarrow> 'b result" where
  [text_simps]: "and_then r f = (case r of Inl e \<Rightarrow> Inl e | Inr v \<Rightarrow> f v)"

lemma ok_or_eq [simp]:
  "ok_or e x = Ok v \<longleftrightarrow> x = Some v" "ok_or e x = Err d \<longleftrightarrow> x = None \<and> d = e"
  by (auto simp: ok_or_def split: option.split)

lemma and_then_Ok: "and_then r f = Ok v \<longleftrightarrow> (\<exists>u. r = Ok u \<and> f u = Ok v)"
  by (auto simp: and_then_def split: sum.split)

lemma and_then_simps [simp]: "and_then (Ok v) f = f v" "and_then (Err e) f = Err e"
  by (simp_all add: and_then_def)

text \<open>Code that may panic instead of returning.\<close>

datatype 'a outcome = Panic | Return 'a

section \<open>Decimal numbers\<close>

text \<open>\<^verbatim>\<open>{count}\<close> in a format string.\<close>

fun show_nat :: "nat \<Rightarrow> rstr" where
  "show_nat n = (if n < 10 then [48 + n] else show_nat (n div 10) @ [48 + n mod 10])"

declare show_nat.simps [simp del]

lemma show_nat_digits: "list_all is_ascii_digit (show_nat n) \<and> show_nat n \<noteq> []"
proof (induction n rule: show_nat.induct)
  case (1 n)
  then show ?case
    by (subst show_nat.simps, subst (2) show_nat.simps) (auto simp: list_all_iff is_ascii_digit_def)
qed

lemma digits_value_snoc: "digits_value r (s @ [c]) = digits_value r s * r + digit_value c"
  by (simp add: digits_value_def)

lemma digits_value_show_nat: "digits_value 10 (show_nat n) = n"
proof (induction n rule: show_nat.induct)
  case (1 n)
  show ?case
  proof (cases "n < 10")
    case True
    then show ?thesis
      by (subst show_nat.simps) (simp add: digits_value_def digit_value_def is_ascii_digit_def)
  next
    case False
    moreover have "digit_value (48 + n mod 10) = n mod 10"
      by (simp add: digit_value_def is_ascii_digit_def)
    ultimately show ?thesis
      using 1 by (subst show_nat.simps) (simp add: digits_value_snoc)
  qed
qed

lemma parse_unsigned_digits:
  "list_all is_ascii_digit s \<Longrightarrow> s \<noteq> [] \<Longrightarrow>
   parse_unsigned bits s = (if digits_value 10 s < 2 ^ bits then Some (digits_value 10 s) else None)"
  by (cases s) (auto simp: parse_unsigned_def is_ascii_digit_def)

lemma parse_show_nat:
  "parse_unsigned bits (show_nat n) = (if n < 2 ^ bits then Some n else None)"
  using show_nat_digits [of n] by (simp add: parse_unsigned_digits digits_value_show_nat)

end
