(* ===== verification/Paths.thy ===== *)
theory Paths
  imports Stack_Error "HOL-Library.Sublist"
begin

text \<open>
  Lexical paths: the part of \<^verbatim>\<open>std::path\<close> (on Unix) that the code uses, the validators of
  \<^verbatim>\<open>src/config/validate/primitives.rs\<close>, the workspace path rules of \<^verbatim>\<open>src/workspace.rs\<close>, and the
  resolution of a command's working directory
  (\<^verbatim>\<open>src/runtime/mediation/commands/policy/matching.rs\<close>).

  The file system is a parameter: \<open>canonicalize\<close> and \<open>metadata\<close> are functions of the path.
\<close>

section \<open>Components\<close>

datatype component = RootDir | CurDir | ParentDir | Normal rstr


definition is_absolute :: "rstr \<Rightarrow> bool" where
  [text_simps]: "is_absolute s \<longleftrightarrow> s \<noteq> [] \<and> hd s = c_slash"

text \<open>A piece between separators that stands for no component.\<close>

definition insignificant :: "rstr \<Rightarrow> bool" where
  [text_simps]: "insignificant piece \<longleftrightarrow> piece = [] \<or> piece = [c_dot]"

definition piece_component :: "rstr \<Rightarrow> component" where
  [text_simps]: "piece_component piece = (if piece = [c_dot, c_dot] then ParentDir else Normal piece)"

definition body_components :: "rstr list \<Rightarrow> component list" where
  [text_simps]: "body_components pieces = map piece_component (filter (\<lambda>p. \<not> insignificant p) pieces)"

text \<open>
  \<^verbatim>\<open>Path::components\<close>: repeated separators and \<^verbatim>\<open>.\<close> are dropped, apart from a \<^verbatim>\<open>.\<close> that opens a
  relative path.
\<close>

definition components :: "rstr \<Rightarrow> component list" where
  [text_simps]: "components s =
     (if is_absolute s then [RootDir]
      else if hd (split_on c_slash s) = [c_dot] then [CurDir] else [])
     @ body_components (split_on c_slash s)"

definition path_starts_with :: "rstr \<Rightarrow> rstr \<Rightarrow> bool" where
  "path_starts_with s base \<longleftrightarrow> prefix (components base) (components s)"

text \<open>\<^verbatim>\<open>PathBuf::push\<close> and \<^verbatim>\<open>Path::join\<close>.\<close>

definition path_join :: "rstr \<Rightarrow> rstr \<Rightarrow> rstr" where
  [text_simps]: "path_join base s =
     (if is_absolute s then s
      else if base = [] \<or> last base = c_slash then base @ s
      else base @ c_slash # s)"

text \<open>
  \<^verbatim>\<open>Path::strip_prefix\<close> below an absolute base: the text after the pieces of the base, without
  the separators and \<^verbatim>\<open>.\<close> pieces at its two ends.
\<close>

fun drop_pieces :: "nat \<Rightarrow> rstr list \<Rightarrow> rstr list" where
  "drop_pieces n [] = []"
| "drop_pieces n (p # ps) =
     (if insignificant p then drop_pieces n ps
      else if n = 0 then p # ps else drop_pieces (n - 1) ps)"

definition strip_prefix :: "rstr \<Rightarrow> rstr \<Rightarrow> rstr option" where
  [text_simps]: "strip_prefix s base =
     (if path_starts_with s base then
        Some (join_with [c_slash]
          (rev (dropWhile insignificant
            (rev (drop_pieces (length (components base) - 1) (split_on c_slash s))))))
      else None)"

section \<open>Validators\<close>

definition validate_nonzero :: "rstr \<Rightarrow> nat \<Rightarrow> unit result" where
  "validate_nonzero field v = (if v = 0 then Err (NonZeroRequired field) else Ok ())"

definition validate_absolute_path :: "rstr \<Rightarrow> rstr \<Rightarrow> unit result" where
  "validate_absolute_path field v = (if \<not> is_absolute v then Err (PathMustBeAbsolute field) else Ok ())"

definition validate_no_parent_dir_segments :: "rstr \<Rightarrow> rstr \<Rightarrow> unit result" where
  "validate_no_parent_dir_segments field v =
     (if list_ex (\<lambda>c. c = ParentDir) (components v) then Err (PathContainsParentDir field) else Ok ())"

definition require_present :: "rstr \<Rightarrow> rstr option \<Rightarrow> rstr result" where
  "require_present field v =
     (case v of
        Some text \<Rightarrow> if trim text \<noteq> [] then Ok text else Err (MissingField field)
      | None \<Rightarrow> Err (MissingField field))"

definition validate_expected_sha256 :: "rstr \<Rightarrow> unit result" where
  "validate_expected_sha256 v =
     (if str_len v = 64 \<and> list_all (\<lambda>c. is_ascii_digit c \<or> (97 \<le> c \<and> c \<le> 102)) v then Ok ()
      else Err InvalidExpectedSha256)"

definition validate_nonempty :: "rstr \<Rightarrow> rstr \<Rightarrow> unit result" where
  "validate_nonempty field v = (if trim v = [] then Err (MissingField field) else Ok ())"

definition validate_non_empty_trimmed :: "rstr \<Rightarrow> rstr \<Rightarrow> unit result" where
  "validate_non_empty_trimmed field v =
     (if trim v = [] \<or> str_len (trim v) \<noteq> str_len v then Err (MissingField field) else Ok ())"

definition validate_optional_config_path :: "rstr \<Rightarrow> rstr \<Rightarrow> unit result" where
  "validate_optional_config_path field v =
     (if trim v = [] then Err (MissingField field)
      else if \<not> is_absolute v then Err (PathMustBeAbsolute field)
      else if list_ex (\<lambda>c. c = ParentDir) (components v) then Err (PathContainsParentDir field)
      else Ok ())"

section \<open>Workspace paths\<close>

datatype path_intent = ReadExisting | WriteOrCreate

fun push_components :: "(rstr \<Rightarrow> stack_error) \<Rightarrow> rstr \<Rightarrow> component list \<Rightarrow> rstr result" where
  "push_components invalid relative [] = Ok relative"
| "push_components invalid relative (c # cs) =
     (case c of
        ParentDir \<Rightarrow> Err (invalid (lit ''contains `..` segment''))
      | RootDir \<Rightarrow> Err (invalid (lit ''must be a workspace-relative path''))
      | CurDir \<Rightarrow> push_components invalid relative cs
      | Normal name \<Rightarrow> push_components invalid (path_join relative name) cs)"

definition trim_end_slashes :: "rstr \<Rightarrow> rstr" where
  [text_simps]: "trim_end_slashes s = rev (dropWhile (\<lambda>c. c = c_slash) (rev s))"

definition ends_with :: "rstr \<Rightarrow> rstr \<Rightarrow> bool" where
  [text_simps]: "ends_with s t \<longleftrightarrow> suffix t s"

definition workspace_relative_path :: "rstr \<Rightarrow> path_intent \<Rightarrow> rstr result" where
  "workspace_relative_path requested intent =
     (let invalid = (\<lambda>reason. WorkspacePathInvalid reason requested) in
      if c_nul \<in> set requested then Err (invalid (lit ''contains NUL byte''))
      else and_then (push_components invalid [] (components requested)) (\<lambda>relative.
        if intent = WriteOrCreate then
          (if relative = [] then Err (invalid (lit ''must name a specific file inside the workspace''))
           else if trim_end_slashes requested = [c_dot] \<or>
                   ends_with (trim_end_slashes requested) [c_slash, c_dot]
           then Err (invalid (lit ''path must end with a file name, not `.`''))
           else Ok relative)
        else Ok relative))"

definition anchored_relative_path ::
  "rstr \<Rightarrow> rstr \<Rightarrow> rstr \<Rightarrow> path_intent \<Rightarrow> rstr result" where
  "anchored_relative_path anchor configured_root requested intent =
     (let invalid = (\<lambda>reason. WorkspacePathInvalid reason requested) in
      if \<not> is_absolute requested then Err (invalid (lit ''must be an absolute path''))
      else and_then
        (ok_or (invalid (lit ''outside the session workspace''))
          (case strip_prefix requested anchor of
             Some relative \<Rightarrow> Some relative
           | None \<Rightarrow> strip_prefix requested configured_root))
        (\<lambda>relative. workspace_relative_path relative intent))"

section \<open>The working directory of a command\<close>

record file_metadata =
  is_dir :: bool
  dev :: nat
  ino :: nat

record file_identity =
  id_dev :: nat
  id_ino :: nat

definition from_metadata :: "file_metadata \<Rightarrow> file_identity" where
  "from_metadata m = \<lparr>id_dev = dev m, id_ino = ino m\<rparr>"

record resolved_command_cwd =
  cwd_path :: rstr
  cwd_identity :: file_identity

definition resolve_cwd_under_workspace ::
  "(rstr \<Rightarrow> rstr option) \<Rightarrow> (rstr \<Rightarrow> file_metadata option) \<Rightarrow> rstr \<Rightarrow> rstr \<Rightarrow>
   resolved_command_cwd result" where
  "resolve_cwd_under_workspace canonicalize metadata root requested =
     (let outside = CommandCwdOutsideWorkspace requested;
          candidate = (if is_absolute requested then requested else path_join root requested)
      in if c_nul \<in> set requested then Err outside
         else and_then (ok_or outside (canonicalize root)) (\<lambda>canonical_root.
           and_then (ok_or outside (canonicalize candidate)) (\<lambda>canonical_candidate.
           and_then (ok_or outside (metadata canonical_candidate)) (\<lambda>m.
           if \<not> is_dir m then Err outside
           else if \<not> path_starts_with canonical_candidate canonical_root then Err outside
           else Ok \<lparr>cwd_path = canonical_candidate, cwd_identity = from_metadata m\<rparr>))))"

text \<open>
  \<open>open_verified\<close> at a later time: \<open>metadata\<close> is then the metadata of the directory that the
  open (which does not follow a link) yields.
\<close>

definition open_verified :: "(rstr \<Rightarrow> file_metadata option) \<Rightarrow> resolved_command_cwd \<Rightarrow> file_metadata option" where
  "open_verified opened cwd =
     (case opened (cwd_path cwd) of
        Some m \<Rightarrow> if from_metadata m \<noteq> cwd_identity cwd then None else Some m
      | None \<Rightarrow> None)"

section \<open>Lemmas on components\<close>

lemma split_on_ne [simp]: "split_on d s \<noteq> []"
  by (induction s) (auto split: list.split)

lemma split_on_append: "split_on d (a @ d # b) = split_on d a @ split_on d b"
  by (induction a) (auto split: list.split)

lemma split_on_single: "d \<notin> set s \<Longrightarrow> split_on d s = [s]"
  by (induction s) auto

lemma split_on_pieces: "p \<in> set (split_on d s) \<Longrightarrow> d \<notin> set p"
proof (induction s arbitrary: p)
  case (Cons c s)
  then show ?case by (cases "split_on d s") (auto split: if_splits)
qed simp

lemma join_split_on: "join_with [d] (split_on d s) = s"
proof (induction s)
  case (Cons c s)
  then show ?case
    by (cases "split_on d s"; cases "tl (split_on d s)") (auto simp: join_with_Cons)
qed simp

definition name_ok :: "rstr \<Rightarrow> bool" where
  "name_ok n \<longleftrightarrow> \<not> insignificant n \<and> n \<noteq> [c_dot, c_dot] \<and> c_slash \<notin> set n"

lemma name_ok_ne: "name_ok n \<Longrightarrow> n \<noteq> []"
  by (auto simp: name_ok_def insignificant_def)

lemma body_components_append [simp]:
  "body_components (a @ b) = body_components a @ body_components b"
  by (simp add: body_components_def)

lemma body_components_insignificant [simp]: "insignificant p \<Longrightarrow> body_components [p] = []"
  by (simp add: body_components_def)

lemma body_name: "Normal n \<in> set (body_components (split_on c_slash s)) \<Longrightarrow> name_ok n"
  by (auto simp: body_components_def piece_component_def name_ok_def dest: split_on_pieces split: if_splits)

lemma components_name: "Normal n \<in> set (components s) \<Longrightarrow> name_ok n"
  by (auto simp: components_def dest: body_name split: if_splits)

lemma body_no_dirs: "RootDir \<notin> set (body_components ps)" "CurDir \<notin> set (body_components ps)"
  by (auto simp: body_components_def piece_component_def split: if_splits)

lemma components_join:
  assumes "base \<noteq> []" and "\<not> is_absolute s"
  shows "components (path_join base s) = components base @ body_components (split_on c_slash s)"
proof (cases "last base = c_slash")
  case True
  then obtain b where b: "base = b @ [c_slash]" using assms(1) by (metis append_butlast_last_id)
  have "path_join base s = b @ c_slash # s" using assms b by (simp add: path_join_def)
  moreover have "is_absolute (b @ c_slash # s) = is_absolute base"
    by (cases b) (simp_all add: b is_absolute_def)
  moreover have "insignificant []" by (simp add: insignificant_def)
  ultimately show ?thesis
    unfolding components_def b
    using split_on_append [of c_slash b s] split_on_append [of c_slash b "[]"]
    by (auto simp: hd_append)
next
  case False
  then have "path_join base s = base @ c_slash # s" using assms by (simp add: path_join_def)
  moreover have "is_absolute (base @ c_slash # s) = is_absolute base"
    using assms(1) by (cases base) (simp_all add: is_absolute_def)
  ultimately show ?thesis
    unfolding components_def
    using split_on_append [of c_slash base s] by (auto simp: hd_append)
qed

lemma components_name_ok:
  assumes "name_ok n"
  shows "\<not> is_absolute n" "components n = [Normal n]" "body_components (split_on c_slash n) = [Normal n]"
proof -
  show "\<not> is_absolute n" using assms by (cases n) (auto simp: name_ok_def is_absolute_def)
  with assms show "components n = [Normal n]" "body_components (split_on c_slash n) = [Normal n]"
    by (simp_all add: name_ok_def components_def split_on_single body_components_def
        piece_component_def insignificant_def)
qed

text \<open>The names of the normal components, in order.\<close>

definition normals :: "component list \<Rightarrow> rstr list" where
  "normals cs = concat (map (\<lambda>c. case c of Normal n \<Rightarrow> [n] | _ \<Rightarrow> []) cs)"

lemma normals_simps [simp]:
  "normals [] = []" "normals (Normal n # cs) = n # normals cs" "normals (CurDir # cs) = normals cs"
  "normals (RootDir # cs) = normals cs" "normals (ParentDir # cs) = normals cs"
  "normals (a @ b) = normals a @ normals b"
  by (simp_all add: normals_def)

lemma push_components_Ok:
  "push_components invalid relative cs = Ok r \<longleftrightarrow>
     ParentDir \<notin> set cs \<and> RootDir \<notin> set cs \<and> r = foldl path_join relative (normals cs)"
  by (induction cs arbitrary: relative) (auto split: component.splits)

lemma only_normals:
  "ParentDir \<notin> set cs \<Longrightarrow> RootDir \<notin> set cs \<Longrightarrow> CurDir \<notin> set cs \<Longrightarrow> cs = map Normal (normals cs)"
proof (induction cs)
  case (Cons c cs)
  then show ?case by (cases c) auto
qed simp

lemma components_foldl_join:
  "list_all name_ok names \<Longrightarrow> base \<noteq> [] \<Longrightarrow>
   components (foldl path_join base names) = components base @ map Normal names"
proof (induction names arbitrary: base)
  case (Cons n names)
  then have n: "name_ok n" "list_all name_ok names" "n \<noteq> []" by (auto dest: name_ok_ne)
  then have "path_join base n \<noteq> []" by (simp add: path_join_def)
  with Cons.IH n Cons.prems(2) show ?case
    by (simp add: components_join components_name_ok)
qed simp

lemma components_render:
  assumes "list_all name_ok names"
  shows "components (foldl path_join [] names) = map Normal names"
proof (cases names)
  case Nil
  then show ?thesis by (simp add: components_def is_absolute_def body_components_def insignificant_def)
next
  case (Cons n ns)
  with assms have n: "name_ok n" "list_all name_ok ns" "n \<noteq> []"
    by (auto dest: name_ok_ne)
  then have "path_join [] n = n" by (simp add: path_join_def components_name_ok)
  with components_foldl_join [OF n(2,3)] Cons n(1) show ?thesis
    by (simp add: components_name_ok)
qed

lemma normals_ok: "list_all name_ok (normals (components s))"
  using components_name by (fastforce simp: normals_def list_all_iff split: component.splits)

lemma render_relative:
  assumes "list_all name_ok names"
  shows "\<not> is_absolute (foldl path_join [] names)"
    and "body_components (split_on c_slash (foldl path_join [] names)) = map Normal names"
proof -
  let ?r = "foldl path_join [] names"
  have c: "components ?r = map Normal names" using components_render [OF assms] .
  then show *: "\<not> is_absolute ?r"
    by (cases names) (auto simp: components_def is_absolute_def split: if_splits)
  show "body_components (split_on c_slash ?r) = map Normal names"
    using c * by (cases names) (auto simp: components_def split: if_splits)
qed

lemma join_render:
  assumes "list_all name_ok names" and "root \<noteq> []"
  shows "components (path_join root (foldl path_join [] names)) = components root @ map Normal names"
  using components_join [OF assms(2) render_relative(1) [OF assms(1)]] render_relative(2) [OF assms(1)]
  by simp

lemma workspace_relative_path_Ok:
  assumes "workspace_relative_path requested intent = Ok r"
  shows "r = foldl path_join [] (normals (components requested))"
    and "ParentDir \<notin> set (components requested)" "RootDir \<notin> set (components requested)"
    and "intent = WriteOrCreate \<longrightarrow> normals (components requested) \<noteq> []"
  using assms
  by (auto simp: workspace_relative_path_def and_then_Ok push_components_Ok Let_def split: if_splits)

lemma body_components_Cons:
  "body_components (p # ps) = (if insignificant p then [] else [piece_component p]) @ body_components ps"
  by (simp add: body_components_def)

lemma body_drop_pieces: "body_components (drop_pieces n ps) = drop n (body_components ps)"
  by (induction n ps rule: drop_pieces.induct)
    (auto simp: body_components_Cons drop_Cons' body_components_def [of "[]"])

lemma body_drop_trailing:
  "body_components (rev (dropWhile insignificant (rev ps))) = body_components ps"
  by (induction ps rule: rev_induct) (auto simp: body_components_Cons body_components_def [of "[]"])

lemma split_on_join:
  "ps \<noteq> [] \<Longrightarrow> list_all (\<lambda>p. d \<notin> set p) ps \<Longrightarrow> split_on d (join_with [d] ps) = ps"
proof (induction ps)
  case (Cons p ps)
  then show ?case
    by (cases ps) (simp_all add: split_on_single split_on_append)
qed simp

lemma set_drop_pieces: "set (drop_pieces n ps) \<subseteq> set ps"
  by (induction n ps rule: drop_pieces.induct) auto

lemma hd_drop_pieces: "drop_pieces n ps \<noteq> [] \<Longrightarrow> \<not> insignificant (hd (drop_pieces n ps))"
  by (induction n ps rule: drop_pieces.induct) auto

lemma hd_drop_trailing:
  "ps \<noteq> [] \<Longrightarrow> \<not> insignificant (hd ps) \<Longrightarrow>
   rev (dropWhile insignificant (rev ps)) \<noteq> [] \<and> hd (rev (dropWhile insignificant (rev ps))) = hd ps"
  by (induction ps rule: rev_induct) (auto simp: hd_append split: if_splits)

lemma strip_prefix_components:
  assumes "strip_prefix s base = Some r" and "is_absolute s" and "is_absolute base"
  shows "components s = components base @ components r" and "\<not> is_absolute r"
proof -
  define ps where "ps = drop_pieces (length (components base) - 1) (split_on c_slash s)"
  define qs where "qs = rev (dropWhile insignificant (rev ps))"
  have pre: "prefix (components base) (components s)" and r: "r = join_with [c_slash] qs"
    using assms(1) by (auto simp: strip_prefix_def path_starts_with_def ps_def qs_def split: if_splits)
  have body: "body_components qs = drop (length (components base) - 1) (body_components (split_on c_slash s))"
    by (simp add: qs_def ps_def body_drop_trailing body_drop_pieces)
  then have total: "components s = components base @ body_components qs"
    using pre assms(2,3) by (auto simp: components_def prefix_def)
  have "components r = body_components qs \<and> \<not> is_absolute r"
  proof (cases "ps = []")
    case True
    then show ?thesis
      by (simp add: r qs_def components_def is_absolute_def body_components_def insignificant_def)
  next
    case False
    then have hd: "qs \<noteq> []" "\<not> insignificant (hd qs)"
      using hd_drop_trailing [OF False] hd_drop_pieces [of "length (components base) - 1" "split_on c_slash s"]
      by (auto simp: qs_def ps_def)
    have slash: "list_all (\<lambda>p. c_slash \<notin> set p) qs"
      using set_drop_pieces [of "length (components base) - 1" "split_on c_slash s"]
      by (fastforce simp: qs_def ps_def list_all_iff dest: set_dropWhileD split_on_pieces)
    have split: "split_on c_slash r = qs" using split_on_join [OF hd(1) slash] r by simp
    have "\<not> is_absolute r"
    proof
      assume "is_absolute r"
      then have "hd (split_on c_slash r) = []" by (cases r) (auto simp: is_absolute_def)
      with hd split show False by (simp add: insignificant_def)
    qed
    with hd split show ?thesis by (auto simp: components_def insignificant_def)
  qed
  with total show "components s = components base @ components r" "\<not> is_absolute r" by auto
qed

section \<open>Properties\<close>

text \<open>
  A workspace path that passes validation cannot leave the workspace lexically: joined to
  the root it is the root followed by exactly the plain names of the request, with no \<^verbatim>\<open>..\<close>, no
  \<^verbatim>\<open>.\<close> and no separator in a name, and a path to write names at least one entry.
\<close>

theorem workspace_relative_path_contained:
  assumes "workspace_relative_path requested intent = Ok r" and "root \<noteq> []"
  shows "components (path_join root r) = components root @ map Normal (normals (components requested)) \<and>
    path_starts_with (path_join root r) root \<and>
    ParentDir \<notin> set (components r) \<and> \<not> is_absolute requested \<and> c_nul \<notin> set requested \<and>
    (if intent = WriteOrCreate then path_join root r \<noteq> root \<and> components r \<noteq> [] else True)"
proof -
  let ?names = "normals (components requested)"
  note ok = workspace_relative_path_Ok [OF assms(1)]
  have c: "components r = map Normal ?names" using components_render [OF normals_ok] ok(1) by simp
  have j: "components (path_join root r) = components root @ map Normal ?names"
    using join_render [OF normals_ok assms(2)] ok(1) by simp
  have "\<not> is_absolute requested" using ok(3) by (auto simp: components_def)
  moreover have "c_nul \<notin> set requested"
    using assms(1) by (auto simp: workspace_relative_path_def Let_def)
  moreover have "path_join root r \<noteq> root" if "?names \<noteq> []"
    using j that by auto
  ultimately show ?thesis using c j ok(4) by (auto simp: path_starts_with_def)
qed

theorem workspace_relative_path_contained_witness:
  "workspace_relative_path (lit ''./src//main.rs'') WriteOrCreate = Ok (lit ''src/main.rs'') \<and>
   path_starts_with (path_join (lit ''/ws'') (lit ''src/main.rs'')) (lit ''/ws'')"
proof -
  have "workspace_relative_path (lit ''./src//main.rs'') WriteOrCreate = Ok (lit ''src/main.rs'')"
    by (simp add: workspace_relative_path_def text_simps suffix_def Let_def)
  from this workspace_relative_path_contained [OF this, of "lit ''/ws''"] show ?thesis
    by (simp add: lit_def)
qed

text \<open>
  An absolute path that the agent surface accepts lies below the session anchor or below
  the configured root: its components are those of one of the two followed by plain names, and
  the relative path handed to the walk consists of exactly these names.
\<close>

theorem anchored_relative_path_contained:
  assumes "anchored_relative_path anchor configured_root requested intent = Ok r"
    and "is_absolute anchor" and "is_absolute configured_root"
  shows "\<exists>names. list_all name_ok names \<and> components r = map Normal names \<and>
    (components requested = components anchor @ map Normal names \<or>
     components requested = components configured_root @ map Normal names)"
proof -
  obtain base relative where abs: "is_absolute requested" and base: "base \<in> {anchor, configured_root}"
    and strip: "strip_prefix requested base = Some relative"
    and ok: "workspace_relative_path relative intent = Ok r"
    using assms(1)
    by (auto simp: anchored_relative_path_def and_then_Ok Let_def split: if_splits option.splits)
  have "is_absolute base" using base assms(2,3) by auto
  note c = strip_prefix_components [OF strip abs this]
  note w = workspace_relative_path_Ok [OF ok]
  have "CurDir \<notin> set (components relative)"
  proof
    assume "CurDir \<in> set (components relative)"
    then have "CurDir \<in> set (components requested)" using c(1) by simp
    then show False using abs body_no_dirs(2) by (auto simp: components_def)
  qed
  with w(2,3) have "components relative = map Normal (normals (components relative))"
    by (rule only_normals)
  moreover have "components r = map Normal (normals (components relative))"
    using components_render [OF normals_ok] w(1) by simp
  ultimately show ?thesis using c(1) base normals_ok [of relative] by fastforce
qed

theorem anchored_relative_path_contained_witness:
  "\<exists>names. list_all name_ok names \<and> components (lit ''a/b'') = map Normal names \<and>
    (components (lit ''/ws/a//b'') = components (lit ''/ws'') @ map Normal names \<or>
     components (lit ''/ws/a//b'') = components (lit ''/w'') @ map Normal names)"
proof (rule anchored_relative_path_contained)
  show "anchored_relative_path (lit ''/ws'') (lit ''/w'') (lit ''/ws/a//b'') ReadExisting = Ok (lit ''a/b'')"
    by (simp add: anchored_relative_path_def workspace_relative_path_def path_starts_with_def text_simps Let_def)
qed (simp_all add: text_simps)

text \<open>
  The agent surface strips the trailing \<^verbatim>\<open>/.\<close> before the check that refuses it, so the check
  holds for relative requests only.
\<close>

lemma trailing_dot_not_refused:
  "workspace_relative_path (lit ''sub/.'') WriteOrCreate =
     Err (WorkspacePathInvalid (lit ''path must end with a file name, not `.`'') (lit ''sub/.''))"
  "anchored_relative_path (lit ''/ws'') (lit ''/ws'') (lit ''/ws/sub/.'') WriteOrCreate = Ok (lit ''sub'')"
  by (simp_all add: anchored_relative_path_def workspace_relative_path_def path_starts_with_def
      text_simps suffix_def Let_def)

text \<open>
  C13. A command runs only in a directory of the workspace: a resolved working directory has
  the components of the canonical root as a prefix, was a directory when it was resolved, and a
  later open that succeeds yields the very inode that was validated.
\<close>

theorem resolve_cwd_under_workspace_contained:
  assumes "resolve_cwd_under_workspace canonicalize metadata root requested = Ok cwd"
  shows "(\<exists>canonical_root m. canonicalize root = Some canonical_root \<and>
      path_starts_with (cwd_path cwd) canonical_root \<and>
      metadata (cwd_path cwd) = Some m \<and> is_dir m \<and>
      (\<forall>opened m'. open_verified opened cwd = Some m' \<longrightarrow> dev m' = dev m \<and> ino m' = ino m)) \<and>
    (\<exists>c. canonicalize c = Some (cwd_path cwd))"
  using assms
  by (auto simp: resolve_cwd_under_workspace_def and_then_Ok Let_def open_verified_def
      from_metadata_def split: if_splits option.splits)

theorem resolve_cwd_under_workspace_contained_witness:
  "\<exists>canonical_root. canonical_root = lit ''/ws'' \<and> path_starts_with (lit ''/ws/a'') canonical_root"
proof -
  have "resolve_cwd_under_workspace Some (\<lambda>p. Some \<lparr>is_dir = True, dev = 1, ino = 7\<rparr>)
      (lit ''/ws'') (lit ''a'') =
    Ok \<lparr>cwd_path = lit ''/ws/a'', cwd_identity = \<lparr>id_dev = 1, id_ino = 7\<rparr>\<rparr>"
    by (simp add: resolve_cwd_under_workspace_def path_starts_with_def from_metadata_def text_simps Let_def)
  from resolve_cwd_under_workspace_contained [OF this] show ?thesis by auto
qed

end
