(* ===== verification/Safe_Extract.thy ===== *)
theory Safe_Extract
  imports Paths
begin

text \<open>
  The archive extractor (\<^verbatim>\<open>src/runtime/workspace_sources/safe_extract.rs\<close>).  The archive
  libraries are parameters: an archive is the list of entries they yield, an entry carries the
  chunks its reader returns.  \<open>faulty\<close> says which file system operations fail.  Error messages of
  the file system are not modelled.  Every operation returns the disk with its result, so that the
  properties also cover what a failing extraction leaves behind.
\<close>

section \<open>Formats and entries\<close>

datatype detected_format = TarGz | Tar | Zip

definition detect_format :: "byte list \<Rightarrow> detected_format result" where
  "detect_format head =
     (if take 2 head = [0x1f, 0x8b] then Ok TarGz
      else if take 4 head = [80, 75, 3, 4] \<or> take 4 head = [80, 75, 5, 6] then Ok Zip
      else if 263 \<le> length head \<and> take 5 (drop 257 head) = [117, 115, 116, 97, 114] then Ok Tar
      else Err ArchiveUnsupportedFormat)"

datatype entry_type = Regular | Link | Symlink | Char | Block | Directory | Fifo | Continuous
  | GNUSparse | XHeader | XGlobalHeader | GNULongName | GNULongLink | OtherType

fun entry_kind_label :: "entry_type \<Rightarrow> rstr" where
  "entry_kind_label Regular = lit ''regular''"
| "entry_kind_label Link = lit ''hardlink''"
| "entry_kind_label Symlink = lit ''symlink''"
| "entry_kind_label Char = lit ''char-device''"
| "entry_kind_label Block = lit ''block-device''"
| "entry_kind_label Directory = lit ''directory''"
| "entry_kind_label Fifo = lit ''fifo''"
| "entry_kind_label Continuous = lit ''continuous''"
| "entry_kind_label GNUSparse = lit ''gnu-sparse''"
| "entry_kind_label XHeader = lit ''pax-local-header''"
| "entry_kind_label XGlobalHeader = lit ''pax-global-header''"
| "entry_kind_label GNULongName = lit ''gnu-long-name''"
| "entry_kind_label GNULongLink = lit ''gnu-long-link''"
| "entry_kind_label OtherType = lit ''unknown''"

definition reject_unsafe_entry :: "entry_type \<Rightarrow> rstr \<Rightarrow> unit result" where
  "reject_unsafe_entry ty name =
     (let label = entry_kind_label ty in
      case ty of
        Symlink \<Rightarrow> Err (ArchiveUnsafeEntry (lit ''symlink'') name)
      | Link \<Rightarrow> Err (ArchiveUnsafeEntry (lit ''hardlink'') name)
      | Char \<Rightarrow> Err (ArchiveUnsafeEntry label name)
      | Block \<Rightarrow> Err (ArchiveUnsafeEntry label name)
      | Fifo \<Rightarrow> Err (ArchiveUnsafeEntry label name)
      | Regular \<Rightarrow> Ok ()
      | Directory \<Rightarrow> Ok ()
      | Continuous \<Rightarrow> Ok ()
      | GNUSparse \<Rightarrow> Ok ()
      | XHeader \<Rightarrow> Ok ()
      | XGlobalHeader \<Rightarrow> Ok ()
      | GNULongName \<Rightarrow> Ok ()
      | GNULongLink \<Rightarrow> Ok ()
      | OtherType \<Rightarrow> Err (ArchiveUnsafeEntry label name))"

definition is_tar_metadata_entry :: "entry_type \<Rightarrow> bool" where
  "is_tar_metadata_entry ty \<longleftrightarrow> ty \<in> {XHeader, XGlobalHeader, GNULongName, GNULongLink}"

fun sanitize_components :: "rstr \<Rightarrow> rstr \<Rightarrow> component list \<Rightarrow> rstr result" where
  "sanitize_components raw sanitized [] = Ok sanitized"
| "sanitize_components raw sanitized (c # cs) =
     (case c of
        Normal part \<Rightarrow> sanitize_components raw (path_join sanitized part) cs
      | CurDir \<Rightarrow> sanitize_components raw sanitized cs
      | ParentDir \<Rightarrow> Err (ArchiveUnsafeEntry (lit ''parent-traversal'') raw)
      | RootDir \<Rightarrow> Err (ArchiveUnsafeEntry (lit ''absolute-path'') raw))"

definition sanitize_relative_path :: "rstr \<Rightarrow> rstr result" where
  "sanitize_relative_path raw =
     and_then (sanitize_components raw [] (components raw)) (\<lambda>sanitized.
       if sanitized = [] then Err (ArchiveUnsafeEntry (lit ''empty-path'') raw) else Ok sanitized)"

definition ensure_inside :: "rstr \<Rightarrow> rstr \<Rightarrow> rstr \<Rightarrow> unit result" where
  "ensure_inside target dest raw =
     (if \<not> path_starts_with target dest then Err (ArchiveUnsafeEntry (lit ''escape'') raw) else Ok ())"

section \<open>The disk\<close>

text \<open>
  The operations performed, newest first: directories created (with their parents), files
  created or truncated, and bytes appended to the file at a path.
\<close>

datatype disk_op = CreateDirAll rstr | CreateFile rstr | WriteAll rstr "byte list" | Flush rstr

type_synonym disk = "disk_op list"

fun op_path :: "disk_op \<Rightarrow> rstr" where
  "op_path (CreateDirAll p) = p"
| "op_path (CreateFile p) = p"
| "op_path (WriteAll p bytes) = p"
| "op_path (Flush p) = p"

fun op_bytes :: "disk_op \<Rightarrow> nat" where
  "op_bytes (WriteAll p bytes) = length bytes"
| "op_bytes (CreateDirAll p) = 0"
| "op_bytes (CreateFile p) = 0"
| "op_bytes (Flush p) = 0"

definition bytes_on :: "disk \<Rightarrow> nat" where
  "bytes_on disk = sum_list (map op_bytes disk)"

definition perform :: "(disk_op \<Rightarrow> bool) \<Rightarrow> disk_op \<Rightarrow> disk \<Rightarrow> disk \<times> unit result" where
  "perform faulty oper disk = (if faulty oper then (disk, Err ArchiveReadFailed) else (oper # disk, Ok ()))"

text \<open>
  The chunks a reader returns, up to the end of the entry; \<open>None\<close> is a read error.
\<close>

fun copy_loop ::
  "(disk_op \<Rightarrow> bool) \<Rightarrow> rstr \<Rightarrow> nat \<Rightarrow> nat \<Rightarrow> nat \<Rightarrow> byte list option list \<Rightarrow> disk \<Rightarrow> disk \<times> nat result" where
  "copy_loop faulty target max_entry remaining_total written [] disk = (disk, Ok written)"
| "copy_loop faulty target max_entry remaining_total written (chunk # chunks) disk =
     (case chunk of
        None \<Rightarrow> (disk, Err ArchiveReadFailed)
      | Some bytes \<Rightarrow>
          if bytes = [] then (disk, Ok written)
          else if 2 ^ 64 \<le> written + length bytes then (disk, Err (ArchiveTooLarge max_entry))
          else if max_entry < written + length bytes then (disk, Err (ArchiveTooLarge max_entry))
          else if remaining_total < written + length bytes then (disk, Err (ArchiveTooLarge remaining_total))
          else case perform faulty (WriteAll target bytes) disk of
              (disk', Inl e) \<Rightarrow> (disk', Inl e)
            | (disk', Inr _) \<Rightarrow>
                copy_loop faulty target max_entry remaining_total (written + length bytes) chunks disk')"

definition copy_capped ::
  "(disk_op \<Rightarrow> bool) \<Rightarrow> byte list option list \<Rightarrow> rstr \<Rightarrow> nat \<Rightarrow> nat \<Rightarrow> disk \<Rightarrow> disk \<times> nat result" where
  "copy_capped faulty reader target max_entry remaining_total disk =
     (case perform faulty (CreateFile target) disk of
        (disk1, Inl e) \<Rightarrow> (disk1, Inl e)
      | (disk1, Inr _) \<Rightarrow>
          (case copy_loop faulty target max_entry remaining_total 0 reader disk1 of
             (disk2, Inl e) \<Rightarrow> (disk2, Inl e)
           | (disk2, Inr written) \<Rightarrow>
               (case perform faulty (Flush target) disk2 of
                  (disk3, Inl e) \<Rightarrow> (disk3, Inl e)
                | (disk3, Inr _) \<Rightarrow> (disk3, Ok written))))"

text \<open>\<^verbatim>\<open>Path::parent\<close> of an absolute path.\<close>

definition path_parent :: "rstr \<Rightarrow> rstr option" where
  [text_simps]: "path_parent s =
     (case dropWhile insignificant (rev (split_on c_slash s)) of
        [] \<Rightarrow> None
      | piece # pieces \<Rightarrow>
          (case dropWhile insignificant pieces of
             [] \<Rightarrow> Some [c_slash]
           | kept \<Rightarrow> Some (join_with [c_slash] (rev kept))))"

section \<open>The extraction loops\<close>

record extract_opts =
  max_total_bytes :: nat
  max_entry_bytes :: nat

definition default_extract_opts :: extract_opts where
  "default_extract_opts = \<lparr>max_total_bytes = 1024 * 1024 * 1024, max_entry_bytes = 512 * 1024 * 1024\<rparr>"

record extract_report =
  r_entries_written :: nat
  r_bytes_written :: nat
  top_level_dir :: "rstr option"

record xstate =
  x_disk :: disk
  total_bytes :: nat
  entries_written :: nat
  top_levels :: "rstr list"

definition init_xstate :: "disk \<Rightarrow> xstate" where
  "init_xstate disk = \<lparr>x_disk = disk, total_bytes = 0, entries_written = 0, top_levels = []\<rparr>"

definition note_top_level :: "rstr \<Rightarrow> xstate \<Rightarrow> xstate" where
  "note_top_level safe_path st =
     (case components safe_path of
        Normal name # _ \<Rightarrow> st\<lparr>top_levels := List.insert name (top_levels st)\<rparr>
      | _ \<Rightarrow> st)"

definition make_dir :: "(disk_op \<Rightarrow> bool) \<Rightarrow> rstr \<Rightarrow> xstate \<Rightarrow> xstate \<times> unit result" where
  "make_dir faulty target st =
     (case perform faulty (CreateDirAll target) (x_disk st) of (disk, r) \<Rightarrow> (st\<lparr>x_disk := disk\<rparr>, r))"

text \<open>
  The body both loops have for a regular file.  The subtraction for the remaining bytes does not
  underflow: the loops keep \<open>total_bytes\<close> at most \<open>max_total_bytes\<close>.
\<close>

definition extract_file ::
  "(disk_op \<Rightarrow> bool) \<Rightarrow> extract_opts \<Rightarrow> rstr \<Rightarrow> byte list option list \<Rightarrow> xstate \<Rightarrow> xstate \<times> unit result" where
  "extract_file faulty opts target reader st =
     (case (case path_parent target of
              Some parent \<Rightarrow> make_dir faulty parent st
            | None \<Rightarrow> (st, Ok ())) of
        (st1, Inl e) \<Rightarrow> (st1, Inl e)
      | (st1, Inr _) \<Rightarrow>
          (case copy_capped faulty reader target (max_entry_bytes opts)
                  (max_total_bytes opts - total_bytes st1) (x_disk st1) of
             (disk, Inl e) \<Rightarrow> (st1\<lparr>x_disk := disk\<rparr>, Inl e)
           | (disk, Inr written) \<Rightarrow>
               (let total = min (2 ^ 64 - 1) (total_bytes st1 + written);
                    st2 = st1\<lparr>x_disk := disk, total_bytes := total\<rparr>
                in if max_total_bytes opts < total
                   then (st2, Err (ArchiveTooLarge (max_total_bytes opts)))
                   else (st2\<lparr>entries_written := entries_written st2 + 1\<rparr>, Ok ()))))"

record tar_entry =
  t_path :: "rstr option"
  t_type :: entry_type
  t_reader :: "byte list option list"

fun extract_tar_entry ::
  "(disk_op \<Rightarrow> bool) \<Rightarrow> rstr \<Rightarrow> extract_opts \<Rightarrow> tar_entry option \<Rightarrow> xstate \<Rightarrow> xstate \<times> unit result" where
  "extract_tar_entry faulty dest opts None st = (st, Err ArchiveReadFailed)"
| "extract_tar_entry faulty dest opts (Some entry) st =
     (case t_path entry of
        None \<Rightarrow> (st, Err ArchiveReadFailed)
      | Some raw_path \<Rightarrow>
          (case and_then (reject_unsafe_entry (t_type entry) raw_path)
                  (\<lambda>_. sanitize_relative_path raw_path) of
             Inl e \<Rightarrow> (st, Inl e)
           | Inr safe_path \<Rightarrow>
               if is_tar_metadata_entry (t_type entry) then (st, Ok ())
               else
                 (let st1 = note_top_level safe_path st;
                      target = path_join dest safe_path
                  in case ensure_inside target dest raw_path of
                       Inl e \<Rightarrow> (st1, Inl e)
                     | Inr _ \<Rightarrow>
                         if t_type entry = Directory then make_dir faulty target st1
                         else if t_type entry \<in> {Regular, Continuous, GNUSparse} then
                           extract_file faulty opts target (t_reader entry) st1
                         else (st1, Err (ArchiveUnsafeEntry (entry_kind_label (t_type entry)) raw_path)))))"

record zip_entry =
  z_name :: "rstr option"
  z_symlink :: bool
  z_dir :: bool
  z_reader :: "byte list option list"

fun extract_zip_entry ::
  "(disk_op \<Rightarrow> bool) \<Rightarrow> rstr \<Rightarrow> extract_opts \<Rightarrow> zip_entry option \<Rightarrow> xstate \<Rightarrow> xstate \<times> unit result" where
  "extract_zip_entry faulty dest opts None st = (st, Err ArchiveReadFailed)"
| "extract_zip_entry faulty dest opts (Some entry) st =
     (case z_name entry of
        None \<Rightarrow> (st, Err ArchiveReadFailed)
      | Some raw_name \<Rightarrow>
          if z_symlink entry then (st, Err (ArchiveUnsafeEntry (lit ''symlink'') raw_name))
          else
            (case sanitize_relative_path raw_name of
               Inl e \<Rightarrow> (st, Inl e)
             | Inr safe_path \<Rightarrow>
                 (let st1 = note_top_level safe_path st;
                      target = path_join dest safe_path
                  in case ensure_inside target dest raw_name of
                       Inl e \<Rightarrow> (st1, Inl e)
                     | Inr _ \<Rightarrow>
                         if z_dir entry then make_dir faulty target st1
                         else extract_file faulty opts target (z_reader entry) st1)))"

fun extract_loop :: "('e \<Rightarrow> xstate \<Rightarrow> xstate \<times> unit result) \<Rightarrow> 'e list \<Rightarrow> xstate \<Rightarrow> xstate \<times> unit result" where
  "extract_loop extract_entry [] st = (st, Ok ())"
| "extract_loop extract_entry (entry # entries) st =
     (case extract_entry entry st of
        (st', Inl e) \<Rightarrow> (st', Inl e)
      | (st', Inr _) \<Rightarrow> extract_loop extract_entry entries st')"

definition report_of :: "xstate \<times> unit result \<Rightarrow> disk \<times> extract_report result" where
  "report_of run =
     (case run of
        (st, Inl e) \<Rightarrow> (x_disk st, Inl e)
      | (st, Inr _) \<Rightarrow>
          (x_disk st, Ok \<lparr>r_entries_written = entries_written st, r_bytes_written = total_bytes st,
             top_level_dir = (if length (top_levels st) = 1 then Some (hd (top_levels st)) else None)\<rparr>))"

text \<open>\<open>None\<close>: the library could not open the archive.\<close>

definition extract_tar ::
  "(disk_op \<Rightarrow> bool) \<Rightarrow> tar_entry option list option \<Rightarrow> rstr \<Rightarrow> extract_opts \<Rightarrow> disk \<Rightarrow>
   disk \<times> extract_report result" where
  "extract_tar faulty archive dest opts disk =
     (case archive of
        None \<Rightarrow> (disk, Err ArchiveReadFailed)
      | Some entries \<Rightarrow> report_of (extract_loop (extract_tar_entry faulty dest opts) entries (init_xstate disk)))"

definition extract_zip ::
  "(disk_op \<Rightarrow> bool) \<Rightarrow> zip_entry option list option \<Rightarrow> rstr \<Rightarrow> extract_opts \<Rightarrow> disk \<Rightarrow>
   disk \<times> extract_report result" where
  "extract_zip faulty archive dest opts disk =
     (case archive of
        None \<Rightarrow> (disk, Err ArchiveReadFailed)
      | Some entries \<Rightarrow> report_of (extract_loop (extract_zip_entry faulty dest opts) entries (init_xstate disk)))"

section \<open>The whole extraction\<close>

text \<open>What \<^verbatim>\<open>symlink_metadata\<close> and \<^verbatim>\<open>read_dir\<close> say of the destination.\<close>

datatype dest_state = DestMissing | DestStatError | DestSymlink | DestNotDir | DestUnreadable
  | DestNotEmpty | DestEmpty

definition enforce_dest_invariants :: "rstr \<Rightarrow> dest_state \<Rightarrow> unit result" where
  "enforce_dest_invariants dest found =
     (case found of
        DestMissing \<Rightarrow> Ok ()
      | DestStatError \<Rightarrow> Err ArchiveReadFailed
      | DestSymlink \<Rightarrow> Err (ArchiveUnsafeEntry (lit ''destination-symlink'') dest)
      | DestNotDir \<Rightarrow> Err ArchiveReadFailed
      | DestUnreadable \<Rightarrow> Err ArchiveReadFailed
      | DestNotEmpty \<Rightarrow> Err ArchiveReadFailed
      | DestEmpty \<Rightarrow> Ok ())"

record archive =
  a_head :: "byte list option"
  a_tar :: "bool \<Rightarrow> tar_entry option list option"
  a_zip :: "zip_entry option list option"

definition extract_archive ::
  "(disk_op \<Rightarrow> bool) \<Rightarrow> (rstr \<Rightarrow> rstr option) \<Rightarrow> dest_state \<Rightarrow> archive \<Rightarrow> rstr \<Rightarrow> extract_opts \<Rightarrow>
   disk \<times> extract_report result" where
  "extract_archive faulty canonicalize found archive dest opts =
     (case and_then (and_then (ok_or ArchiveReadFailed (a_head archive)) detect_format)
             (\<lambda>format. and_then (enforce_dest_invariants dest found) (\<lambda>_. Ok format)) of
        Inl e \<Rightarrow> ([], Inl e)
      | Inr format \<Rightarrow>
          (case perform faulty (CreateDirAll dest) [] of
             (disk, Inl e) \<Rightarrow> (disk, Inl e)
           | (disk, Inr _) \<Rightarrow>
               (case canonicalize dest of
                  None \<Rightarrow> (disk, Err ArchiveReadFailed)
                | Some dest_canonical \<Rightarrow>
                    (case format of
                       TarGz \<Rightarrow> extract_tar faulty (a_tar archive True) dest_canonical opts disk
                     | Tar \<Rightarrow> extract_tar faulty (a_tar archive False) dest_canonical opts disk
                     | Zip \<Rightarrow> extract_zip faulty (a_zip archive) dest_canonical opts disk))))"

section \<open>Lemmas\<close>

lemma sanitize_components_Ok:
  "sanitize_components raw sanitized cs = Ok r \<longleftrightarrow>
     ParentDir \<notin> set cs \<and> RootDir \<notin> set cs \<and> r = foldl path_join sanitized (normals cs)"
  by (induction cs arbitrary: sanitized) (auto split: component.splits)

lemma sanitize_relative_path_Ok:
  assumes "sanitize_relative_path raw = Ok safe"
  obtains names where "list_all name_ok names" "names \<noteq> []" "safe = foldl path_join [] names"
    "names = normals (components raw)" "ParentDir \<notin> set (components raw)" "\<not> is_absolute raw"
proof
  show "list_all name_ok (normals (components raw))" by (rule normals_ok)
  show "safe = foldl path_join [] (normals (components raw))" "normals (components raw) \<noteq> []"
    "ParentDir \<notin> set (components raw)" "\<not> is_absolute raw"
    using assms
    by (auto simp: sanitize_relative_path_def and_then_Ok sanitize_components_Ok components_def
        split: if_splits)
qed simp

definition inside :: "rstr \<Rightarrow> rstr \<Rightarrow> bool" where
  "inside dest p \<longleftrightarrow> (\<exists>names. list_all name_ok names \<and> components p = components dest @ map Normal names)"

lemma path_parent_components:
  assumes "is_absolute s" and "path_parent s = Some p"
  shows "components p = butlast (components s)"
proof -
  obtain t where t: "split_on c_slash s = [] # split_on c_slash t"
    using assms(1) by (cases s) (auto simp: is_absolute_def)
  obtain piece pieces where d: "dropWhile insignificant (rev (split_on c_slash s)) = piece # pieces"
    using assms(2) by (auto simp: path_parent_def split: list.splits)
  have sig: "\<not> insignificant piece" using d by (metis dropWhile_eq_Cons_conv)
  have body: "body_components (split_on c_slash s) = body_components (rev pieces) @ [piece_component piece]"
    using body_drop_trailing [of "split_on c_slash s"] sig
    by (simp add: d body_components_Cons body_components_def [of "[]"])
  have cs: "butlast (components s) = RootDir # body_components (rev pieces)"
    using assms(1) body by (simp add: components_def)
  show ?thesis
  proof (cases "dropWhile insignificant pieces")
    case Nil
    then have p: "p = [c_slash]" using assms(2) by (simp only: path_parent_def d list.case option.inject)
    have "body_components (rev pieces) = []"
      using body_drop_trailing [of "rev pieces"] Nil by (simp add: body_components_def)
    then show ?thesis unfolding cs p
      by (simp add: components_def is_absolute_def body_components_def insignificant_def)
  next
    case (Cons kept rest)
    then have p: "p = join_with [c_slash] (rev (kept # rest))"
      using assms(2) by (simp only: path_parent_def d list.case option.inject)
    have sigk: "\<not> insignificant kept" using Cons by (metis dropWhile_eq_Cons_conv)
    obtain pre where "rev (split_on c_slash s) = pre @ piece # pieces"
      using d by (metis dropWhile_eq_Cons_conv takeWhile_dropWhile_id)
    moreover obtain pre' where "pieces = pre' @ kept # rest"
      using Cons by (metis takeWhile_dropWhile_id)
    ultimately have pieces: "rev (split_on c_slash s) = (pre @ piece # pre') @ kept # rest" by simp
    then have eq: "split_on c_slash s = rev (kept # rest) @ rev (pre @ piece # pre')"
      by (metis rev_append rev_rev_ident)
    have hd: "hd (rev (kept # rest)) = []"
      by (metis eq t hd_append2 list.distinct(1) list.sel(1) rev_is_Nil_conv)
    have ps: "set (kept # rest) \<subseteq> set (split_on c_slash s)"
      unfolding eq by auto
    have split: "split_on c_slash p = rev (kept # rest)"
      unfolding p
      by (rule split_on_join) (use ps in \<open>auto simp: list_all_iff dest: split_on_pieces\<close>)
    have "rest \<noteq> []" using hd sigk by (auto simp: insignificant_def)
    then obtain q qs where q: "rev (kept # rest) = [] # q # qs"
      using hd by (cases rest rule: rev_cases) (auto, metis append_is_Nil_conv list.exhaust not_Cons_self2)
    then have "is_absolute p" unfolding p by (simp add: is_absolute_def)
    moreover have "body_components (rev (kept # rest)) = body_components (rev pieces)"
      using body_drop_trailing [of "rev pieces"] Cons by simp
    ultimately show ?thesis unfolding cs by (simp add: components_def split)
  qed
qed

lemma inside_join:
  assumes "sanitize_relative_path raw = Ok safe" and "is_absolute dest"
  obtains names where "list_all name_ok names" "names \<noteq> []" "is_absolute (path_join dest safe)"
    "components (path_join dest safe) = components dest @ map Normal names"
proof -
  obtain names where n: "list_all name_ok names" "names \<noteq> []" "safe = foldl path_join [] names"
    using sanitize_relative_path_Ok [OF assms(1)] by metis
  have ne: "dest \<noteq> []" using assms(2) by (auto simp: is_absolute_def)
  have "\<not> is_absolute safe" using render_relative(1) [OF n(1)] n(3) by simp
  then have "is_absolute (path_join dest safe)"
    using assms(2) ne by (auto simp: path_join_def is_absolute_def)
  with that n join_render [OF n(1) ne] show ?thesis by simp
qed

lemma inside_parent:
  assumes "is_absolute p" and "components p = components dest @ map Normal names" and "names \<noteq> []"
    and "list_all name_ok names" and "path_parent p = Some q"
  shows "inside dest q"
proof -
  have "components q = components dest @ map Normal (butlast names)"
    using path_parent_components [OF assms(1,5)] assms(2,3) by (simp add: butlast_append map_butlast)
  moreover have "list_all name_ok (butlast names)"
    using assms(4) by (auto simp: list_all_iff dest: in_set_butlastD)
  ultimately show ?thesis unfolding inside_def by blast
qed

text \<open>\<open>adds P n disk disk'\<close>: the new operations are on paths that satisfy \<open>P\<close>, and write \<open>n\<close> bytes.\<close>

definition adds :: "(rstr \<Rightarrow> bool) \<Rightarrow> nat \<Rightarrow> disk \<Rightarrow> disk \<Rightarrow> bool" where
  "adds P n disk disk' \<longleftrightarrow>
     (\<exists>ops. disk' = ops @ disk \<and> (\<forall>oper \<in> set ops. P (op_path oper)) \<and> bytes_on ops = n)"

lemma adds_refl [simp]: "adds P 0 disk disk"
  by (auto simp: adds_def bytes_on_def)

lemma adds_trans: "adds P n a b \<Longrightarrow> adds P m b c \<Longrightarrow> adds P (n + m) a c"
  unfolding adds_def bytes_on_def by (elim exE conjE) (rule_tac x = "opsa @ ops" in exI, auto)

lemma adds_mono: "adds P n a b \<Longrightarrow> (\<And>p. P p \<Longrightarrow> Q p) \<Longrightarrow> adds Q n a b"
  unfolding adds_def by blast

lemma perform_adds:
  "perform faulty oper disk = (disk', r) \<Longrightarrow> P (op_path oper) \<Longrightarrow>
   adds P (case r of Inl _ \<Rightarrow> 0 | Inr _ \<Rightarrow> op_bytes oper) disk disk'"
  by (auto simp: perform_def adds_def bytes_on_def split: if_splits intro: exI [of _ "[oper]"])

lemma copy_loop_adds:
  assumes "copy_loop faulty target max_entry remaining written chunks disk = (disk', r)"
    and "P target" and "written \<le> remaining"
  obtains n where "adds P n disk disk'" "written + n \<le> remaining" "\<And>w. r = Ok w \<Longrightarrow> w = written + n"
  using assms
proof (induction chunks arbitrary: written disk thesis)
  case Nil
  then show ?case by (auto intro: Nil.prems(1) [of 0])
next
  case (Cons chunk chunks)
  show ?case
  proof (cases "\<exists>bytes. chunk = Some bytes \<and> bytes \<noteq> [] \<and> \<not> faulty (WriteAll target bytes) \<and>
      written + length bytes < 2 ^ 64 \<and> written + length bytes \<le> max_entry \<and>
      written + length bytes \<le> remaining")
    case True
    then obtain bytes where b: "chunk = Some bytes" "bytes \<noteq> []" "\<not> faulty (WriteAll target bytes)"
      "written + length bytes < 2 ^ 64" "written + length bytes \<le> max_entry"
      "written + length bytes \<le> remaining" by blast
    then have "copy_loop faulty target max_entry remaining (written + length bytes) chunks
        (WriteAll target bytes # disk) = (disk', r)"
      using Cons.prems(2) by (simp add: perform_def)
    then obtain n where n: "adds P n (WriteAll target bytes # disk) disk'"
      "written + length bytes + n \<le> remaining" "\<And>w. r = Ok w \<Longrightarrow> w = written + length bytes + n"
      using Cons.IH Cons.prems(3) b(6) by metis
    have "adds P (length bytes) disk (WriteAll target bytes # disk)"
      using Cons.prems(3) by (auto simp: adds_def bytes_on_def intro: exI [of _ "[WriteAll target bytes]"])
    from adds_trans [OF this n(1)] n(2,3) show ?thesis
      by (intro Cons.prems(1) [of "length bytes + n"]) auto
  next
    case False
    then have "disk' = disk \<and> (\<forall>w. r = Ok w \<longrightarrow> w = written)"
      using Cons.prems(2)
      by (auto simp: perform_def split: option.splits if_splits)
    with Cons.prems show ?thesis by (auto intro: Cons.prems(1) [of 0])
  qed
qed

lemma copy_capped_adds:
  assumes "copy_capped faulty reader target max_entry remaining disk = (disk', r)" and "P target"
  obtains n where "adds P n disk disk'" "n \<le> remaining" "\<And>w. r = Ok w \<Longrightarrow> w = n"
proof (cases "faulty (CreateFile target)")
  case True
  with assms that [of 0] show thesis by (auto simp: copy_capped_def perform_def)
next
  case False
  have create: "adds P 0 disk (CreateFile target # disk)"
    using assms(2) by (auto simp: adds_def bytes_on_def intro: exI [of _ "[CreateFile target]"])
  obtain disk2 r2 where loop:
    "copy_loop faulty target max_entry remaining 0 reader (CreateFile target # disk) = (disk2, r2)"
    by fastforce
  obtain n where n: "adds P n (CreateFile target # disk) disk2" "n \<le> remaining" "\<And>w. r2 = Ok w \<Longrightarrow> w = n"
    using copy_loop_adds [where P = P, OF loop assms(2) le0] by auto
  have flush: "adds P 0 disk2 (Flush target # disk2)"
    using assms(2) by (auto simp: adds_def bytes_on_def intro: exI [of _ "[Flush target]"])
  have "disk' \<in> {disk2, Flush target # disk2} \<and> (\<forall>w. r = Ok w \<longrightarrow> r2 = Ok w)"
    using assms(1) False loop by (auto simp: copy_capped_def perform_def split: sum.splits if_splits)
  with adds_trans [OF create n(1)] adds_trans [OF adds_trans [OF create n(1)] flush] n(2,3)
  show thesis by (intro that [of n]) auto
qed


section \<open>The contract of an extraction step\<close>

text \<open>
  \<open>disk_ok\<close> is what holds of the disk at every moment, \<open>xinv\<close> what holds of the state between
  entries.
\<close>

definition disk_ok :: "rstr \<Rightarrow> extract_opts \<Rightarrow> disk \<Rightarrow> disk \<Rightarrow> bool" where
  "disk_ok dest opts base disk \<longleftrightarrow> (\<exists>n \<le> max_total_bytes opts. adds (inside dest) n base disk)"

definition xinv :: "rstr \<Rightarrow> extract_opts \<Rightarrow> disk \<Rightarrow> xstate \<Rightarrow> bool" where
  "xinv dest opts base st \<longleftrightarrow> is_absolute dest \<and> adds (inside dest) (total_bytes st) base (x_disk st) \<and>
     total_bytes st \<le> max_total_bytes opts \<and> max_total_bytes opts < 2 ^ 64"

definition step_ok :: "rstr \<Rightarrow> extract_opts \<Rightarrow> disk \<Rightarrow> xstate \<times> unit result \<Rightarrow> bool" where
  "step_ok dest opts base run \<longleftrightarrow>
     (case run of
        (st, Inl _) \<Rightarrow> disk_ok dest opts base (x_disk st)
      | (st, Inr _) \<Rightarrow> xinv dest opts base st)"

locale contained_extractor =
  fixes extract_entry :: "'e \<Rightarrow> xstate \<Rightarrow> xstate \<times> unit result"
    and dest :: rstr and opts :: extract_opts and base :: disk
  assumes entry_step: "xinv dest opts base st \<Longrightarrow> step_ok dest opts base (extract_entry e st)"
begin

lemma loop_step:
  "xinv dest opts base st \<Longrightarrow> step_ok dest opts base (extract_loop extract_entry entries st)"
proof (induction entries arbitrary: st)
  case (Cons e entries)
  obtain st' r where e: "extract_entry e st = (st', r)" by fastforce
  show ?case
    using entry_step [OF Cons.prems, of e] Cons.IH [of st']
    by (cases r) (simp_all add: e, simp add: step_ok_def)
qed (simp add: step_ok_def)

lemma report_step:
  assumes "xinv dest opts base st"
    and "report_of (extract_loop extract_entry entries st) = (disk, r)"
  shows "disk_ok dest opts base disk" and "r = Ok report \<Longrightarrow> adds (inside dest) (r_bytes_written report) base disk"
  using loop_step [OF assms(1), of entries] assms(2)
  by (auto simp: report_of_def step_ok_def xinv_def disk_ok_def split: prod.splits sum.splits)

end

lemma note_top_level_simps [simp]:
  "x_disk (note_top_level safe st) = x_disk st" "total_bytes (note_top_level safe st) = total_bytes st"
  by (simp_all add: note_top_level_def split: list.splits component.splits)

lemma xinv_note [simp]: "xinv dest opts base (note_top_level safe st) = xinv dest opts base st"
  by (simp add: xinv_def)

lemma xinv_disk_ok: "xinv dest opts base st \<Longrightarrow> disk_ok dest opts base (x_disk st)"
  by (auto simp: xinv_def disk_ok_def)

lemma make_dir_step:
  assumes "xinv dest opts base st" and "inside dest target"
  shows "step_ok dest opts base (make_dir faulty target st)"
proof -
  have "adds (inside dest) 0 (x_disk st) (CreateDirAll target # x_disk st)"
    using assms(2) by (auto simp: adds_def bytes_on_def intro: exI [of _ "[CreateDirAll target]"])
  with assms(1) have "adds (inside dest) (total_bytes st) base (CreateDirAll target # x_disk st)"
    using adds_trans [of "inside dest" "total_bytes st" base "x_disk st" 0] by (simp add: xinv_def)
  with assms(1) xinv_disk_ok [OF assms(1)] show ?thesis
    by (simp add: make_dir_def perform_def step_ok_def xinv_def)
qed

lemma extract_file_step:
  assumes inv: "xinv dest opts base st" and "inside dest target"
    and parent: "\<And>q. path_parent target = Some q \<Longrightarrow> inside dest q"
  shows "step_ok dest opts base (extract_file faulty opts target reader st)"
proof -
  obtain st1 r1 where first: "(case path_parent target of
      Some parent \<Rightarrow> make_dir faulty parent st | None \<Rightarrow> (st, Ok ())) = (st1, r1)" by fastforce
  have step1: "step_ok dest opts base (st1, r1)"
  proof (cases "path_parent target")
    case None
    with first inv show ?thesis by (auto simp: step_ok_def)
  next
    case (Some q)
    with first make_dir_step [OF inv parent [OF Some], of faulty] show ?thesis by simp
  qed
  show ?thesis
  proof (cases r1)
    case (Inl e)
    with step1 show ?thesis unfolding extract_file_def first by (simp add: step_ok_def)
  next
    case (Inr u)
    then have inv1: "xinv dest opts base st1" using step1 by (simp add: step_ok_def)
    let ?remaining = "max_total_bytes opts - total_bytes st1"
    obtain disk r where copy:
      "copy_capped faulty reader target (max_entry_bytes opts) ?remaining (x_disk st1) = (disk, r)"
      by fastforce
    obtain n where n: "adds (inside dest) n (x_disk st1) disk" "n \<le> ?remaining" "\<And>w. r = Ok w \<Longrightarrow> w = n"
      using copy_capped_adds [where P = "inside dest", OF copy assms(2)] by auto
    have total: "adds (inside dest) (total_bytes st1 + n) base disk"
      using inv1 by (intro adds_trans [OF _ n(1)]) (simp add: xinv_def)
    have bound: "total_bytes st1 + n \<le> max_total_bytes opts" "max_total_bytes opts < 2 ^ 64"
      using inv1 n(2) unfolding xinv_def by linarith+
    have ok: "disk_ok dest opts base disk" unfolding disk_ok_def using total bound(1) by blast
    have "min (2 ^ 64 - 1) (total_bytes st1 + n) = total_bytes st1 + n" using bound by linarith
    then show ?thesis
      using total bound n(3) inv1 ok unfolding extract_file_def first Inr
      by (cases r) (simp_all add: copy step_ok_def xinv_def Let_def)
  qed
qed

lemma entry_target:
  assumes "xinv dest opts base st" and "sanitize_relative_path raw = Ok safe"
  shows "inside dest (path_join dest safe)"
    and "path_parent (path_join dest safe) = Some q \<Longrightarrow> inside dest q"
proof -
  have "is_absolute dest" using assms(1) by (simp add: xinv_def)
  then obtain names where n: "list_all name_ok names" "names \<noteq> []" "is_absolute (path_join dest safe)"
    "components (path_join dest safe) = components dest @ map Normal names"
    using inside_join [OF assms(2)] by metis
  then show "inside dest (path_join dest safe)" by (auto simp: inside_def)
  show "inside dest q" if "path_parent (path_join dest safe) = Some q"
    using inside_parent [OF n(3,4,2,1) that] .
qed

lemma err_step: "xinv dest opts base st \<Longrightarrow> step_ok dest opts base (st, Inl e)"
  by (simp add: step_ok_def xinv_disk_ok)

lemma tar_entry_step:
  assumes inv: "xinv dest opts base st"
  shows "step_ok dest opts base (extract_tar_entry faulty dest opts e st)"
proof (cases "\<exists>entry raw safe. e = Some entry \<and> t_path entry = Some raw \<and>
    and_then (reject_unsafe_entry (t_type entry) raw) (\<lambda>_. sanitize_relative_path raw) = Ok safe")
  case False
  then have "\<exists>err. extract_tar_entry faulty dest opts e st = (st, Inl err)"
    by (cases e; cases "t_path (the e)") (simp_all split: sum.split)
  with err_step [OF inv] show ?thesis by auto
next
  case True
  then obtain entry raw safe where e: "e = Some entry" "t_path entry = Some raw"
    and safe: "and_then (reject_unsafe_entry (t_type entry) raw) (\<lambda>_. sanitize_relative_path raw) = Ok safe"
    by blast
  have ok: "sanitize_relative_path raw = Ok safe" using safe by (simp add: and_then_Ok)
  have noted: "xinv dest opts base (note_top_level safe st)" using inv by simp
  note target = entry_target [OF inv ok]
  show ?thesis
    using inv err_step [OF noted] make_dir_step [OF noted target(1)]
      extract_file_step [OF noted target(1) target(2)]
    by (simp add: e safe Let_def step_ok_def [of _ _ _ "(st, Inr ())"] split: sum.split)
qed

lemma zip_entry_step:
  assumes inv: "xinv dest opts base st"
  shows "step_ok dest opts base (extract_zip_entry faulty dest opts e st)"
proof (cases "\<exists>entry raw safe. e = Some entry \<and> z_name entry = Some raw \<and> \<not> z_symlink entry \<and>
    sanitize_relative_path raw = Ok safe")
  case False
  then have "\<exists>err. extract_zip_entry faulty dest opts e st = (st, Inl err)"
    by (cases e; cases "z_name (the e)"; cases "z_symlink (the e)") (simp_all split: sum.split)
  with err_step [OF inv] show ?thesis by auto
next
  case True
  then obtain entry raw safe where e: "e = Some entry" "z_name entry = Some raw" "\<not> z_symlink entry"
    and ok: "sanitize_relative_path raw = Ok safe"
    by blast
  have noted: "xinv dest opts base (note_top_level safe st)" using inv by simp
  note target = entry_target [OF inv ok]
  show ?thesis
    using err_step [OF noted] make_dir_step [OF noted target(1)]
      extract_file_step [OF noted target(1) target(2)]
    by (simp add: e ok Let_def split: sum.split)
qed

interpretation tarx: contained_extractor "extract_tar_entry faulty dest opts" dest opts base
  for faulty dest opts base
  by unfold_locales (rule tar_entry_step)

interpretation zipx: contained_extractor "extract_zip_entry faulty dest opts" dest opts base
  for faulty dest opts base
  by unfold_locales (rule zip_entry_step)

lemma xinv_init:
  "is_absolute dest \<Longrightarrow> max_total_bytes opts < 2 ^ 64 \<Longrightarrow> xinv dest opts disk (init_xstate disk)"
  by (simp add: xinv_def init_xstate_def)

lemma disk_ok_empty: "disk_ok dest opts disk disk"
  unfolding disk_ok_def by (metis adds_refl le0)

lemma extract_tar_step:
  assumes "extract_tar faulty archive dest opts disk = (disk', r)"
    and "is_absolute dest" and "max_total_bytes opts < 2 ^ 64"
  shows "disk_ok dest opts disk disk'"
    and "r = Ok report \<Longrightarrow> adds (inside dest) (r_bytes_written report) disk disk'"
  using assms(1) tarx.report_step [OF xinv_init [OF assms(2,3)], of faulty "the archive" disk disk' r]
  by (cases archive; simp add: extract_tar_def disk_ok_empty)+

lemma extract_zip_step:
  assumes "extract_zip faulty archive dest opts disk = (disk', r)"
    and "is_absolute dest" and "max_total_bytes opts < 2 ^ 64"
  shows "disk_ok dest opts disk disk'"
    and "r = Ok report \<Longrightarrow> adds (inside dest) (r_bytes_written report) disk disk'"
  using assms(1) zipx.report_step [OF xinv_init [OF assms(2,3)], of faulty "the archive" disk disk' r]
  by (cases archive; simp add: extract_zip_def disk_ok_empty)+

section \<open>Properties\<close>

text \<open>
  C14. An extraction never leaves its destination and never exceeds its size limit, whatever the
  archive holds, whichever file system operations fail, and whether or not it succeeds: apart from
  creating the destination, every operation is on a path that is the canonical destination followed
  by plain names, and at most \<open>max_total_bytes\<close> bytes are written.  A successful one reports
  exactly the bytes written.
\<close>

theorem extract_archive_contained:
  assumes "extract_archive faulty canonicalize found archive dest opts = (disk, r)"
    and "canonicalize dest = Some dest_canonical" and "is_absolute dest_canonical"
    and "max_total_bytes opts < 2 ^ 64"
  shows "(\<forall>oper \<in> set disk. oper = CreateDirAll dest \<or>
      (\<exists>names. list_all name_ok names \<and>
        components (op_path oper) = components dest_canonical @ map Normal names)) \<and>
    bytes_on disk \<le> max_total_bytes opts \<and>
    (\<forall>report. r = Ok report \<longrightarrow> r_bytes_written report = bytes_on disk)"
proof -
  let ?base = "[CreateDirAll dest]"
  consider "disk = []" "\<exists>e. r = Inl e" | "disk = ?base" "\<exists>e. r = Inl e"
    | "disk_ok dest_canonical opts ?base disk"
      "\<forall>report. r = Ok report \<longrightarrow> adds (inside dest_canonical) (r_bytes_written report) ?base disk"
  proof (cases "fst (extract_archive faulty canonicalize found archive dest opts) \<in> {[], ?base} \<and>
      (\<exists>e. snd (extract_archive faulty canonicalize found archive dest opts) = Inl e)")
    case True
    with that(1,2) assms(1) show thesis by auto
  next
    case False
    then obtain gz where "extract_tar faulty (a_tar archive gz) dest_canonical opts ?base = (disk, r) \<or>
        extract_zip faulty (a_zip archive) dest_canonical opts ?base = (disk, r)"
      using assms(1,2)
      by (auto simp: extract_archive_def perform_def split: sum.splits if_splits detected_format.splits)
    then show thesis
      using that(3) extract_tar_step [OF _ assms(3,4), of faulty _ ?base disk r]
        extract_zip_step [OF _ assms(3,4), of faulty _ ?base disk r] by blast
  qed
  then show ?thesis
  proof cases
    case 3
    obtain n ops where ops: "disk = ops @ ?base" "\<forall>oper \<in> set ops. inside dest_canonical (op_path oper)"
      "bytes_on ops = n" "n \<le> max_total_bytes opts"
      using 3(1) by (auto simp: disk_ok_def adds_def)
    have "r_bytes_written report = bytes_on disk" if "r = Ok report" for report
      using 3(2) that by (auto simp: adds_def bytes_on_def)
    with ops show ?thesis by (auto simp: bytes_on_def inside_def)
  qed (auto simp: bytes_on_def)
qed


theorem extract_archive_contained_witness:
  "extract_archive (\<lambda>_. False) Some DestMissing
     \<lparr>a_head = Some [0x1f, 0x8b],
      a_tar = \<lambda>_. Some [Some \<lparr>t_path = Some (lit ''d/f''), t_type = Regular, t_reader = [Some [1, 2]]\<rparr>],
      a_zip = None\<rparr> (lit ''/t'') default_extract_opts =
   ([Flush (lit ''/t/d/f''), WriteAll (lit ''/t/d/f'') [1, 2], CreateFile (lit ''/t/d/f''),
     CreateDirAll (lit ''/t/d''), CreateDirAll (lit ''/t'')],
    Ok \<lparr>r_entries_written = 1, r_bytes_written = 2, top_level_dir = Some (lit ''d'')\<rparr>) \<and>
   bytes_on [Flush (lit ''/t/d/f''), WriteAll (lit ''/t/d/f'') [1, 2], CreateFile (lit ''/t/d/f''),
     CreateDirAll (lit ''/t/d''), CreateDirAll (lit ''/t'')] \<le> max_total_bytes default_extract_opts"
  (is "?run = (?disk, ?r) \<and> _")
proof -
  have run: "?run = (?disk, ?r)"
    by (simp add: extract_archive_def detect_format_def enforce_dest_invariants_def perform_def
        extract_tar_def report_of_def reject_unsafe_entry_def sanitize_relative_path_def
        is_tar_metadata_entry_def note_top_level_def ensure_inside_def path_starts_with_def
        extract_file_def make_dir_def copy_capped_def init_xstate_def default_extract_opts_def
        text_simps Let_def)
  have "is_absolute (lit ''/t'')" "max_total_bytes default_extract_opts < 2 ^ 64"
    by (simp_all add: text_simps default_extract_opts_def)
  from extract_archive_contained [OF run refl this] run show ?thesis by simp
qed

lemma extract_loop_Ok:
  "extract_loop extract_entry entries st = (st', Ok ()) \<Longrightarrow> e \<in> set entries \<Longrightarrow>
   \<exists>a b. extract_entry e a = (b, Ok ())"
proof (induction entries arbitrary: st)
  case (Cons e' entries)
  obtain s r where "extract_entry e' st = (s, r)" by fastforce
  with Cons show ?case by (cases r) auto
qed simp

text \<open>
  A tar archive extracts successfully only if every entry of it is harmless: a plain file, a
  directory or a metadata record, never a link, device or pipe, with a non-empty relative path
  without \<^verbatim>\<open>..\<close>.
\<close>

theorem extract_tar_only_safe_entries:
  assumes "extract_tar faulty (Some entries) dest opts disk = (disk', Ok report)" and "e \<in> set entries"
  shows "\<exists>entry raw. e = Some entry \<and> t_path entry = Some raw \<and>
    t_type entry \<in> {Regular, Directory, Continuous, GNUSparse, XHeader, XGlobalHeader, GNULongName, GNULongLink} \<and>
    \<not> is_absolute raw \<and> ParentDir \<notin> set (components raw) \<and> normals (components raw) \<noteq> []"
proof -
  obtain st' where "extract_loop (extract_tar_entry faulty dest opts) entries (init_xstate disk) = (st', Ok ())"
    using assms(1) by (auto simp: extract_tar_def report_of_def split: prod.splits sum.splits)
  from extract_loop_Ok [OF this assms(2)] obtain a b where
    ok: "extract_tar_entry faulty dest opts e a = (b, Ok ())" by blast
  then obtain entry raw safe where e: "e = Some entry" "t_path entry = Some raw"
    and "and_then (reject_unsafe_entry (t_type entry) raw) (\<lambda>_. sanitize_relative_path raw) = Ok safe"
    by (cases e; cases "t_path (the e)") (auto split: sum.splits)
  then have s: "sanitize_relative_path raw = Ok safe" and r: "reject_unsafe_entry (t_type entry) raw = Ok ()"
    by (auto simp: and_then_Ok)
  have "t_type entry \<in> {Regular, Directory, Continuous, GNUSparse, XHeader, XGlobalHeader, GNULongName, GNULongLink}"
    using r by (cases "t_type entry") (simp_all add: reject_unsafe_entry_def)
  with e sanitize_relative_path_Ok [OF s] show ?thesis by metis
qed

theorem extract_tar_only_safe_entries_witness:
  "\<exists>entry raw. Some \<lparr>t_path = Some (lit ''d/''), t_type = Directory, t_reader = []\<rparr> = Some entry \<and>
    t_path entry = Some raw \<and> \<not> is_absolute raw"
proof -
  let ?e = "Some \<lparr>t_path = Some (lit ''d/''), t_type = Directory, t_reader = []\<rparr>"
  have "extract_tar (\<lambda>_. False) (Some [?e]) (lit ''/t'') default_extract_opts [] =
    ([CreateDirAll (lit ''/t/d'')], Ok \<lparr>r_entries_written = 0, r_bytes_written = 0, top_level_dir = Some (lit ''d'')\<rparr>)"
    by (simp add: extract_tar_def report_of_def reject_unsafe_entry_def sanitize_relative_path_def
        is_tar_metadata_entry_def note_top_level_def ensure_inside_def path_starts_with_def
        make_dir_def perform_def init_xstate_def text_simps Let_def)
  from extract_tar_only_safe_entries [OF this, of ?e] show ?thesis by auto
qed

end
