(* ===== verification/Redaction.thy ===== *)
theory Redaction
  imports Stack_Error "HOL-Library.Sublist" "HOL-Library.List_Lexorder" "HOL-Library.Product_Lexorder"
begin

text \<open>
  Redaction of text that leaves the process (\<^verbatim>\<open>src/redaction.rs\<close>).  The registry of known secret
  values is a state that is passed explicitly.

  Spans are pairs of char positions.  The code counts bytes; its spans begin and end at char
  boundaries, where the two correspond, and every length the code compares is computed with
  \<open>str_len\<close>, in bytes.
\<close>

section \<open>Tables\<close>

definition redaction_placeholder :: rstr where
  [text_simps]: "redaction_placeholder = lit ''[redacted]''"

definition token_separators :: "rchar list" where
  [text_simps]: "token_separators =
     [c_dquote, c_squote, c_backtick] @ lit ''=:,;()[]{}<>/'' @ [c_backslash] @ lit ''&?''"

definition value_terminators :: "rchar list" where
  [text_simps]: "value_terminators = [c_dquote, c_squote, c_backtick] @ lit '',;&)]}<>''"

definition line_value_terminators :: "rchar list" where
  [text_simps]: "line_value_terminators =
     [c_newline, 13, c_dquote, c_squote, c_backtick] @ lit '')]}<>''"

definition assignment_gap_chars :: "rchar list" where
  [text_simps]: "assignment_gap_chars = [c_space, 9, c_dquote, c_squote, c_backslash] @ lit '':=''"

definition assignment_operators :: "rchar list" where
  [text_simps]: "assignment_operators = lit '':=''"

definition auth_scheme_words :: "rstr list" where
  [text_simps]: "auth_scheme_words = [lit ''bearer'', lit ''basic'', lit ''token'']"

definition sensitive_header_names :: "rstr list" where
  [text_simps]: "sensitive_header_names =
     [lit ''authorization'', lit ''proxy_authorization'', lit ''cookie'', lit ''set_cookie'',
      lit ''x_api_key'', lit ''x_auth_token'']"

definition sensitive_field_names :: "rstr list" where
  [text_simps]: "sensitive_field_names =
     [lit ''api_key'', lit ''apikey'', lit ''auth_token'', lit ''access_token'', lit ''refresh_token'',
      lit ''id_token'', lit ''session_token'', lit ''password'', lit ''passwd'', lit ''secret'',
      lit ''client_secret'', lit ''secret_key'', lit ''private_key'']"

definition sensitive_field_name_suffixes :: "rstr list" where
  [text_simps]: "sensitive_field_name_suffixes =
     [lit ''_api_key'', lit ''_apikey'', lit ''_secret'', lit ''_password'', lit ''_passwd'',
      lit ''_access_token'', lit ''_auth_token'', lit ''_refresh_token'', lit ''_secret_key'',
      lit ''_private_key'', lit ''_secret_access_key'']"

record credential_prefix =
  cp_prefix :: rstr
  config_screened :: bool
  native_import_screened :: bool

definition credential_prefixes :: "credential_prefix list" where
  [text_simps]: "credential_prefixes =
     map (\<lambda>(p, c, n). \<lparr>cp_prefix = p, config_screened = c, native_import_screened = n\<rparr>)
       [(lit ''acps_'', True, False), (lit ''sk-'', True, True), (lit ''pk-'', False, True),
        (lit ''rk-'', False, True), (lit ''ghp_'', True, True), (lit ''gho_'', False, True),
        (lit ''ghu_'', False, True), (lit ''ghs_'', False, True), (lit ''ghr_'', False, True),
        (lit ''github_pat_'', True, True), (lit ''glpat-'', False, True), (lit ''xoxb-'', True, True),
        (lit ''xoxp-'', True, True), (lit ''xoxa-'', True, True), (lit ''xoxs-'', False, True)]"

section \<open>The registry\<close>

type_synonym registry = "rstr list"

definition min_redacted_secret_len :: nat where
  [text_simps]: "min_redacted_secret_len = 6"


section \<open>Spans\<close>

type_synonym span = "nat \<times> nat"

definition slice :: "rstr \<Rightarrow> nat \<Rightarrow> nat \<Rightarrow> rstr" where
  [text_simps]: "slice s a b = take (b - a) (drop a s)"

text \<open>
  \<^verbatim>\<open>str::match_indices\<close>: the non-overlapping matches, from the left.  The registry holds no
  empty value.
\<close>

function match_indices :: "rstr \<Rightarrow> nat \<Rightarrow> rstr \<Rightarrow> nat list" where
  "match_indices v pos s =
     (if v = [] \<or> length s < length v then []
      else if take (length v) s = v then pos # match_indices v (pos + length v) (drop (length v) s)
      else match_indices v (pos + 1) (tl s))"
  by pat_completeness auto
termination
  by (relation "measure (\<lambda>(v, pos, s). length s)") (auto simp: neq_Nil_conv)

declare match_indices.simps [simp del]

definition registered_value_spans :: "registry \<Rightarrow> rstr \<Rightarrow> span list" where
  "registered_value_spans registry s =
     concat (map (\<lambda>v. map (\<lambda>start. (start, start + length v)) (match_indices v 0 s)) registry)"

definition is_token_separator :: "rchar \<Rightarrow> bool" where
  [text_simps]: "is_token_separator c \<longleftrightarrow> is_whitespace c \<or> c \<in> set token_separators"

fun token_loop :: "nat \<Rightarrow> nat option \<Rightarrow> rstr \<Rightarrow> span list" where
  "token_loop index start [] = (case start of Some token_start \<Rightarrow> [(token_start, index)] | None \<Rightarrow> [])"
| "token_loop index start (c # s) =
     (case (is_token_separator c, start) of
        (True, Some token_start) \<Rightarrow> (token_start, index) # token_loop (index + 1) None s
      | (False, None) \<Rightarrow> token_loop (index + 1) (Some index) s
      | _ \<Rightarrow> token_loop (index + 1) start s)"

definition token_spans :: "rstr \<Rightarrow> span list" where
  "token_spans s = token_loop 0 None s"

section \<open>Credential shapes\<close>

text \<open>\<^verbatim>\<open>str::get(..n)\<close>.\<close>

definition get_prefix :: "rstr \<Rightarrow> nat \<Rightarrow> rstr option" where
  [text_simps]: "get_prefix s n =
     (if n \<le> str_len s \<and> is_char_boundary s n then Some (take_bytes n s) else None)"

definition has_credential_prefix :: "rstr \<Rightarrow> rstr \<Rightarrow> bool" where
  [text_simps]: "has_credential_prefix token p \<longleftrightarrow>
     (case get_prefix token (str_len p) of Some head \<Rightarrow> eq_ignore_ascii_case head p | None \<Rightarrow> False) \<and>
     str_len p + 9 \<le> str_len token"

definition is_base64url_char :: "rchar \<Rightarrow> bool" where
  [text_simps]: "is_base64url_char c \<longleftrightarrow> is_ascii_alphanumeric c \<or> c = 95 \<or> c = 45"

fun jwt_loop :: "nat \<Rightarrow> rstr list \<Rightarrow> bool" where
  "jwt_loop segment_count [] \<longleftrightarrow> segment_count = 3"
| "jwt_loop segment_count (segment # rest) \<longleftrightarrow>
     (let segment_count = segment_count + 1 in
      if 3 < segment_count \<or> str_len segment < 10 \<or> \<not> list_all is_base64url_char segment then False
      else jwt_loop segment_count rest)"

definition looks_like_jwt :: "rstr \<Rightarrow> bool" where
  [text_simps]: "looks_like_jwt s \<longleftrightarrow> jwt_loop 0 (split_on 46 s)"

definition starts_with_bearer_scheme :: "rstr \<Rightarrow> bool" where
  "starts_with_bearer_scheme s \<longleftrightarrow>
     (case get_prefix (trim_start s) (str_len (lit ''bearer '')) of
        Some head \<Rightarrow> eq_ignore_ascii_case head (lit ''bearer '')
      | None \<Rightarrow> False)"

definition trim_end_matches :: "rchar \<Rightarrow> rstr \<Rightarrow> rstr" where
  [text_simps]: "trim_end_matches c s = rev (dropWhile (\<lambda>d. d = c) (rev s))"

text \<open>The redacted length, here in chars.\<close>

definition credential_token_len :: "rstr \<Rightarrow> nat option" where
  [text_simps]: "credential_token_len token =
     (if list_ex (\<lambda>entry. has_credential_prefix token (cp_prefix entry)) credential_prefixes
      then Some (length token)
      else let candidate = trim_end_matches 46 token in
           if looks_like_jwt candidate then Some (length candidate) else None)"

definition is_inline_whitespace :: "rstr \<Rightarrow> bool" where
  [text_simps]: "is_inline_whitespace gap \<longleftrightarrow> gap \<noteq> [] \<and> list_all (\<lambda>c. c = c_space \<or> c = 9) gap"

datatype field_name = Header | Field

datatype opening_quote = Unquoted | QuotedBy rstr | EmptyValue

datatype value_extent = Word | Line | Quoted rstr

definition fold_byte :: "byte \<Rightarrow> byte" where
  [text_simps]: "fold_byte b = (if b = 45 then 95 else to_ascii_lowercase b)"

definition folded_eq :: "byte list \<Rightarrow> byte list \<Rightarrow> bool" where
  [text_simps]: "folded_eq name entry \<longleftrightarrow>
     length name = length entry \<and> list_all (\<lambda>(b, expected). fold_byte b = expected) (zip name entry)"

definition sensitive_field_name :: "rstr \<Rightarrow> field_name option" where
  [text_simps]: "sensitive_field_name token =
     (let name = as_bytes (dropWhile (\<lambda>c. c = 45) token) in
      if list_ex (\<lambda>header. folded_eq name (as_bytes header)) sensitive_header_names then Some Header
      else if list_ex (\<lambda>field. folded_eq name (as_bytes field)) sensitive_field_names \<or>
              list_ex (\<lambda>suf. length (as_bytes suf) \<le> length name \<and>
                 folded_eq (drop (length name - length (as_bytes suf)) name) (as_bytes suf))
                sensitive_field_name_suffixes
      then Some Field else None)"

definition rfind_any :: "rchar list \<Rightarrow> rstr \<Rightarrow> nat option" where
  [text_simps]: "rfind_any chars s =
     (let n = length (dropWhile (\<lambda>c. c \<notin> set chars) (rev s)) in if n = 0 then None else Some (n - 1))"

definition assignment_opening_quote :: "rstr \<Rightarrow> opening_quote option" where
  [text_simps]: "assignment_opening_quote gap =
     (if \<not> list_ex (\<lambda>c. c \<in> set assignment_operators) gap \<or>
         \<not> list_all (\<lambda>c. c \<in> set assignment_gap_chars) gap
      then None
      else Option.bind (rfind_any assignment_operators gap) (\<lambda>operator.
        let after_operator = drop (operator + 1) gap;
            quotes = filter (\<lambda>c. c = c_dquote \<or> c = c_squote) after_operator
        in Some (if quotes = [] then Unquoted
                 else if quotes = [c_squote] then QuotedBy [c_squote]
                 else if quotes = [c_dquote] \<and> suffix [c_backslash, c_dquote] after_operator
                 then QuotedBy [c_backslash, c_dquote]
                 else if quotes = [c_dquote] then QuotedBy [c_dquote]
                 else EmptyValue)))"

text \<open>\<^verbatim>\<open>str::find\<close> with a predicate on chars, and with a substring.\<close>

definition find_char :: "(rchar \<Rightarrow> bool) \<Rightarrow> rstr \<Rightarrow> nat option" where
  [text_simps]: "find_char p s =
     (let n = length (takeWhile (\<lambda>c. \<not> p c) s) in if n < length s then Some n else None)"

fun find_sub :: "rstr \<Rightarrow> rstr \<Rightarrow> nat option" where
  "find_sub v [] = (if v = [] then Some 0 else None)"
| "find_sub v (c # s) = (if prefix v (c # s) then Some 0 else map_option Suc (find_sub v s))"

definition value_end :: "rstr \<Rightarrow> nat \<Rightarrow> value_extent \<Rightarrow> nat" where
  "value_end s start extent =
     (let rest = drop start s;
          offset = (case extent of
              Word \<Rightarrow> find_char (\<lambda>c. is_whitespace c \<or> c \<in> set value_terminators) rest
            | Line \<Rightarrow>
                (let line_end = (case find_char (\<lambda>c. c \<in> set line_value_terminators) rest of
                       Some i \<Rightarrow> i | None \<Rightarrow> length rest)
                 in Some (length (trim_end (take line_end rest))))
            | Quoted closing \<Rightarrow>
                (case find_sub closing rest of
                   Some i \<Rightarrow> Some i
                 | None \<Rightarrow> find_char (\<lambda>c. c = c_newline \<or> c = c_return) rest))
      in case offset of Some i \<Rightarrow> start + i | None \<Rightarrow> length s)"

text \<open>
  The body of the loop for the token at \<open>token_span\<close>, with the tokens after it; \<open>None\<close> when the
  token contributes no span.
\<close>

definition value_span :: "rstr \<Rightarrow> nat \<Rightarrow> nat \<Rightarrow> value_extent \<Rightarrow> span option" where
  "value_span s value_start minimum_len extent =
     (let end = value_end s value_start extent in
      if minimum_len \<le> str_len (slice s value_start end) then Some (value_start, end) else None)"

definition scheme_value ::
  "rstr \<Rightarrow> span \<Rightarrow> span list \<Rightarrow> (nat \<times> nat) option" where
  "scheme_value s next_token later =
     (if list_ex (eq_ignore_ascii_case (slice s (fst next_token) (snd next_token))) auth_scheme_words then
        (case later of
           credential # _ \<Rightarrow>
             if is_inline_whitespace (slice s (snd next_token) (fst credential))
             then Some (fst credential, 8) else None
         | [] \<Rightarrow> None)
      else Some (fst next_token, 1))"

definition field_span :: "rstr \<Rightarrow> rstr \<Rightarrow> rstr \<Rightarrow> span \<Rightarrow> span list \<Rightarrow> span option" where
  "field_span s token gap next_token later =
     (case sensitive_field_name token of
        None \<Rightarrow> None
      | Some name \<Rightarrow>
          Option.bind (assignment_opening_quote gap) (\<lambda>opening.
            case opening of
              EmptyValue \<Rightarrow> None
            | QuotedBy closing \<Rightarrow>
                Option.bind (scheme_value s next_token later) (\<lambda>(value_start, minimum_len).
                  value_span s value_start minimum_len (Quoted closing))
            | Unquoted \<Rightarrow>
                Option.bind (scheme_value s next_token later) (\<lambda>(value_start, minimum_len).
                  value_span s value_start minimum_len
                    (if name = Header \<and> c_colon \<in> set gap then Line else Word))))"

definition token_span_of :: "rstr \<Rightarrow> span \<Rightarrow> span list \<Rightarrow> span option" where
  "token_span_of s token_span later =
     (let token = slice s (fst token_span) (snd token_span) in
      case credential_token_len token of
        Some len \<Rightarrow> Some (fst token_span, fst token_span + len)
      | None \<Rightarrow>
          (case later of
             [] \<Rightarrow> None
           | next_token # later' \<Rightarrow>
               (let gap = slice s (snd token_span) (fst next_token) in
                if eq_ignore_ascii_case token (lit ''bearer'') \<and> is_inline_whitespace gap
                then value_span s (fst next_token) 8 Word
                else field_span s token gap next_token later')))"

fun shape_loop :: "rstr \<Rightarrow> span list \<Rightarrow> span list" where
  "shape_loop s [] = []"
| "shape_loop s (t # later) =
     (case token_span_of s t later of Some sp \<Rightarrow> [sp] | None \<Rightarrow> []) @ shape_loop s later"

definition credential_shape_spans :: "rstr \<Rightarrow> span list" where
  "credential_shape_spans s = shape_loop s (token_spans s)"

section \<open>Replacing spans\<close>

fun replace_loop :: "rstr \<Rightarrow> rstr \<Rightarrow> nat \<Rightarrow> span option \<Rightarrow> span list \<Rightarrow> rstr" where
  "replace_loop s out cursor pending [] =
     (case pending of
        Some (start, end) \<Rightarrow> out @ slice s cursor start @ redaction_placeholder @ drop end s
      | None \<Rightarrow> out @ drop cursor s)"
| "replace_loop s out cursor pending (sp # spans) =
     (case pending of
        None \<Rightarrow> replace_loop s out cursor (Some sp) spans
      | Some (start, end) \<Rightarrow>
          if fst sp \<le> end then replace_loop s out cursor (Some (start, max end (snd sp))) spans
          else replace_loop s (out @ slice s cursor start @ redaction_placeholder) end (Some sp) spans)"

definition replace_spans :: "rstr \<Rightarrow> span list \<Rightarrow> rstr" where
  "replace_spans s spans = replace_loop s [] 0 None (sort_key fst spans)"

definition all_spans :: "registry \<Rightarrow> rstr \<Rightarrow> span list" where
  "all_spans registry s = registered_value_spans registry s @ credential_shape_spans s"

definition redact_text :: "registry \<Rightarrow> rstr \<Rightarrow> rstr" where
  "redact_text registry s =
     (let spans = all_spans registry s in if spans = [] then s else replace_spans s spans)"

datatype json = JNull | JBool bool | JNumber rstr | JString rstr | JArray "json list"
  | JObject "(rstr \<times> json) list"

primrec redact_json :: "registry \<Rightarrow> json \<Rightarrow> json" where
  "redact_json registry JNull = JNull"
| "redact_json registry (JBool b) = JBool b"
| "redact_json registry (JNumber n) = JNumber n"
| "redact_json registry (JString s) = JString (redact_text registry s)"
| "redact_json registry (JArray items) = JArray (map (redact_json registry) items)"
| "redact_json registry (JObject entries) = JObject (map (map_prod id (redact_json registry)) entries)"

section \<open>Bounded text\<close>

fun floor_boundary :: "rstr \<Rightarrow> nat \<Rightarrow> nat" where
  "floor_boundary s n =
     (if is_char_boundary s n \<or> n = 0 then n else floor_boundary s (n - 1))"

declare floor_boundary.simps [simp del]

definition bounded :: "rstr \<Rightarrow> nat \<Rightarrow> rstr" where
  "bounded s max_bytes =
     (if str_len s \<le> max_bytes then s
      else let kept = floor_boundary s max_bytes;
               dropped = str_len s - kept
           in take_bytes kept s @ lit '' [truncated '' @ show_nat dropped @ lit '' bytes]'')"

definition error_body :: "registry \<Rightarrow> rstr \<Rightarrow> rstr" where
  "error_body registry s = bounded (redact_text registry s) 1024"

section \<open>Values echoed by the parser\<close>

fun skip_debug_string :: "bool \<Rightarrow> rstr \<Rightarrow> rstr" where
  "skip_debug_string escaped [] = []"
| "skip_debug_string escaped (c # s) =
     (if escaped then skip_debug_string False s
      else if c = c_backslash then skip_debug_string True s
      else if c = c_dquote then s
      else skip_debug_string False s)"

definition unknown_variant_marker :: rstr where
  [text_simps]: "unknown_variant_marker = lit ''unknown variant '' @ [c_backtick]"

lemma skip_debug_string_length: "length (skip_debug_string escaped s) \<le> length s"
  by (induction s arbitrary: escaped) (auto intro: le_SucI)

text \<open>The smaller of the two positions, and whether it is the quote.\<close>

definition next_literal :: "rstr \<Rightarrow> (nat \<times> bool) option" where
  "next_literal rest =
     (case (find_char (\<lambda>c. c = c_dquote) rest, find_sub unknown_variant_marker rest) of
        (Some q, Some v) \<Rightarrow> Some (if v \<le> q then (v, False) else (q, True))
      | (Some q, None) \<Rightarrow> Some (q, True)
      | (None, Some v) \<Rightarrow> Some (v, False)
      | (None, None) \<Rightarrow> None)"

lemma find_char_bound: "find_char p s = Some i \<Longrightarrow> i < length s"
  by (auto simp: find_char_def Let_def split: if_splits)

lemma find_sub_bound: "find_sub v s = Some i \<Longrightarrow> i + length v \<le> length s"
  by (induction s arbitrary: i) (auto split: if_splits dest: prefix_length_le)

function strip_serde_value_literals :: "rstr \<Rightarrow> rstr" where
  "strip_serde_value_literals rest =
     (case next_literal rest of
        None \<Rightarrow> rest
      | Some (index, is_quote) \<Rightarrow>
          if is_quote then
            take index rest @ redaction_placeholder @
            strip_serde_value_literals (skip_debug_string False (drop (index + 1) rest))
          else
            (let token_start = index + length unknown_variant_marker in
             take token_start rest @ redaction_placeholder @ [c_backtick] @
             strip_serde_value_literals
               (case find_char (\<lambda>c. c = c_backtick) (drop token_start rest) of
                  Some close \<Rightarrow> drop (token_start + close + 1) rest
                | None \<Rightarrow> [])))"
  by pat_completeness auto
termination
proof (relation "measure length", goal_cases)
  case (2 rest x index is_quote)
  then have "index < length rest"
    by (auto simp: next_literal_def dest: find_char_bound split: option.splits if_splits)
  then show ?case
    using skip_debug_string_length [of False "drop (index + 1) rest"] by simp
next
  case (3 rest x index is_quote token_start)
  then have "index + length unknown_variant_marker \<le> length rest"
    by (auto simp: next_literal_def dest: find_sub_bound split: option.splits if_splits)
  moreover have "0 < length unknown_variant_marker" by (simp add: text_simps)
  ultimately show ?case using 3 by (fastforce dest: find_char_bound split: option.split)
qed simp

declare strip_serde_value_literals.simps [simp del]

section \<open>Explicit values\<close>

text \<open>\<^verbatim>\<open>str::replace\<close> and \<^verbatim>\<open>str::contains\<close> for a non-empty pattern.\<close>

function replace_all :: "rstr \<Rightarrow> rstr \<Rightarrow> rstr \<Rightarrow> rstr" where
  "replace_all v by_text s =
     (if v = [] \<or> length s < length v then s
      else if take (length v) s = v then by_text @ replace_all v by_text (drop (length v) s)
      else hd s # replace_all v by_text (tl s))"
  by pat_completeness auto
termination
  by (relation "measure (\<lambda>(v, b, s). length s)") (auto simp: neq_Nil_conv)

declare replace_all.simps [simp del]

text \<open>The candidate lengths, from the longest down to the shortest fragment that counts.\<close>

fun leading_fragment :: "rstr \<Rightarrow> rstr \<Rightarrow> nat list \<Rightarrow> rstr" where
  "leading_fragment s v [] = s"
| "leading_fragment s v (len # lens) =
     (let suffix_start = str_len v - len in
      if \<not> is_char_boundary v suffix_start then leading_fragment s v lens
      else let suf = drop_bytes suffix_start v in
           if prefix suf s then redaction_placeholder @ drop (length suf) s
           else leading_fragment s v lens)"

definition redact_leading_secret_fragment :: "rstr \<Rightarrow> rstr \<Rightarrow> rstr" where
  "redact_leading_secret_fragment s v =
     leading_fragment s v (rev [8..<Suc (min (str_len v) (str_len s))])"

fun redact_each :: "bool \<Rightarrow> rstr list \<Rightarrow> rstr \<Rightarrow> rstr" where
  "redact_each front_truncated [] s = s"
| "redact_each front_truncated (v # vs) s =
     (if str_len v < min_redacted_secret_len then redact_each front_truncated vs s
      else let s1 = replace_all v redaction_placeholder s;
               s2 = (if front_truncated then redact_leading_secret_fragment s1 v else s1)
           in redact_each front_truncated vs s2)"

definition redact_values :: "rstr \<Rightarrow> rstr list \<Rightarrow> bool \<Rightarrow> rstr" where
  "redact_values s values front_truncated =
     redact_each front_truncated (sort_key (\<lambda>v. - int (str_len v)) values) s"

section \<open>Masking: the reference semantics\<close>

text \<open>
  \<open>mask m i in_run s\<close> is the text \<open>s\<close>, which starts at position \<open>i\<close>, with each maximal run of
  positions that satisfy \<open>m\<close> replaced by one placeholder.
\<close>

fun mask :: "(nat \<Rightarrow> bool) \<Rightarrow> nat \<Rightarrow> bool \<Rightarrow> rstr \<Rightarrow> rstr" where
  "mask m i in_run [] = []"
| "mask m i in_run (c # s) =
     (if m i then (if in_run then [] else redaction_placeholder) @ mask m (Suc i) True s
      else c # mask m (Suc i) False s)"

definition covers :: "span list \<Rightarrow> nat \<Rightarrow> bool" where
  "covers spans i \<longleftrightarrow> (\<exists>(a, b) \<in> set spans. a \<le> i \<and> i < b)"

definition span_ok :: "rstr \<Rightarrow> span \<Rightarrow> bool" where
  "span_ok s sp \<longleftrightarrow> fst sp < snd sp \<and> snd sp \<le> length s"

lemma mask_unmasked:
  "(\<And>j. i \<le> j \<Longrightarrow> j < i + length xs \<Longrightarrow> \<not> m j) \<Longrightarrow> xs \<noteq> [] \<Longrightarrow>
   mask m i in_run (xs @ ys) = xs @ mask m (i + length xs) False ys"
proof (induction xs arbitrary: i in_run)
  case (Cons x xs)
  then show ?case by (cases "xs = []") auto
qed simp

lemma mask_masked:
  "(\<And>j. i \<le> j \<Longrightarrow> j < i + length xs \<Longrightarrow> m j) \<Longrightarrow> xs \<noteq> [] \<Longrightarrow>
   mask m i in_run (xs @ ys) =
     (if in_run then [] else redaction_placeholder) @ mask m (i + length xs) True ys"
proof (induction xs arbitrary: i in_run)
  case (Cons x xs)
  then show ?case by (cases "xs = []") auto
qed simp

lemma mask_run_irrelevant: "\<not> m i \<Longrightarrow> mask m i True s = mask m i False s"
  by (cases s) auto

lemma mask_none: "(\<And>j. i \<le> j \<Longrightarrow> \<not> m j) \<Longrightarrow> mask m i in_run s = s"
  by (induction s arbitrary: i in_run) auto

lemma slice_append: "a \<le> b \<Longrightarrow> b \<le> length s \<Longrightarrow> drop a s = slice s a b @ drop b s"
  by (metis append_take_drop_id drop_drop le_add_diff_inverse2 slice_def)

lemma length_slice: "b \<le> length s \<Longrightarrow> length (slice s a b) = b - a"
  by (simp add: slice_def)

lemma mask_run:
  assumes "cursor \<le> start" "start < end" "end \<le> length s"
    and "\<And>j. cursor \<le> j \<Longrightarrow> j < start \<Longrightarrow> \<not> m j" and "\<And>j. start \<le> j \<Longrightarrow> j < end \<Longrightarrow> m j"
  shows "mask m cursor False (drop cursor s) =
    slice s cursor start @ redaction_placeholder @ mask m end True (drop end s)"
proof -
  have 1: "drop cursor s = slice s cursor start @ slice s start end @ drop end s"
    using slice_append [of cursor start s] slice_append [of start "end" s] assms(1-3) by simp
  have len: "length (slice s cursor start) = start - cursor" "length (slice s start end) = end - start"
    using assms(1-3) by (simp_all add: length_slice)
  have "mask m start False (slice s start end @ drop end s) =
      redaction_placeholder @ mask m end True (drop end s)"
    using mask_masked [of start "slice s start end" m False "drop end s"] assms(2,5) len(2) by force
  moreover have "mask m cursor False (slice s cursor start @ ys) = slice s cursor start @ mask m start False ys"
    for ys
    using mask_unmasked [of cursor "slice s cursor start" m False ys] assms(1,4) len(1)
    by (cases "slice s cursor start = []") auto
  ultimately show ?thesis unfolding 1 by simp
qed

lemma replace_loop_mask:
  assumes "cursor \<le> start" "start < end" "end \<le> length s"
    and "sorted (map fst spans)" "list_all (span_ok s) spans" "list_all (\<lambda>sp. start \<le> fst sp) spans"
    and "\<And>i. cursor \<le> i \<Longrightarrow> m i \<longleftrightarrow> (start \<le> i \<and> i < end) \<or> covers spans i"
  shows "replace_loop s out cursor (Some (start, end)) spans = out @ mask m cursor False (drop cursor s)"
  using assms
proof (induction spans arbitrary: out cursor start "end")
  case Nil
  then have "mask m end True (drop end s) = drop end s"
    by (intro mask_none) (simp add: covers_def)
  with mask_run [of cursor start "end" s m] Nil show ?case by (simp add: covers_def)
next
  case (Cons sp spans)
  obtain a b where sp: "sp = (a, b)" by fastforce
  have ok: "a < b" "b \<le> length s" "start \<le> a" "list_all (\<lambda>sp. a \<le> fst sp) spans"
    "list_all (span_ok s) spans" "sorted (map fst spans)"
    using Cons.prems by (auto simp: sp span_ok_def list_all_iff)
  have cov: "covers ((a, b) # spans) i \<longleftrightarrow> (a \<le> i \<and> i < b) \<or> covers spans i" for i
    by (auto simp: covers_def)
  show ?case
  proof (cases "a \<le> end")
    case True
    have m: "m i \<longleftrightarrow> (start \<le> i \<and> i < max end b) \<or> covers spans i" if "cursor \<le> i" for i
      using Cons.prems(7) [OF that] True ok(1,3) unfolding sp cov by auto
    have "replace_loop s out cursor (Some (start, max end b)) spans = out @ mask m cursor False (drop cursor s)"
      by (rule Cons.IH) (use Cons.prems ok m in \<open>auto simp: list_all_iff\<close>)
    with True show ?thesis by (simp add: sp)
  next
    case False
    have later: "covers spans i \<Longrightarrow> a \<le> i" for i
      using ok(4) by (auto simp: covers_def list_all_iff)
    have m: "m i \<longleftrightarrow> (a \<le> i \<and> i < b) \<or> covers spans i" if "end \<le> i" for i
      using Cons.prems(7) [of i] Cons.prems(1,2) that unfolding sp cov by auto
    have "replace_loop s (out @ slice s cursor start @ redaction_placeholder) end (Some (a, b)) spans =
        (out @ slice s cursor start @ redaction_placeholder) @ mask m end False (drop end s)"
      by (rule Cons.IH) (use Cons.prems ok m False in \<open>auto simp: list_all_iff\<close>)
    moreover have "mask m cursor False (drop cursor s) =
        slice s cursor start @ redaction_placeholder @ mask m end True (drop end s)"
    proof (rule mask_run)
      show "\<not> m j" if "cursor \<le> j" "j < start" for j
        using Cons.prems(7) [OF that(1)] that(2) ok(3) later unfolding sp cov by fastforce
      show "m j" if "start \<le> j" "j < end" for j
        using Cons.prems(7) [of j] Cons.prems(1) that by simp
    qed (use Cons.prems in auto)
    moreover have "\<not> m end" using m [of "end"] False later by auto
    ultimately show ?thesis using False by (simp add: sp mask_run_irrelevant)
  qed
qed

lemma replace_spans_mask:
  assumes "list_all (span_ok s) spans"
  shows "replace_spans s spans = mask (covers spans) 0 False s"
proof (cases "sort_key fst spans")
  case Nil
  then have "spans = []" by (metis length_0_conv length_sort)
  then show ?thesis
    using mask_none [of 0 "covers []"] by (simp add: replace_spans_def covers_def)
next
  case (Cons sp rest)
  obtain a b where sp: "sp = (a, b)" by fastforce
  have "set (sp # rest) = set spans" "sorted (map fst (sp # rest))"
    using set_sort [of fst spans] sorted_sort_key [of fst spans] Cons by simp_all
  then have ok: "list_all (span_ok s) (sp # rest)" "covers spans = covers (sp # rest)"
    using assms by (auto simp: list_all_iff covers_def fun_eq_iff)
  have "replace_loop s [] 0 (Some (a, b)) rest = [] @ mask (covers (sp # rest)) 0 False (drop 0 s)"
    by (rule replace_loop_mask)
      (use ok(1) \<open>sorted (map fst (sp # rest))\<close> in \<open>auto simp: sp span_ok_def list_all_iff covers_def\<close>)
  with ok(2) show ?thesis by (simp add: replace_spans_def Cons sp)
qed


section \<open>The spans lie in the text\<close>

lemma match_indices_sound:
  "j \<in> set (match_indices v pos s) \<Longrightarrow>
   pos \<le> j \<and> j + length v \<le> pos + length s \<and> take (length v) (drop (j - pos) s) = v \<and> v \<noteq> []"
proof (induction v pos s rule: match_indices.induct)
  case (1 v pos s)
  show ?case
  proof (cases "v = [] \<or> length s < length v")
    case True
    with "1.prems" show ?thesis by (simp add: match_indices.simps [of v pos s])
  next
    case guard: False
    then have s: "s \<noteq> []" by auto
    show ?thesis
    proof (cases "take (length v) s = v")
      case True
      then consider "j = pos" | "j \<in> set (match_indices v (pos + length v) (drop (length v) s))"
        using "1.prems" guard by (auto simp: match_indices.simps [of v pos s])
      then show ?thesis
      proof cases
        case 1
        with True guard show ?thesis by auto
      next
        case 2
        with "1.IH"(1) [OF guard True] guard show ?thesis by (auto simp: drop_drop)
      qed
    next
      case False
      then have "j \<in> set (match_indices v (pos + 1) (tl s))"
        using "1.prems" guard by (auto simp: match_indices.simps [of v pos s])
      from "1.IH"(2) [OF guard False this] have j: "Suc pos \<le> j" "j + length v \<le> Suc pos + length (tl s)"
        "take (length v) (drop (j - Suc pos) (tl s)) = v" "v \<noteq> []" by auto
      then have "drop (j - pos) s = drop (j - Suc pos) (tl s)"
        by (metis Suc_diff_le Suc_le_D diff_Suc_Suc drop_Suc)
      with j s show ?thesis by (cases s) auto
    qed
  qed
qed


lemma registered_spans_ok: "list_all (span_ok s) (registered_value_spans registry s)"
  by (auto simp: registered_value_spans_def list_all_iff span_ok_def dest: match_indices_sound)

lemma token_loop_ok:
  "sp \<in> set (token_loop index start s) \<Longrightarrow> (\<And>t. start = Some t \<Longrightarrow> t < index) \<Longrightarrow>
   fst sp < snd sp \<and> snd sp \<le> index + length s"
  by (induction index start s rule: token_loop.induct)
    (fastforce split: option.splits if_splits bool.splits)+

lemma token_spans_ok: "list_all (span_ok s) (token_spans s)"
  using token_loop_ok [of _ 0 None s] by (auto simp: token_spans_def list_all_iff span_ok_def)

lemma credential_token_len_ok:
  assumes "credential_token_len token = Some n"
  shows "0 < n \<and> n \<le> length token"
proof (cases "list_ex (\<lambda>entry. has_credential_prefix token (cp_prefix entry)) credential_prefixes")
  case True
  then obtain p where "has_credential_prefix token p" by (auto simp: list_ex_iff)
  then have "token \<noteq> []" by (auto simp: has_credential_prefix_def)
  with True assms show ?thesis by (auto simp: credential_token_len_def)
next
  case False
  let ?c = "trim_end_matches 46 token"
  have "looks_like_jwt ?c" "n = length ?c"
    using assms False by (auto simp: credential_token_len_def Let_def split: if_splits)
  moreover have "\<not> looks_like_jwt []" by (simp add: looks_like_jwt_def)
  moreover have "length ?c \<le> length token"
    by (simp add: trim_end_matches_def) (metis length_dropWhile_le length_rev)
  ultimately show ?thesis by auto
qed

lemma value_end_le: "start \<le> length s \<Longrightarrow> value_end s start extent \<le> length s"
proof -
  assume start: "start \<le> length s"
  have "find_char p (drop start s) = Some i \<Longrightarrow> start + i \<le> length s" for p i
    using find_char_bound [of p "drop start s" i] by simp
  moreover have "find_sub v (drop start s) = Some i \<Longrightarrow> start + i \<le> length s" for v i
    using find_sub_bound [of v "drop start s" i] start by simp
  moreover have "start + length (trim_end (take n (drop start s))) \<le> length s" for n
    using start length_dropWhile_le [of is_whitespace "rev (take n (drop start s))"]
    by (simp add: trim_end_def) linarith
  ultimately show ?thesis
    using start by (auto simp: value_end_def Let_def split: value_extent.splits option.splits)
qed

lemma value_span_ok:
  assumes "value_span s start n extent = Some sp" and "0 < n" and "start \<le> length s"
  shows "span_ok s sp"
proof -
  let ?e = "value_end s start extent"
  have sp: "sp = (start, ?e)" and "n \<le> str_len (slice s start ?e)"
    using assms(1) by (auto simp: value_span_def Let_def split: if_splits)
  then have "slice s start ?e \<noteq> []" using assms(2) by auto
  then have "start < ?e" by (simp add: slice_def)
  with value_end_le [OF assms(3)] sp show ?thesis by (simp add: span_ok_def)
qed

lemma token_span_of_ok:
  assumes "token_span_of s t later = Some sp" and "list_all (span_ok s) (t # later)"
  shows "span_ok s sp"
proof -
  have start: "fst u \<le> length s" if "u \<in> set later" for u
    using assms(2) that by (auto simp: list_all_iff span_ok_def)
  have scheme: "scheme_value s u us = Some (a, n) \<Longrightarrow> a \<le> length s \<and> 0 < n"
    if "set (u # us) \<subseteq> set later" for u us a n
    using start [of u] start [of "hd us"] that
    by (auto simp: scheme_value_def split: if_splits list.splits)
  have field: "field_span s token gap u us = Some sp \<Longrightarrow> span_ok s sp"
    if "set (u # us) \<subseteq> set later" for token gap u us
  proof -
    assume "field_span s token gap u us = Some sp"
    then obtain name q where n: "sensitive_field_name token = Some name"
      and o: "assignment_opening_quote gap = Some q"
      by (auto simp: field_span_def bind_eq_Some_conv split: option.splits)
    then obtain a n extent where "scheme_value s u us = Some (a, n)" "value_span s a n extent = Some sp"
      using \<open>field_span s token gap u us = Some sp\<close>
      by (cases q) (auto simp: field_span_def bind_eq_Some_conv)
    with scheme [OF that] show "span_ok s sp" by (auto intro: value_span_ok)
  qed
  show ?thesis
  proof (cases "credential_token_len (slice s (fst t) (snd t))")
    case None
    then obtain u us where later: "later = u # us"
      using assms(1) by (cases later) (auto simp: token_span_of_def)
    have "set (u # us) \<subseteq> set later" "u \<in> set later" using later by auto
    with None later assms(1) field [of u us] value_span_ok [of s "fst u" 8 Word sp] start [of u]
    show ?thesis by (auto simp: token_span_of_def Let_def split: if_splits)
  next
    case (Some n)
    with credential_token_len_ok [OF Some] assms show ?thesis
      by (auto simp: token_span_of_def Let_def span_ok_def length_slice)
  qed
qed

lemma shape_spans_ok: "list_all (span_ok s) (credential_shape_spans s)"
proof -
  have "list_all (span_ok s) ts \<Longrightarrow> list_all (span_ok s) (shape_loop s ts)" for ts
    by (induction ts) (auto split: option.split dest: token_span_of_ok)
  then show ?thesis using token_spans_ok by (simp add: credential_shape_spans_def)
qed

lemma redact_text_mask: "redact_text registry s = mask (covers (all_spans registry s)) 0 False s"
proof (cases "all_spans registry s = []")
  case True
  then show ?thesis using mask_none [of 0 "covers []"] by (simp add: redact_text_def covers_def)
next
  case False
  have "list_all (span_ok s) (all_spans registry s)"
    using registered_spans_ok shape_spans_ok by (simp add: all_spans_def)
  from replace_spans_mask [OF this] False show ?thesis by (simp add: redact_text_def)
qed


section \<open>The registry\<close>





section \<open>Properties\<close>

text \<open>
  C15. Redaction is masking: the redacted text is the original in which each maximal run of
  positions covered by a span (of a registered value or of a credential shape) is replaced by one
  placeholder, and everything else is kept.
\<close>

theorem redact_text_is_masking:
  "redact_text registry s = mask (covers (all_spans registry s)) 0 False s"
  by (rule redact_text_mask)




lemma is_char_boundary_iff: "is_char_boundary s n \<longleftrightarrow> (\<exists>p q. s = p @ q \<and> str_len p = n)"
proof (induction s arbitrary: n)
  case (Cons c s)
  have "(\<exists>p q. c # s = p @ q \<and> str_len p = n) \<longleftrightarrow>
      n = 0 \<or> (len_utf8 c \<le> n \<and> (\<exists>p q. s = p @ q \<and> str_len p = n - len_utf8 c))"
    (is "?l \<longleftrightarrow> ?r")
  proof
    assume ?l
    then obtain p q where pq: "c # s = p @ q" "str_len p = n" by blast
    then show ?r by (cases p) (auto simp: str_len_simps)
  next
    assume ?r
    then show ?l
    proof
      assume "n = 0"
      then show ?l by (metis append_Nil str_len_Nil)
    next
      assume "len_utf8 c \<le> n \<and> (\<exists>p q. s = p @ q \<and> str_len p = n - len_utf8 c)"
      then obtain p q where "len_utf8 c \<le> n" "s = p @ q" "str_len p = n - len_utf8 c" by blast
      then show ?l by (intro exI [of _ "c # p"] exI [of _ q]) (auto simp: str_len_simps)
    qed
  qed
  with Cons.IH show ?case by simp
qed auto

lemma floor_boundary_spec:
  "is_char_boundary s (floor_boundary s n) \<and> floor_boundary s n \<le> n \<and>
   (\<forall>k. is_char_boundary s k \<longrightarrow> k \<le> n \<longrightarrow> k \<le> floor_boundary s n)"
proof (induction s n rule: floor_boundary.induct)
  case (1 s n)
  have zero: "is_char_boundary s 0" by (cases s) auto
  show ?case
  proof (cases "is_char_boundary s n \<or> n = 0")
    case True
    then have "floor_boundary s n = n" by (subst floor_boundary.simps) simp
    with True zero show ?thesis by auto
  next
    case False
    then have step: "floor_boundary s n = floor_boundary s (n - 1)" by (subst floor_boundary.simps) simp
    have "k \<le> n - 1" if "is_char_boundary s k" "k \<le> n" for k
      using that False by (cases "k = n") auto
    with 1 [OF False] show ?thesis unfolding step by (meson diff_le_self le_trans)
  qed
qed

text \<open>
  Truncation cuts at a char: a text that fits is kept, and of a longer one the longest
  prefix of whole chars within the budget is kept, followed by a marker with the exact number of
  bytes dropped.
\<close>

theorem bounded_spec:
  "if str_len s \<le> max_bytes then bounded s max_bytes = s
   else \<exists>p c q. s = p @ c # q \<and> str_len p \<le> max_bytes \<and> max_bytes < str_len p + len_utf8 c \<and>
     bounded s max_bytes = p @ lit '' [truncated '' @ show_nat (str_len (c # q)) @ lit '' bytes]''"
proof (cases "str_len s \<le> max_bytes")
  case False
  note floor = floor_boundary_spec [of s max_bytes]
  obtain p r where r: "s = p @ r" "str_len p = floor_boundary s max_bytes"
    using floor is_char_boundary_iff by metis
  then obtain c q where q: "r = c # q"
    using False floor by (cases r) auto
  have "max_bytes < str_len p + len_utf8 c"
  proof (rule ccontr)
    assume "\<not> ?thesis"
    moreover have "is_char_boundary s (str_len p + len_utf8 c)"
      unfolding is_char_boundary_iff r(1) q
      by (intro exI [of _ "p @ [c]"] exI [of _ q]) (simp add: str_len_simps)
    ultimately have "str_len p + len_utf8 c \<le> floor_boundary s max_bytes" using floor by simp
    with r(2) len_utf8_pos [of c] show False by (simp del: len_utf8_pos)
  qed
  moreover have "str_len s - str_len p = str_len (c # q)" using r q by (simp add: str_len_simps)
  moreover have "bounded s max_bytes =
      p @ lit '' [truncated '' @ show_nat (str_len s - str_len p) @ lit '' bytes]''"
    using False unfolding bounded_def Let_def r(2) [symmetric] by (simp add: r(1))
  moreover have "str_len p \<le> max_bytes" using floor r(2) by simp
  ultimately show ?thesis
    using False r(1) q by (simp only: if_False) blast
qed (simp add: bounded_def)

section \<open>Literals in parser messages\<close>

text \<open>The inside of a Debug-escaped string.\<close>

inductive debug_body :: "rstr \<Rightarrow> bool" where
  debug_Nil: "debug_body []"
| debug_plain: "debug_body s \<Longrightarrow> c \<noteq> c_backslash \<Longrightarrow> c \<noteq> c_dquote \<Longrightarrow> debug_body (c # s)"
| debug_escape: "debug_body s \<Longrightarrow> debug_body (c_backslash # c # s)"

lemma skip_debug_body: "debug_body body \<Longrightarrow> skip_debug_string False (body @ c_dquote # post) = post"
  by (induction rule: debug_body.induct) auto

lemma find_sub_Some: "find_sub v s = Some i \<Longrightarrow> prefix v (drop i s)"
  by (induction s arbitrary: i) (auto split: if_splits)

lemma prefix_before:
  assumes "prefix v (a @ c # b)" and "c \<notin> set v"
  shows "prefix v a"
proof (rule ccontr)
  assume no: "\<not> prefix v a"
  then obtain d where "v = a @ d" "d \<noteq> []" "prefix d (c # b)"
    using assms(1) by (auto simp: prefix_append)
  with assms(2) show False by (cases d) auto
qed

lemma next_literal_quote:
  assumes "c_dquote \<notin> set pre" and "\<not> sublist unknown_variant_marker pre"
  shows "next_literal (pre @ c_dquote # rest) = Some (length pre, True)"
proof -
  have q: "find_char (\<lambda>c. c = c_dquote) (pre @ c_dquote # rest) = Some (length pre)"
  proof -
    have "takeWhile (\<lambda>c. \<not> c = c_dquote) (pre @ c_dquote # rest) = pre"
      by (subst takeWhile_append2) (use assms(1) in auto)
    then show ?thesis by (simp add: find_char_def Let_def)
  qed
  have "\<not> i \<le> length pre" if i: "find_sub unknown_variant_marker (pre @ c_dquote # rest) = Some i" for i
  proof
    assume le: "i \<le> length pre"
    have "prefix unknown_variant_marker (drop i pre @ c_dquote # rest)"
      using find_sub_Some [OF i] le by simp
    then have "prefix unknown_variant_marker (drop i pre)"
      by (rule prefix_before) (simp add: text_simps)
    then show False
      using assms(2) by (metis prefix_imp_sublist sublist_drop sublist_order.order.trans)
  qed
  with q show ?thesis by (fastforce simp: next_literal_def split: option.split)
qed

text \<open>
  A quoted literal that the parser echoes into its message is dropped whole, whatever it
  contains: the text up to it is kept, a placeholder takes its place, and stripping goes on after
  its closing quote.
\<close>

theorem strip_quoted_literal:
  assumes "debug_body body" and "c_dquote \<notin> set pre" and "\<not> sublist unknown_variant_marker pre"
  shows "strip_serde_value_literals (pre @ c_dquote # body @ c_dquote # post) =
    pre @ redaction_placeholder @ strip_serde_value_literals post"
  using next_literal_quote [OF assms(2,3), of "body @ c_dquote # post"] skip_debug_body [OF assms(1)]
  by (subst strip_serde_value_literals.simps) simp

theorem strip_quoted_literal_witness:
  "strip_serde_value_literals (lit ''got '' @ c_dquote # lit ''s3cret'' @ c_dquote # lit '', at 3'') =
     lit ''got [redacted], at 3''"
proof -
  have b: "debug_body (lit ''s3cret'')" by (auto simp: lit_def intro!: debug_body.intros)
  have q: "c_dquote \<notin> set (lit ''got '')" by (simp add: lit_def)
  have m: "\<not> sublist unknown_variant_marker (lit ''got '')"
    using sublist_length_le [of unknown_variant_marker "lit ''got ''"] by (auto simp: text_simps)
  have "strip_serde_value_literals (lit '', at 3'') = lit '', at 3''"
    by (subst strip_serde_value_literals.simps) (simp add: next_literal_def text_simps)
  with strip_quoted_literal [OF b q m, of "lit '', at 3''"] show ?thesis
    by (simp add: text_simps)
qed

end
