(* ===== verification/Secret_Template.thy ===== *)
theory Secret_Template
  imports Redaction
begin

text \<open>
  Secret-reference templates (\<^verbatim>\<open>src/config/secret_template.rs\<close>) and the secret-name validators of
  \<^verbatim>\<open>src/config/validate/primitives.rs\<close>.  The secret store is a parameter, a map from names to
  values.
\<close>

section \<open>Names\<close>



definition secret_value_shape :: "rstr \<Rightarrow> bool" where
  "secret_value_shape s \<longleftrightarrow>
     (if 40 < str_len s \<and> list_all is_ascii_hexdigit s then True
      else if list_ex (\<lambda>entry. config_screened entry \<and> prefix (cp_prefix entry) s) credential_prefixes
      then True
      else looks_like_jwt s)"

definition secret_ref_looks_like_value :: "rstr \<Rightarrow> bool" where
  "secret_ref_looks_like_value name \<longleftrightarrow> (if 128 < str_len name then True else secret_value_shape name)"

section \<open>Parsing\<close>

datatype template_segment = Literal rstr | Ref rstr

definition flush_literal :: "template_segment list \<Rightarrow> rstr \<Rightarrow> template_segment list" where
  [text_simps]: "flush_literal segments literal =
     segments @ (if literal \<noteq> [] then [Literal literal] else [])"

definition reason_unterminated :: rstr where
  "reason_unterminated = lit ''unterminated `${`; close it with `}`''"

definition reason_empty_ref :: rstr where
  "reason_empty_ref = lit ''`${}` is empty; name the secret ref''"

definition reason_bare_dollar :: rstr where
  "reason_bare_dollar =
     lit ''unescaped `$`; write `$$` for a literal dollar or `${NAME}` for a ref''"



lemma split_once_length: "split_once d s = Some (a, b) \<Longrightarrow> length b < length s"
  by (auto simp: split_once_Some_iff)

function parse_loop ::
  "template_segment list \<Rightarrow> rstr \<Rightarrow> rstr \<Rightarrow> rstr + template_segment list" where
  "parse_loop segments literal rest =
     (case split_once c_dollar rest of
        None \<Rightarrow> Inr (flush_literal segments (literal @ rest))
      | Some (before_dollar, after_dollar) \<Rightarrow>
          (let literal = literal @ before_dollar in
           case after_dollar of
             [] \<Rightarrow> Inl reason_bare_dollar
           | c # after_next \<Rightarrow>
               if c = c_dollar then parse_loop segments (literal @ [c_dollar]) after_next
               else if c = c_lbrace then
                 (case split_once c_rbrace after_next of
                    None \<Rightarrow> Inl reason_unterminated
                  | Some (name, after_close) \<Rightarrow>
                      if name = [] then Inl reason_empty_ref
                      else parse_loop (flush_literal segments literal @ [Ref name]) [] after_close)
               else Inl reason_bare_dollar))"
  by pat_completeness auto
termination
  by (relation "measure (\<lambda>(segments, literal, rest). length rest)")
    (auto dest!: split_once_length)

declare parse_loop.simps [simp del]

definition parse_segments :: "rstr \<Rightarrow> rstr + template_segment list" where
  "parse_segments raw = parse_loop [] [] raw"


definition is_ref :: "template_segment \<Rightarrow> bool" where
  "is_ref segment \<longleftrightarrow> (case segment of Ref _ \<Rightarrow> True | Literal _ \<Rightarrow> False)"


definition ref_names :: "template_segment list \<Rightarrow> rstr list" where
  "ref_names segments = concat (map (\<lambda>s. case s of Ref name \<Rightarrow> [name] | Literal _ \<Rightarrow> []) segments)"

definition literals :: "template_segment list \<Rightarrow> rstr list" where
  "literals segments = concat (map (\<lambda>s. case s of Literal t \<Rightarrow> [t] | Ref _ \<Rightarrow> []) segments)"





definition template_pieces_lossy :: "rstr \<Rightarrow> rstr list" where
  "template_pieces_lossy raw =
     (case parse_segments raw of
        Inr segments \<Rightarrow> map (\<lambda>s. case s of Literal t \<Rightarrow> t | Ref name \<Rightarrow> name) segments
      | Inl _ \<Rightarrow> [raw])"

section \<open>Screening\<close>

definition screen_piece :: "rstr \<Rightarrow> rstr \<Rightarrow> unit result" where
  "screen_piece field piece =
     (if secret_ref_looks_like_value piece then Err (SecretRefLooksLikeValue field) else Ok ())"

fun screen_loop :: "rstr \<Rightarrow> rstr \<Rightarrow> nat \<Rightarrow> template_segment list \<Rightarrow> (rstr \<times> nat) result" where
  "screen_loop field concatenated literal_count [] = Ok (concatenated, literal_count)"
| "screen_loop field concatenated literal_count (Literal t # segments) =
     and_then (screen_piece field t) (\<lambda>_. screen_loop field (concatenated @ t) (literal_count + 1) segments)"
| "screen_loop field concatenated literal_count (Ref name # segments) =
     and_then (screen_piece field name) (\<lambda>_. screen_loop field concatenated literal_count segments)"

definition screen_template :: "rstr \<Rightarrow> rstr \<Rightarrow> unit result" where
  "screen_template field raw =
     (case parse_segments raw of
        Inl _ \<Rightarrow> screen_piece field raw
      | Inr segments \<Rightarrow>
          and_then (screen_loop field [] 0 segments) (\<lambda>(concatenated, literal_count).
            if 1 < literal_count \<and> secret_value_shape concatenated
            then Err (SecretRefLooksLikeValue field) else Ok ()))"

definition screen_env_entry :: "rstr \<Rightarrow> rstr \<Rightarrow> unit result" where
  "screen_env_entry field raw =
     (case split_once c_eq raw of
        None \<Rightarrow> screen_piece field raw
      | Some (var_name, template_raw) \<Rightarrow>
          and_then (screen_piece field var_name) (\<lambda>_. screen_template field template_raw))"

section \<open>Env entries\<close>



definition env_entry_var_name :: "rstr \<Rightarrow> rstr" where
  "env_entry_var_name raw = (case split_once c_eq raw of Some (var_name, _) \<Rightarrow> var_name | None \<Rightarrow> raw)"



definition agent_env_declares :: "rstr list \<Rightarrow> rstr \<Rightarrow> bool" where
  "agent_env_declares env var_name = list_ex (\<lambda>entry. env_entry_var_name entry = var_name) env"

section \<open>Printing templates\<close>

text \<open>The inverse of the parser: dollars of literals are doubled, refs are bracketed.\<close>

fun escape :: "rstr \<Rightarrow> rstr" where
  "escape [] = []"
| "escape (c # s) = (if c = c_dollar then [c_dollar, c_dollar] else [c]) @ escape s"

fun render_segment :: "template_segment \<Rightarrow> rstr" where
  "render_segment (Literal t) = escape t"
| "render_segment (Ref name) = [c_dollar, c_lbrace] @ name @ [c_rbrace]"

definition render :: "template_segment list \<Rightarrow> rstr" where
  "render segments = concat (map render_segment segments)"

text \<open>What the parser produces: no empty or adjacent literals, no empty names.\<close>

fun canonical :: "template_segment list \<Rightarrow> bool" where
  "canonical [] = True"
| "canonical (Ref name # segments) \<longleftrightarrow> name \<noteq> [] \<and> c_rbrace \<notin> set name \<and> canonical segments"
| "canonical (Literal t # segments) \<longleftrightarrow> t \<noteq> [] \<and>
     (case segments of Literal _ # _ \<Rightarrow> False | _ \<Rightarrow> True) \<and> canonical segments"

lemma split_once_absent [simp]: "d \<notin> set s \<Longrightarrow> split_once d s = None"
  by (simp add: split_once_None_iff)

lemma escape_append [simp]: "escape (a @ b) = escape a @ escape b"
  by (induction a) auto

lemma escape_plain: "c_dollar \<notin> set s \<Longrightarrow> escape s = s"
  by (induction s) auto

lemma render_append [simp]: "render (a @ b) = render a @ render b"
  by (simp add: render_def)

lemma render_simps [simp]: "render [] = []" "render (s # segments) = render_segment s @ render segments"
  by (simp_all add: render_def)

lemma canonical_snoc_ref:
  "canonical segments \<Longrightarrow> name \<noteq> [] \<Longrightarrow> c_rbrace \<notin> set name \<Longrightarrow> canonical (segments @ [Ref name])"
  by (induction segments rule: canonical.induct) (auto split: list.splits template_segment.splits)

definition open_ended :: "template_segment list \<Rightarrow> bool" where
  "open_ended segments \<longleftrightarrow> canonical segments \<and> (segments = [] \<or> is_ref (last segments))"

lemma canonical_flush:
  "canonical segments \<Longrightarrow> segments = [] \<or> is_ref (last segments) \<Longrightarrow> canonical (flush_literal segments literal)"
  by (induction segments rule: canonical.induct)
    (auto simp: flush_literal_def is_ref_def split: list.splits template_segment.splits if_splits)

lemma open_ended_step:
  assumes "open_ended segments" and "name \<noteq> []" and "c_rbrace \<notin> set name"
  shows "open_ended (flush_literal segments literal @ [Ref name])"
  using canonical_snoc_ref [OF canonical_flush assms(2,3)] assms(1)
  by (simp add: open_ended_def is_ref_def)

lemma render_flush: "render (flush_literal segments literal) = render segments @ escape literal"
  by (simp add: flush_literal_def)

lemma parse_loop_sound:
  "parse_loop segments literal rest = Inr out \<Longrightarrow> open_ended segments \<Longrightarrow>
   canonical out \<and> render out = render segments @ escape literal @ rest"
proof (induction segments literal rest rule: parse_loop.induct)
  case (1 segments literal rest)
  show ?case
  proof (cases "split_once c_dollar rest")
    case None
    then have "out = flush_literal segments (literal @ rest)"
      using "1.prems"(1) by (simp add: parse_loop.simps [of segments literal])
    moreover have "c_dollar \<notin> set rest" using None by (simp add: split_once_None_iff)
    ultimately have "out = flush_literal segments (literal @ rest)" "c_dollar \<notin> set rest" by auto
    then show ?thesis
      using canonical_flush "1.prems"(2) by (auto simp: render_flush escape_plain open_ended_def)
  next
    case (Some p)
    obtain a t where p: "p = (a, t)" by fastforce
    have rest: "rest = a @ c_dollar # t" "c_dollar \<notin> set a"
      using Some p by (auto simp: split_once_Some_iff)
    obtain c t' where t: "t = c # t'"
      using "1.prems"(1) by (cases t) (auto simp: parse_loop.simps [of segments] Some p)
    consider (dollar) "c = c_dollar" | (ref) name t'' where "c = c_lbrace" "split_once c_rbrace t' = Some (name, t'')" "name \<noteq> []"
      using "1.prems"(1)
      by (fastforce simp: parse_loop.simps [of segments] Some p t split: if_splits option.splits)
    then show ?thesis
    proof cases
      case dollar
      then have "parse_loop segments ((literal @ a) @ [c_dollar]) t' = Inr out"
        using "1.prems"(1) by (simp add: parse_loop.simps [of segments literal] Some p t)
      from "1.IH"(1) [OF Some p [symmetric] refl t dollar this "1.prems"(2)] rest dollar show ?thesis
        by (simp add: escape_plain t)
    next
      case ref
      then have loop: "parse_loop (flush_literal segments (literal @ a) @ [Ref name]) [] t'' = Inr out"
        using "1.prems"(1) by (simp add: parse_loop.simps [of segments literal] Some p t)
      have name: "t' = name @ c_rbrace # t''" "c_rbrace \<notin> set name"
        using ref(2) by (auto simp: split_once_Some_iff)
      have "c \<noteq> c_dollar" using ref(1) by simp
      from "1.IH"(2) [OF Some p [symmetric] refl t this ref(1,2) refl ref(3) loop
          open_ended_step [OF "1.prems"(2) ref(3) name(2)]]
      show ?thesis using rest name ref(1) by (simp add: render_flush escape_plain t)
    qed
  qed
qed

lemma parse_loop_literal: "parse_loop segments literal (escape t @ r) = parse_loop segments (literal @ t) r"
proof (induction t arbitrary: literal)
  case (Cons c t)
  show ?case
  proof (cases "c = c_dollar")
    case True
    have "split_once c_dollar (c_dollar # c_dollar # escape t @ r) = Some ([], c_dollar # escape t @ r)"
      by (simp add: split_once_Some_iff)
    with Cons [of "literal @ [c_dollar]"] True show ?thesis by (subst parse_loop.simps) simp
  next
    case False
    have "split_once c_dollar (c # u) =
        map_option (\<lambda>(a, b). (c # a, b)) (split_once c_dollar u)" for u
      using False
      by (cases "split_once c_dollar u") (auto simp: split_once_Some_iff, simp add: split_once_None_iff)
    then have "parse_loop segments literal (c # u) = parse_loop segments (literal @ [c]) u" for u
      by (subst (1 2) parse_loop.simps) (auto split: option.split prod.split)
    with Cons [of "literal @ [c]"] False show ?thesis by simp
  qed
qed simp

lemma parse_loop_ref:
  assumes "name \<noteq> []" and "c_rbrace \<notin> set name"
  shows "parse_loop segments literal (c_dollar # c_lbrace # name @ c_rbrace # r) =
    parse_loop (flush_literal segments literal @ [Ref name]) [] r"
proof -
  have "split_once c_dollar (c_dollar # u) = Some ([], u)" for u by (simp add: split_once_Some_iff)
  moreover have "split_once c_rbrace (name @ c_rbrace # r) = Some (name, r)"
    using assms(2) by (simp add: split_once_Some_iff)
  ultimately show ?thesis using assms(1) by (subst parse_loop.simps) simp
qed

lemma parse_loop_render:
  "canonical new \<Longrightarrow> literal = [] \<or> new = [] \<or> is_ref (hd new) \<Longrightarrow>
   parse_loop segments literal (render new) = Inr (flush_literal segments literal @ new)"
proof (induction new arbitrary: segments literal rule: canonical.induct)
  case 1
  then show ?case by (subst parse_loop.simps) simp
next
  case (2 name new)
  then show ?case using parse_loop_ref [of name segments literal] by (simp add: flush_literal_def)
next
  case (3 t new)
  have "new = [] \<or> is_ref (hd new)"
    using "3.prems"(1) by (cases new) (auto simp: is_ref_def split: template_segment.splits)
  with 3 have "parse_loop segments t (render new) = Inr (flush_literal segments t @ new)" by auto
  moreover have "literal = []" "t \<noteq> []" using "3.prems" by (auto simp: is_ref_def)
  ultimately show ?case using parse_loop_literal [of segments "[]" t] by (simp add: flush_literal_def)
qed

lemma parse_segments_iff: "parse_segments raw = Inr segments \<longleftrightarrow> canonical segments \<and> raw = render segments"
proof
  assume "parse_segments raw = Inr segments"
  then show "canonical segments \<and> raw = render segments"
    using parse_loop_sound [of "[]" "[]" raw segments] by (simp add: parse_segments_def open_ended_def)
next
  assume "canonical segments \<and> raw = render segments"
  then show "parse_segments raw = Inr segments"
    using parse_loop_render [of segments "[]" "[]"] by (simp add: parse_segments_def flush_literal_def)
qed

section \<open>Resolution\<close>


lemma ref_names_simps [simp]:
  "ref_names [] = []" "ref_names (Ref name # segments) = name # ref_names segments"
  "ref_names (Literal t # segments) = ref_names segments"
  by (simp_all add: ref_names_def)




section \<open>Properties\<close>

text \<open>
  C17. The template parser is exactly the inverse of printing: it accepts a text as a list of
  segments if and only if the list is canonical (no empty or adjacent literals, no empty names, no
  \<^verbatim>\<open>}\<close> in a name) and the text is the list printed with its dollars doubled.
\<close>

theorem parse_segments_inverts_render:
  "parse_segments raw = Inr segments \<longleftrightarrow> canonical segments \<and> raw = render segments"
  by (rule parse_segments_iff)



end
