(* ===== verification/Outbox.thy ===== *)
theory Outbox
  imports Stack_Error "HOL-Library.List_Lexorder" "HOL-Library.Product_Lexorder"
begin

text \<open>
  The delivery outbox of the logging sink (\<^verbatim>\<open>src/state/sink_outbox.rs\<close>).

  A table is the list of its rows, in insertion order; each operation is one statement or one
  transaction.  Timestamps are text, compared as the database compares them.  \<open>outbox_queue\<close> is the
  contract that the writers of source rows rely on, interpreted by \<open>enqueue\<close>.
\<close>

section \<open>The table\<close>

datatype outbox_status = OPending | OSending | OSent

record outbox_row =
  ob_id :: rstr
  ob_source_table :: rstr
  ob_source_id :: rstr
  ob_created_at :: rstr
  ob_status :: outbox_status
  ob_attempts :: nat
  ob_next_attempt_at :: "rstr option"
  ob_last_error :: "rstr option"
  ob_last_attempt_at :: "rstr option"

type_synonym outbox = "outbox_row list"

definition outbox_id :: "rstr \<Rightarrow> rstr \<Rightarrow> rstr" where
  [text_simps]: "outbox_id source_table source_id = source_table @ [c_colon] @ source_id"

definition enqueue :: "rstr \<Rightarrow> rstr \<Rightarrow> rstr \<Rightarrow> outbox \<Rightarrow> outbox" where
  "enqueue source_table source_id created_at ob =
     (let id = outbox_id source_table source_id in
      if list_ex (\<lambda>r. ob_id r = id) ob then
        update_rows (\<lambda>r. ob_id r = id)
          (\<lambda>r. r\<lparr>ob_status := OPending, ob_attempts := 0, ob_next_attempt_at := None,
                  ob_last_error := None, ob_last_attempt_at := None, ob_created_at := created_at\<rparr>) ob
      else ob @ [\<lparr>ob_id = id, ob_source_table = source_table, ob_source_id = source_id,
                  ob_created_at = created_at, ob_status = OPending, ob_attempts = 0,
                  ob_next_attempt_at = None, ob_last_error = None, ob_last_attempt_at = None\<rparr>])"

definition due :: "rstr \<Rightarrow> outbox_row \<Rightarrow> bool" where
  "due now r \<longleftrightarrow> ob_status r = OPending \<and>
     (case ob_next_attempt_at r of None \<Rightarrow> True | Some at_time \<Rightarrow> at_time \<le> now)"

definition batch_ids :: "nat \<Rightarrow> rstr \<Rightarrow> outbox \<Rightarrow> rstr list" where
  "batch_ids limit now ob =
     map ob_id (take limit (sort_key (\<lambda>r. (ob_created_at r, ob_id r)) (filter (due now) ob)))"

definition next_batch :: "nat \<Rightarrow> rstr \<Rightarrow> outbox \<Rightarrow> outbox_row list \<times> outbox" where
  "next_batch limit now ob =
     (let ids = batch_ids limit now ob;
          claimed = map (\<lambda>r. r\<lparr>ob_status := OSending\<rparr>) (filter (\<lambda>r. ob_id r \<in> set ids) ob)
      in (sort_key (\<lambda>r. (ob_created_at r, ob_id r)) claimed,
          update_rows (\<lambda>r. ob_id r \<in> set ids) (\<lambda>r. r\<lparr>ob_status := OSending\<rparr>) ob))"

definition recover_in_flight :: "outbox \<Rightarrow> nat \<times> outbox" where
  "recover_in_flight ob =
     (length (filter (\<lambda>r. ob_status r = OSending) ob),
      update_rows (\<lambda>r. ob_status r = OSending) (\<lambda>r. r\<lparr>ob_status := OPending\<rparr>) ob)"

definition mark_sent :: "rstr list \<Rightarrow> rstr \<Rightarrow> outbox \<Rightarrow> outbox" where
  "mark_sent ids now ob =
     (if ids = [] then ob
      else update_rows (\<lambda>r. ob_id r \<in> set ids \<and> ob_status r = OSending)
             (\<lambda>r. r\<lparr>ob_status := OSent, ob_last_attempt_at := Some now, ob_last_error := None\<rparr>) ob)"

definition mark_failure :: "rstr list \<Rightarrow> rstr \<Rightarrow> rstr \<Rightarrow> rstr \<Rightarrow> outbox \<Rightarrow> outbox" where
  "mark_failure ids error next_attempt_at now ob =
     (if ids = [] then ob
      else update_rows (\<lambda>r. ob_id r \<in> set ids \<and> ob_status r = OSending)
             (\<lambda>r. r\<lparr>ob_status := OPending, ob_attempts := ob_attempts r + 1, ob_last_error := Some error,
                     ob_last_attempt_at := Some now, ob_next_attempt_at := Some next_attempt_at\<rparr>) ob)"

definition open_failure_count :: "outbox \<Rightarrow> nat" where
  "open_failure_count ob =
     length (filter (\<lambda>r. ob_status r \<in> {OPending, OSending} \<and> 0 < ob_attempts r) ob)"

section \<open>The failure summary\<close>

record failure_window =
  fw_window_started_at :: rstr
  fw_failure_count :: int
  fw_last_error :: "rstr option"
  fw_last_observed_at :: rstr

definition record_failure_window ::
  "rstr \<Rightarrow> int \<Rightarrow> rstr \<Rightarrow> rstr \<Rightarrow> failure_window list \<Rightarrow> failure_window list" where
  "record_failure_window window_started_at failure_count error now summary =
     (let bounded_error = (if length error \<le> 512 then error else take 512 error @ lit ''...'');
          row = \<lparr>fw_window_started_at = window_started_at, fw_failure_count = failure_count,
                 fw_last_error = Some bounded_error, fw_last_observed_at = now\<rparr>
      in if list_ex (\<lambda>r. fw_window_started_at r = window_started_at) summary
         then update_rows (\<lambda>r. fw_window_started_at r = window_started_at) (\<lambda>_. row) summary
         else summary @ [row])"

definition latest_failure_summary :: "failure_window list \<Rightarrow> failure_window option" where
  "latest_failure_summary summary =
     (case rev (sort_key (\<lambda>r. (fw_last_observed_at r, fw_window_started_at r)) summary) of
        r # _ \<Rightarrow> Some r
      | [] \<Rightarrow> None)"

section \<open>The contract for writers\<close>

definition keys_ok :: "outbox \<Rightarrow> bool" where
  "keys_ok ob \<longleftrightarrow> distinct (map ob_id ob) \<and>
     (\<forall>r \<in> set ob. ob_id r = outbox_id (ob_source_table r) (ob_source_id r))"

text \<open>A row is queued when a later poll will deliver it: pending, and due at any time.\<close>

definition queued :: "rstr \<Rightarrow> rstr \<Rightarrow> outbox \<Rightarrow> bool" where
  "queued source_table source_id ob \<longleftrightarrow>
     (\<exists>r \<in> set ob. ob_id r = outbox_id source_table source_id \<and>
        ob_status r = OPending \<and> ob_next_attempt_at r = None)"

locale outbox_queue =
  fixes push :: "rstr \<Rightarrow> rstr \<Rightarrow> rstr \<Rightarrow> 'q \<Rightarrow> 'q"
    and waiting :: "rstr \<Rightarrow> rstr \<Rightarrow> 'q \<Rightarrow> bool"
  assumes push_waiting: "waiting t i (push t i at_time q)"
    and push_keeps: "waiting t' i' q \<Longrightarrow> waiting t' i' (push t i at_time q)"
begin

definition push_all :: "(rstr \<times> rstr) list \<Rightarrow> rstr \<Rightarrow> 'q \<Rightarrow> 'q" where
  "push_all rows at_time q = foldl (\<lambda>q (t, i). push t i at_time q) q rows"

lemma push_all_keeps: "waiting t' i' q \<Longrightarrow> waiting t' i' (push_all rows at_time q)"
  unfolding push_all_def by (induction rows arbitrary: q) (auto intro: push_keeps)

lemma push_all_waiting: "(t, i) \<in> set rows \<Longrightarrow> waiting t i (push_all rows at_time q)"
proof (induction rows arbitrary: q)
  case (Cons row rows)
  then show ?case
    using push_all_keeps [of t i "push t i at_time q" rows at_time] push_waiting [of t i at_time q]
    by (cases row) (auto simp: push_all_def)
qed simp

end

lemma enqueue_queued: "queued t i (enqueue t i at_time ob)"
  by (simp add: queued_def enqueue_def Let_def list_ex_iff update_rows_simps)

lemma enqueue_keeps: "queued t' i' ob \<Longrightarrow> queued t' i' (enqueue t i at_time ob)"
  unfolding queued_def enqueue_def Let_def if_split [of "\<lambda>x. Bex (set x) _"] update_rows_simps
  by (intro conjI impI) (force, auto)

interpretation oq: outbox_queue enqueue queued
  by unfold_locales (rule enqueue_queued, erule enqueue_keeps)

lemma outbox_id_inj:
  "c_colon \<notin> set t \<Longrightarrow> c_colon \<notin> set t' \<Longrightarrow> outbox_id t i = outbox_id t' i' \<longleftrightarrow> t = t' \<and> i = i'"
proof -
  assume "c_colon \<notin> set t" "c_colon \<notin> set t'"
  then have "split_once c_colon (outbox_id t i) = Some (t, i)" "split_once c_colon (outbox_id t' i') = Some (t', i')"
    by (simp_all add: split_once_Some_iff outbox_id_def)
  then show ?thesis by (metis option.inject prod.inject)
qed

lemma enqueue_keys: "keys_ok ob \<Longrightarrow> keys_ok (enqueue t i at_time ob)"
  by (auto simp: keys_ok_def enqueue_def Let_def list_ex_iff map_update_rows update_rows_simps)

lemma next_batch_keys: "keys_ok ob \<Longrightarrow> keys_ok (snd (next_batch limit now ob))"
  by (auto simp: keys_ok_def next_batch_def Let_def map_update_rows update_rows_simps)

lemma recover_keys: "keys_ok ob \<Longrightarrow> keys_ok (snd (recover_in_flight ob))"
  by (auto simp: keys_ok_def recover_in_flight_def map_update_rows update_rows_simps)

lemma mark_keys:
  "keys_ok ob \<Longrightarrow> keys_ok (mark_sent ids now ob)"
  "keys_ok ob \<Longrightarrow> keys_ok (mark_failure ids error at_time now ob)"
  by (auto simp: keys_ok_def mark_sent_def mark_failure_def map_update_rows update_rows_simps)

section \<open>The status of a row\<close>

text \<open>The table as a map from the key of a row to its status, and each operation on that map.\<close>

definition status_of :: "outbox \<Rightarrow> rstr \<Rightarrow> outbox_status option" where
  "status_of ob key = map_of (map (\<lambda>r. (ob_id r, ob_status r)) ob) key"

lemma status_update_rows:
  assumes "\<And>r. ob_id (f r) = ob_id r" and "\<And>r. ob_status (f r) = s"
    and "\<And>r. p r \<longleftrightarrow> P (ob_id r) (ob_status r)"
  shows "status_of (update_rows p f ob) key =
           map_option (\<lambda>t. if P key t then s else t) (status_of ob key)"
  using assms by (induction ob) (auto simp: status_of_def update_rows_def)

lemma status_mark_sent [simp]:
  "status_of (mark_sent ids now ob) key =
     map_option (\<lambda>t. if key \<in> set ids \<and> t = OSending then OSent else t) (status_of ob key)"
  by (cases "ids = []") (simp_all add: mark_sent_def option.map_ident
      status_update_rows [where P = "\<lambda>k t. k \<in> set ids \<and> t = OSending" and s = OSent])

lemma status_mark_failure [simp]:
  "status_of (mark_failure ids error retry_at now ob) key =
     map_option (\<lambda>t. if key \<in> set ids \<and> t = OSending then OPending else t) (status_of ob key)"
  by (cases "ids = []") (simp_all add: mark_failure_def option.map_ident
      status_update_rows [where P = "\<lambda>k t. k \<in> set ids \<and> t = OSending" and s = OPending])

lemma status_next_batch [simp]:
  "status_of (snd (next_batch limit now ob)) key =
     map_option (\<lambda>t. if key \<in> set (batch_ids limit now ob) then OSending else t) (status_of ob key)"
  by (simp add: next_batch_def Let_def
      status_update_rows [where P = "\<lambda>k t. k \<in> set (batch_ids limit now ob)" and s = OSending])

lemma status_append:
  "status_of (ob @ ob') key = (case status_of ob key of None \<Rightarrow> status_of ob' key | s \<Rightarrow> s)"
  by (cases "status_of ob key") (simp_all add: status_of_def map_add_def)

lemma status_None_iff: "status_of ob key = None \<longleftrightarrow> key \<notin> ob_id ` set ob"
  by (simp add: status_of_def map_of_eq_None_iff image_image)

lemma status_enqueue [simp]:
  "status_of (enqueue t i created_at ob) key =
     (if key = outbox_id t i then Some OPending else status_of ob key)"
proof (cases "outbox_id t i \<in> ob_id ` set ob")
  case True
  then have "list_ex (\<lambda>r. ob_id r = outbox_id t i) ob" by (auto simp: list_ex_iff)
  moreover have "status_of ob (outbox_id t i) \<noteq> None" using True by (simp add: status_None_iff)
  ultimately show ?thesis
    by (auto simp: enqueue_def Let_def option.map_ident
        status_update_rows [where P = "\<lambda>k s. k = outbox_id t i" and s = OPending])
next
  case False
  then have "\<not> list_ex (\<lambda>r. ob_id r = outbox_id t i) ob" by (force simp: list_ex_iff)
  moreover have "status_of ob (outbox_id t i) = None" using False by (simp add: status_None_iff)
  ultimately show ?thesis
    by (auto simp: enqueue_def Let_def status_append split: option.split) (simp add: status_of_def)+
qed

section \<open>Claiming a batch\<close>

lemma next_batch_ids:
  assumes "distinct (map ob_id ob)"
  shows "map ob_id (fst (next_batch limit now ob)) = batch_ids limit now ob"
proof -
  let ?K = "\<lambda>r. (ob_created_at r, ob_id r)" and ?ids = "batch_ids limit now ob"
  let ?B = "take limit (sort_key ?K (filter (due now) ob))"
  let ?A = "fst (next_batch limit now ob)"
  have inj: "inj_on ob_id (set ob)" using assms by (simp add: distinct_map)
  have sub: "set ?B \<subseteq> set ob" by (auto dest: in_set_takeD)
  have "map ?K ?A = map ?K ?B"
  proof (rule sorted_distinct_set_unique)
    show "sorted (map ?K ?A)" by (simp add: next_batch_def Let_def)
    show "sorted (map ?K ?B)" by (simp add: take_map [symmetric] sorted_wrt_take)
    have "distinct (map ob_id (map (\<lambda>r. r\<lparr>ob_status := OSending\<rparr>) (filter (\<lambda>r. ob_id r \<in> set ?ids) ob)))"
      using assms by (simp add: comp_def distinct_map_filter)
    then have "distinct (map ob_id ?A)" unfolding next_batch_def Let_def distinct_map by (simp add: distinct_map)
    then show "distinct (map ?K ?A)" unfolding distinct_map inj_on_def by blast
    have "distinct ?B" using assms by (simp add: distinct_map)
    then show "distinct (map ?K ?B)" using inj sub unfolding distinct_map inj_on_def by blast
    have "set (map ?K ?A) = ?K ` {r \<in> set ob. ob_id r \<in> set ?ids}"
      by (simp add: next_batch_def Let_def image_image)
    also have "{r \<in> set ob. ob_id r \<in> set ?ids} = set ?B"
      using inj sub unfolding batch_ids_def inj_on_def set_map image_iff by blast
    finally show "set (map ?K ?A) = set (map ?K ?B)" by simp
  qed
  then have "map snd (map ?K ?A) = map snd (map ?K ?B)" by simp
  then show ?thesis by (simp add: batch_ids_def comp_def)
qed

section \<open>Properties\<close>

text \<open>
  A poll claims the oldest due rows, at most \<open>limit\<close> of them, in the order of their creation
  (ties by key), and marks these rows and no other.
\<close>

theorem next_batch_oldest_first:
  assumes "distinct (map ob_id ob)" and "next_batch limit now ob = (batch, ob')"
  shows "map ob_id batch = take limit (map ob_id (sort_key (\<lambda>r. (ob_created_at r, ob_id r)) (filter (due now) ob))) \<and>
    ob' = update_rows (\<lambda>r. ob_id r \<in> ob_id ` set batch) (\<lambda>r. r\<lparr>ob_status := OSending\<rparr>) ob"
proof -
  have ids: "map ob_id batch = batch_ids limit now ob"
    using next_batch_ids [OF assms(1), of limit now] assms(2) by simp
  then have "set (batch_ids limit now ob) = ob_id ` set batch" by (metis set_map)
  then show ?thesis using ids assms(2) by (auto simp: next_batch_def Let_def batch_ids_def take_map)
qed

theorem next_batch_oldest_first_witness:
  "map ob_id (fst (next_batch 1 [9] (enqueue [2] [2] [5] (enqueue [1] [1] [7] [])))) = [outbox_id [2] [2]]"
  using next_batch_oldest_first [of "enqueue [2] [2] [5] (enqueue [1] [1] [7] [])" 1 "[9]"
      "fst (next_batch 1 [9] (enqueue [2] [2] [5] (enqueue [1] [1] [7] [])))"
      "snd (next_batch 1 [9] (enqueue [2] [2] [5] (enqueue [1] [1] [7] [])))"]
  by (simp add: enqueue_def outbox_id_def due_def)

end
