(* ===== verification/Sink_Worker.thy ===== *)
theory Sink_Worker
  imports Outbox
begin

text \<open>
  The worker that drains the outbox (\<^verbatim>\<open>src/runtime/logging/supabase_sink.rs\<close>), twice: as the
  functions of the source (\<open>process_one_batch\<close>, \<open>upload_group\<close>, \<open>roll_failure_window\<close>), and as a
  transition system in which each job the worker sends to the state store is one step and writes
  to source rows (which enqueue in their own transaction, \<^verbatim>\<open>persist_with_outbox\<close>) interleave with
  the jobs.  The environment may crash the worker, fail a job, and fail a send after any part of
  it has reached the remote.  A run of the functions is a run of the transition system.

  \<open>hydrate\<close> is a parameter: the row content after hydration and redaction, \<open>None\<close> when either fails.
  The live events the worker publishes are not part of the state.
\<close>

section \<open>Pure parts\<close>

datatype sink_error = SupabaseSinkHttp nat rstr | OtherError rstr

definition contains :: "rstr \<Rightarrow> rstr \<Rightarrow> bool" where
  [text_simps]: "contains s v \<longleftrightarrow> list_ex (\<lambda>i. take (length v) (drop i s) = v) [0..<Suc (length s)]"

definition classify_error :: "sink_error \<Rightarrow> bool \<times> rstr" where
  "classify_error err =
     (case err of
        SupabaseSinkHttp status body \<Rightarrow>
          ((400 \<le> status \<and> status < 500 \<and> status \<noteq> 429) \<or> (status = 0 \<and> contains body (lit ''kind: Db'')),
           lit ''HTTP '' @ show_nat status @ lit '': '' @ body)
      | OtherError message \<Rightarrow> (False, message))"

text \<open>The delay in seconds before the jitter is applied.\<close>

definition backoff_base :: "nat \<Rightarrow> nat" where
  "backoff_base attempts = min (min (2 ^ 64 - 1) (30 * 2 ^ min (attempts - 1) 7)) 3600"

definition next_backoff_interval :: "nat \<Rightarrow> nat" where
  "next_backoff_interval current =
     (let doubled = current * 2 in
      if 30000 < doubled then 30000 else if doubled < 1000 then 1000 else doubled)"

record failure_observation =
  window_count :: int
  window_last_error :: "rstr option"

definition record_failure_observation :: "nat \<Rightarrow> rstr \<Rightarrow> failure_observation \<Rightarrow> failure_observation" where
  "record_failure_observation failure_count error w =
     (if failure_count = 0 then w
      else w\<lparr>window_count := window_count w + int failure_count, window_last_error := Some error\<rparr>)"

text \<open>The groups of a batch, by source table, in the order of the tree map.\<close>

definition group_rows :: "outbox_row list \<Rightarrow> outbox_row list list" where
  "group_rows batch =
     map (\<lambda>t. filter (\<lambda>r. ob_source_table r = t) batch) (sort (remdups (map ob_source_table batch)))"

section \<open>The state\<close>

text \<open>
  The worker between two jobs: the rest of the groups, and of the group at hand its rows and what
  it still has to deliver, to acknowledge (its source is gone) and to park (it failed to hydrate).
\<close>

datatype 'c phase =
    Idle
  | Groups "outbox_row list list"
  | Hydrated "outbox_row list" "(rstr \<times> 'c) list" "rstr list" "rstr list" "outbox_row list list"
  | Parked "outbox_row list" "(rstr \<times> 'c) list" "rstr list" "outbox_row list list"
  | Acked "outbox_row list" "(rstr \<times> 'c) list" "outbox_row list list"
  | Sent "outbox_row list" "(rstr \<times> 'c) list" "outbox_row list list"
  | SendFailed "outbox_row list" "(rstr \<times> 'c) list" "outbox_row list list"

record 'c sink =
  sk_outbox :: outbox
  sk_source :: "rstr \<rightharpoonup> 'c"
  sk_remote :: "rstr \<rightharpoonup> 'c"
  sk_window :: failure_observation
  sk_phase :: "'c phase"

definition hydrate_payloads ::
  "(rstr \<Rightarrow> 'c \<Rightarrow> 'c option) \<Rightarrow> (rstr \<rightharpoonup> 'c) \<Rightarrow> outbox_row list \<Rightarrow> (rstr \<times> 'c) list" where
  "hydrate_payloads hydrate source rows =
     concat (map (\<lambda>r. case Option.bind (source (ob_id r)) (hydrate (ob_id r)) of
                        Some x \<Rightarrow> [(ob_id r, x)] | None \<Rightarrow> []) rows)"

definition hydrate_acked :: "(rstr \<rightharpoonup> 'c) \<Rightarrow> outbox_row list \<Rightarrow> rstr list" where
  "hydrate_acked source rows = map ob_id (filter (\<lambda>r. source (ob_id r) = None) rows)"

definition hydrate_failed ::
  "(rstr \<Rightarrow> 'c \<Rightarrow> 'c option) \<Rightarrow> (rstr \<rightharpoonup> 'c) \<Rightarrow> outbox_row list \<Rightarrow> rstr list" where
  "hydrate_failed hydrate source rows =
     map ob_id (filter (\<lambda>r. source (ob_id r) \<noteq> None \<and>
                            Option.bind (source (ob_id r)) (hydrate (ob_id r)) = None) rows)"

text \<open>The recover-and-claim job of \<^verbatim>\<open>process_one_batch\<close>; \<open>recovered\<close> is whether its first statement succeeded.\<close>

definition recover_job :: "bool \<Rightarrow> outbox \<Rightarrow> outbox" where
  "recover_job recovered ob = (if recovered then snd (recover_in_flight ob) else ob)"

definition claim_job :: "bool \<Rightarrow> nat \<Rightarrow> rstr \<Rightarrow> outbox \<Rightarrow> outbox_row list \<times> outbox" where
  "claim_job recovered limit now ob = next_batch limit now (recover_job recovered ob)"

definition batch_size :: nat where
  "batch_size = 128"

section \<open>The functions of the worker\<close>

text \<open>
  What the environment decides while one group is uploaded: whether each job of the state store
  succeeds, the result of the send and how much of a failed one was delivered, the clock,
  and the jitter.
\<close>

record upload_env =
  ue_read_ok :: bool
  ue_park_ok :: bool
  ue_ack_ok :: bool
  ue_mark_ok :: bool
  ue_job_error :: rstr
  ue_hydration_error :: rstr
  ue_send :: "sink_error option"
  ue_delivered :: nat
  ue_now :: rstr
  ue_offset_iso :: "nat \<Rightarrow> rstr"
  ue_jitter :: "nat \<Rightarrow> nat"

definition next_attempt_at :: "upload_env \<Rightarrow> sink_error \<Rightarrow> outbox_row list \<Rightarrow> rstr" where
  "next_attempt_at e err rows =
     (if fst (classify_error err) then ue_offset_iso e (24 * 3600)
      else ue_offset_iso e (ue_jitter e (backoff_base (foldr max (map ob_attempts rows) 0 + 1))))"

definition park_job :: "upload_env \<Rightarrow> rstr list \<Rightarrow> 'c sink \<Rightarrow> 'c sink" where
  "park_job e f sk =
     (if f = [] then sk
      else sk\<lparr>sk_outbox := mark_failure f (ue_hydration_error e) (ue_offset_iso e (24 * 3600)) (ue_now e) (sk_outbox sk),
              sk_window := record_failure_observation (length f) (ue_hydration_error e) (sk_window sk)\<rparr>)"

definition sent_job :: "upload_env \<Rightarrow> rstr list \<Rightarrow> 'c sink \<Rightarrow> 'c sink" where
  "sent_job e ids sk =
     (if ids = [] then sk else sk\<lparr>sk_outbox := mark_sent ids (ue_now e) (sk_outbox sk)\<rparr>)"

definition retry_job :: "upload_env \<Rightarrow> sink_error \<Rightarrow> outbox_row list \<Rightarrow> rstr list \<Rightarrow> 'c sink \<Rightarrow> 'c sink" where
  "retry_job e err rows ids sk =
     (if ids = [] then sk
      else sk\<lparr>sk_outbox := mark_failure ids (snd (classify_error err)) (next_attempt_at e err rows)
                (ue_now e) (sk_outbox sk)\<rparr>)"

text \<open>The result is the error text of a failed upload, and the state it leaves.\<close>

definition upload_group ::
  "upload_env \<Rightarrow> (rstr \<Rightarrow> 'c \<Rightarrow> 'c option) \<Rightarrow> outbox_row list \<Rightarrow> 'c sink \<Rightarrow> rstr option \<times> 'c sink" where
  "upload_group e hydrate rows sk =
     (if \<not> ue_read_ok e then (Some (ue_job_error e), sk)
      else let p = hydrate_payloads hydrate (sk_source sk) rows;
               a = hydrate_acked (sk_source sk) rows;
               f = hydrate_failed hydrate (sk_source sk) rows
      in if f \<noteq> [] \<and> \<not> ue_park_ok e then (Some (ue_job_error e), sk)
      else let sk1 = park_job e f sk
      in if a \<noteq> [] \<and> \<not> ue_ack_ok e then (Some (ue_job_error e), sk1)
      else let sk2 = sent_job e a sk1
      in case (if p = [] then None else ue_send e) of
           None \<Rightarrow>
             let sk3 = sk2\<lparr>sk_remote := sk_remote sk2 ++ map_of p\<rparr>
             in if p \<noteq> [] \<and> \<not> ue_mark_ok e then (Some (ue_job_error e), sk3)
                else (None, sent_job e (map fst p) sk3)
         | Some err \<Rightarrow>
             let sk3 = sk2\<lparr>sk_remote := sk_remote sk2 ++ map_of (take (ue_delivered e) p)\<rparr>
             in if \<not> ue_mark_ok e then (Some (ue_job_error e), sk3)
                else (Some (snd (classify_error err)), retry_job e err rows (map fst p) sk3))"

text \<open>One turn of the loop over the groups: a failed upload is counted with all its rows.\<close>

definition upload_and_count ::
  "upload_env \<Rightarrow> (rstr \<Rightarrow> 'c \<Rightarrow> 'c option) \<Rightarrow> outbox_row list \<Rightarrow> 'c sink \<Rightarrow> 'c sink" where
  "upload_and_count e hydrate rows sk =
     (case upload_group e hydrate rows sk of
        (None, sk') \<Rightarrow> sk'
      | (Some error, sk') \<Rightarrow>
          sk'\<lparr>sk_window := record_failure_observation (length rows) error (sk_window sk')\<rparr>)"

fun upload_groups ::
  "(nat \<Rightarrow> upload_env) \<Rightarrow> nat \<Rightarrow> (rstr \<Rightarrow> 'c \<Rightarrow> 'c option) \<Rightarrow> outbox_row list list \<Rightarrow> 'c sink \<Rightarrow> 'c sink" where
  "upload_groups uploads n hydrate [] sk = sk"
| "upload_groups uploads n hydrate (g # gs) sk =
     upload_groups uploads (Suc n) hydrate gs (upload_and_count (uploads n) hydrate g sk)"

record batch_env =
  be_recovered :: bool
  be_claimed :: bool
  be_now :: rstr
  be_uploads :: "nat \<Rightarrow> upload_env"

text \<open>\<open>be_uploads\<close> gives the environment of each group by its position in the batch.\<close>

definition process_one_batch ::
  "batch_env \<Rightarrow> (rstr \<Rightarrow> 'c \<Rightarrow> 'c option) \<Rightarrow> 'c sink \<Rightarrow> bool option \<times> 'c sink" where
  "process_one_batch e hydrate sk =
     (if \<not> be_claimed e then (None, sk\<lparr>sk_outbox := recover_job (be_recovered e) (sk_outbox sk)\<rparr>)
      else let (batch, ob) = claim_job (be_recovered e) batch_size (be_now e) (sk_outbox sk);
               sk1 = sk\<lparr>sk_outbox := ob\<rparr>
      in if batch = [] then (Some False, sk1)
         else (Some True, upload_groups (be_uploads e) 0 hydrate (group_rows batch) sk1))"

definition next_poll_interval :: "bool option \<Rightarrow> nat \<Rightarrow> nat" where
  "next_poll_interval processed poll_interval =
     (if processed = Some True then 1000 else next_backoff_interval poll_interval)"

text \<open>\<open>written\<close> is whether the job that records the window succeeds.\<close>

definition roll_failure_window ::
  "bool \<Rightarrow> rstr \<Rightarrow> rstr \<Rightarrow> failure_observation \<Rightarrow> failure_window list \<Rightarrow> failure_observation \<times> failure_window list" where
  "roll_failure_window written window_started_at now w summary =
     (\<lparr>window_count = 0, window_last_error = None\<rparr>,
      if 0 < window_count w \<and> written
      then record_failure_window window_started_at (window_count w)
             (case window_last_error w of Some e \<Rightarrow> e | None \<Rightarrow> []) now summary
      else summary)"

section \<open>The transition system\<close>

fun current_group :: "'c phase \<Rightarrow> (outbox_row list \<times> outbox_row list list) option" where
  "current_group Idle = None"
| "current_group (Groups []) = None"
| "current_group (Groups (g # gs)) = Some (g, gs)"
| "current_group (Hydrated g p a f gs) = Some (g, gs)"
| "current_group (Parked g p a gs) = Some (g, gs)"
| "current_group (Acked g p gs) = Some (g, gs)"
| "current_group (Sent g p gs) = Some (g, gs)"
| "current_group (SendFailed g p gs) = Some (g, gs)"

inductive sink_step :: "(rstr \<Rightarrow> 'c \<Rightarrow> 'c option) \<Rightarrow> 'c sink \<Rightarrow> 'c sink \<Rightarrow> bool"
  for hydrate :: "rstr \<Rightarrow> 'c \<Rightarrow> 'c option" where
  source_write:
    "sink_step hydrate sk (sk\<lparr>sk_source := (sk_source sk)(outbox_id t i \<mapsto> c),
       sk_outbox := enqueue t i created_at (sk_outbox sk)\<rparr>)"
| source_delete:
    "sink_step hydrate sk (sk\<lparr>sk_source := (sk_source sk)(key := None)\<rparr>)"
| claim_fails:
    "sk_phase sk = Idle \<Longrightarrow>
     sink_step hydrate sk (sk\<lparr>sk_outbox := recover_job recovered (sk_outbox sk)\<rparr>)"
| claim:
    "sk_phase sk = Idle \<Longrightarrow> claim_job recovered limit now (sk_outbox sk) = (batch, ob) \<Longrightarrow>
     sink_step hydrate sk (sk\<lparr>sk_outbox := ob,
       sk_phase := (if batch = [] then Idle else Groups (group_rows batch))\<rparr>)"
| hydrate_group:
    "sk_phase sk = Groups (g # gs) \<Longrightarrow>
     sink_step hydrate sk (sk\<lparr>sk_phase := Hydrated g (hydrate_payloads hydrate (sk_source sk) g)
       (hydrate_acked (sk_source sk) g) (hydrate_failed hydrate (sk_source sk) g) gs\<rparr>)"
| groups_done:
    "sk_phase sk = Groups [] \<Longrightarrow> sink_step hydrate sk (sk\<lparr>sk_phase := Idle\<rparr>)"
| park_failed:
    "sk_phase sk = Hydrated g p a f gs \<Longrightarrow>
     sink_step hydrate sk ((park_job e f sk)\<lparr>sk_phase := Parked g p a gs\<rparr>)"
| ack_deleted:
    "sk_phase sk = Parked g p a gs \<Longrightarrow>
     sink_step hydrate sk ((sent_job e a sk)\<lparr>sk_phase := Acked g p gs\<rparr>)"
| send_ok:
    "sk_phase sk = Acked g p gs \<Longrightarrow>
     sink_step hydrate sk (sk\<lparr>sk_remote := sk_remote sk ++ map_of p, sk_phase := Sent g p gs\<rparr>)"
| send_fails:
    "sk_phase sk = Acked g p gs \<Longrightarrow> p \<noteq> [] \<Longrightarrow> set q \<subseteq> set p \<Longrightarrow>
     sink_step hydrate sk (sk\<lparr>sk_remote := sk_remote sk ++ map_of q, sk_phase := SendFailed g p gs\<rparr>)"
| mark_delivered:
    "sk_phase sk = Sent g p gs \<Longrightarrow>
     sink_step hydrate sk ((sent_job e (map fst p) sk)\<lparr>sk_phase := Groups gs\<rparr>)"
| mark_retry:
    "sk_phase sk = SendFailed g p gs \<Longrightarrow>
     sink_step hydrate sk ((retry_job e err g (map fst p) sk)\<lparr>
       sk_window := record_failure_observation (length g) error (sk_window sk), sk_phase := Groups gs\<rparr>)"
| job_fails:
    "current_group (sk_phase sk) = Some (g, gs) \<Longrightarrow>
     sink_step hydrate sk (sk\<lparr>
       sk_window := record_failure_observation (length g) error (sk_window sk), sk_phase := Groups gs\<rparr>)"
| crash:
    "sink_step hydrate sk (sk\<lparr>sk_phase := Idle\<rparr>)"

definition sink_init :: "'c sink \<Rightarrow> bool" where
  "sink_init sk \<longleftrightarrow> sk_outbox sk = [] \<and> sk_source sk = Map.empty \<and> sk_phase sk = Idle"

lemma status_recover_job [simp]:
  "status_of (recover_job recovered ob) key =
     map_option (\<lambda>t. if recovered \<and> t = OSending then OPending else t) (status_of ob key)"
  by (cases recovered) (simp_all add: recover_job_def recover_in_flight_def option.map_ident
      status_update_rows [where P = "\<lambda>k t. t = OSending" and s = OPending])

section \<open>The invariant\<close>

text \<open>The remote has the current content of the row, or the row is gone.\<close>

definition synced :: "(rstr \<Rightarrow> 'c \<Rightarrow> 'c option) \<Rightarrow> 'c sink \<Rightarrow> rstr \<Rightarrow> bool" where
  "synced hydrate sk key \<longleftrightarrow> sk_source sk key = None \<or>
     (\<exists>x. Option.bind (sk_source sk key) (hydrate key) = Some x \<and> sk_remote sk key = Some x)"

text \<open>A row that has an entry which is not pending has not been written since it was claimed.\<close>

definition unwritten :: "'c sink \<Rightarrow> rstr \<Rightarrow> bool" where
  "unwritten sk key \<longleftrightarrow> status_of (sk_outbox sk) key \<in> {Some OSending, Some OSent}"

definition payload_ok :: "(rstr \<Rightarrow> 'c \<Rightarrow> 'c option) \<Rightarrow> 'c sink \<Rightarrow> (rstr \<times> 'c) list \<Rightarrow> bool" where
  "payload_ok hydrate sk p \<longleftrightarrow>
     (\<forall>key x. (key, x) \<in> set p \<longrightarrow> unwritten sk key \<longrightarrow>
        sk_source sk key = None \<or> Option.bind (sk_source sk key) (hydrate key) = Some x)"

definition acked_ok :: "'c sink \<Rightarrow> rstr list \<Rightarrow> bool" where
  "acked_ok sk a \<longleftrightarrow> (\<forall>key \<in> set a. unwritten sk key \<longrightarrow> sk_source sk key = None)"

definition delivered_ok :: "(rstr \<Rightarrow> 'c \<Rightarrow> 'c option) \<Rightarrow> 'c sink \<Rightarrow> (rstr \<times> 'c) list \<Rightarrow> bool" where
  "delivered_ok hydrate sk p \<longleftrightarrow> (\<forall>key \<in> set (map fst p). unwritten sk key \<longrightarrow> synced hydrate sk key)"

fun phase_ok :: "(rstr \<Rightarrow> 'c \<Rightarrow> 'c option) \<Rightarrow> 'c sink \<Rightarrow> 'c phase \<Rightarrow> bool" where
  "phase_ok hydrate sk (Hydrated g p a f gs) \<longleftrightarrow> payload_ok hydrate sk p \<and> acked_ok sk a"
| "phase_ok hydrate sk (Parked g p a gs) \<longleftrightarrow> payload_ok hydrate sk p \<and> acked_ok sk a"
| "phase_ok hydrate sk (Acked g p gs) \<longleftrightarrow> payload_ok hydrate sk p"
| "phase_ok hydrate sk (Sent g p gs) \<longleftrightarrow> delivered_ok hydrate sk p"
| "phase_ok hydrate sk (SendFailed g p gs) \<longleftrightarrow> True"
| "phase_ok hydrate sk (Groups gs) \<longleftrightarrow> True"
| "phase_ok hydrate sk Idle \<longleftrightarrow> True"

definition sent_ok :: "(rstr \<Rightarrow> 'c \<Rightarrow> 'c option) \<Rightarrow> 'c sink \<Rightarrow> bool" where
  "sent_ok hydrate sk \<longleftrightarrow> (\<forall>key. status_of (sk_outbox sk) key = Some OSent \<longrightarrow> synced hydrate sk key)"

definition sink_inv :: "(rstr \<Rightarrow> 'c \<Rightarrow> 'c option) \<Rightarrow> 'c sink \<Rightarrow> bool" where
  "sink_inv hydrate sk \<longleftrightarrow> (\<forall>key. sk_source sk key \<noteq> None \<longrightarrow> status_of (sk_outbox sk) key \<noteq> None) \<and>
     sent_ok hydrate sk \<and> phase_ok hydrate sk (sk_phase sk)"

lemmas sink_inv_defs = sink_inv_def sent_ok_def synced_def unwritten_def payload_ok_def acked_ok_def delivered_ok_def

lemma hydrate_payloads_in:
  "(key, x) \<in> set (hydrate_payloads hydrate source rows) \<longleftrightarrow>
   key \<in> ob_id ` set rows \<and> Option.bind (source key) (hydrate key) = Some x"
  by (force simp: hydrate_payloads_def split: option.splits)

lemma hydrate_payloads_keys:
  "key \<in> fst ` set (hydrate_payloads hydrate source rows) \<longleftrightarrow>
   key \<in> ob_id ` set rows \<and> Option.bind (source key) (hydrate key) \<noteq> None"
proof -
  have "key \<in> fst ` set (hydrate_payloads hydrate source rows) \<longleftrightarrow>
    (\<exists>x. (key, x) \<in> set (hydrate_payloads hydrate source rows))" by force
  then show ?thesis by (auto simp: hydrate_payloads_in)
qed

lemma hydrate_acked_in: "key \<in> set (hydrate_acked source rows) \<longleftrightarrow> key \<in> ob_id ` set rows \<and> source key = None"
  by (auto simp: hydrate_acked_def)

lemma hydrate_failed_in:
  "key \<in> set (hydrate_failed hydrate source rows) \<longleftrightarrow>
   key \<in> ob_id ` set rows \<and> source key \<noteq> None \<and> Option.bind (source key) (hydrate key) = None"
  by (auto simp: hydrate_failed_def)

lemma remote_keeps_sync:
  assumes "payload_ok hydrate sk p" and "set q \<subseteq> set p" and "synced hydrate sk key" and "unwritten sk key"
  shows "synced hydrate (sk\<lparr>sk_remote := sk_remote sk ++ map_of q, sk_phase := ph\<rparr>) key"
proof (cases "map_of q key")
  case None
  then show ?thesis using assms(3) by (simp add: synced_def map_add_def)
next
  case (Some x)
  then have "(key, x) \<in> set p" using map_of_SomeD assms(2) by fast
  then have "sk_source sk key = None \<or> Option.bind (sk_source sk key) (hydrate key) = Some x"
    using assms(1,4) by (simp add: payload_ok_def)
  then show ?thesis using Some by (auto simp: synced_def)
qed

lemma send_delivers:
  assumes "payload_ok hydrate sk p"
  shows "delivered_ok hydrate (sk\<lparr>sk_remote := sk_remote sk ++ map_of p, sk_phase := ph\<rparr>) p"
  unfolding delivered_ok_def
proof (intro ballI impI)
  fix key assume "key \<in> set (map fst p)" and un: "unwritten (sk\<lparr>sk_remote := sk_remote sk ++ map_of p, sk_phase := ph\<rparr>) key"
  then obtain x where x: "map_of p key = Some x" by (metis map_of_eq_None_iff option.exhaust set_map)
  then have "(key, x) \<in> set p" by (rule map_of_SomeD)
  then show "synced hydrate (sk\<lparr>sk_remote := sk_remote sk ++ map_of p, sk_phase := ph\<rparr>) key"
    using assms un x by (auto simp: payload_ok_def synced_def unwritten_def)
qed

lemma claim_status:
  "claim_job recovered limit now ob = (batch, ob') \<Longrightarrow>
   (status_of ob' key = Some OSent \<longrightarrow> status_of ob key = Some OSent) \<and> (status_of ob' key = None \<longleftrightarrow> status_of ob key = None)"
  by (auto simp: claim_job_def dest!: arg_cong [where f = snd] sym [of _ ob'] split: if_splits)

lemma sent_job_simps:
  "sk_source (sent_job e ids sk) = sk_source sk" "sk_remote (sent_job e ids sk) = sk_remote sk"
  "unwritten ((sent_job e ids sk)\<lparr>sk_phase := ph\<rparr>) key \<longleftrightarrow> unwritten sk key"
  "synced hydrate ((sent_job e ids sk)\<lparr>sk_phase := ph\<rparr>) key \<longleftrightarrow> synced hydrate sk key"
  by (auto simp: sent_job_def unwritten_def synced_def)

lemma sent_job_status:
  "status_of (sk_outbox (sent_job e ids sk)) key =
     map_option (\<lambda>t. if key \<in> set ids \<and> t = OSending then OSent else t) (status_of (sk_outbox sk) key)"
  by (auto simp: sent_job_def option.map_ident)

lemma sent_job_inv:
  assumes "sink_inv hydrate sk" and "\<And>key. key \<in> set ids \<Longrightarrow> unwritten sk key \<Longrightarrow> synced hydrate sk key"
  shows "sent_ok hydrate ((sent_job e ids sk)\<lparr>sk_phase := ph\<rparr>)"
  unfolding sent_ok_def sent_job_simps
proof (intro allI impI)
  fix key assume "status_of (sk_outbox ((sent_job e ids sk)\<lparr>sk_phase := ph\<rparr>)) key = Some OSent"
  then have "status_of (sk_outbox sk) key = Some OSent \<or> key \<in> set ids \<and> unwritten sk key"
    by (auto simp: sent_job_status unwritten_def split: if_splits)
  then show "synced hydrate sk key" using assms by (auto simp: sink_inv_def sent_ok_def)
qed

lemma sink_step_inv: "sink_inv hydrate sk \<Longrightarrow> sink_step hydrate sk sk' \<Longrightarrow> sink_inv hydrate sk'"
proof (rotate_tac, induction rule: sink_step.induct)
  case (source_write sk t i c created_at)
  then show ?case by (cases "sk_phase sk") (auto simp: sink_inv_defs)
next
  case (source_delete sk key)
  then show ?case by (cases "sk_phase sk") (auto simp: sink_inv_defs)
next
  case (claim_fails sk recovered)
  then show ?case by (auto simp: sink_inv_defs split: if_splits)
next
  case (claim sk recovered limit now batch ob)
  then show ?case using claim_status [OF claim(2)] by (simp add: sink_inv_defs)
next
  case (hydrate_group sk g gs)
  then show ?case by (auto simp: sink_inv_defs hydrate_payloads_in hydrate_acked_in)
next
  case (groups_done sk)
  then show ?case by (simp add: sink_inv_defs)
next
  case (park_failed sk g p a f gs e)
  then show ?case by (auto simp: sink_inv_defs park_job_def split: if_splits)
next
  case (ack_deleted sk g p a gs e)
  moreover have "\<And>key. key \<in> set a \<Longrightarrow> unwritten sk key \<Longrightarrow> synced hydrate sk key"
    using ack_deleted by (simp add: sink_inv_def acked_ok_def synced_def)
  ultimately show ?case
    using sent_job_inv [where hydrate = hydrate and sk = sk and ids = a and e = e and ph = "Acked g p gs"]
    by (simp add: sink_inv_def payload_ok_def sent_job_simps sent_job_status)
next
  case (send_ok sk g p gs)
  then show ?case
    using send_delivers [of hydrate sk p] remote_keeps_sync [of hydrate sk p p] 
    by (simp add: sink_inv_def sent_ok_def unwritten_def)
next
  case (send_fails sk g p gs q)
  then show ?case
    using remote_keeps_sync [of hydrate sk p q] 
    by (simp add: sink_inv_def sent_ok_def unwritten_def)
next
  case (mark_delivered sk g p gs e)
  moreover have "\<And>key. key \<in> set (map fst p) \<Longrightarrow> unwritten sk key \<Longrightarrow> synced hydrate sk key"
    using mark_delivered by (auto simp: sink_inv_def delivered_ok_def)
  ultimately show ?case
    using sent_job_inv [where hydrate = hydrate and sk = sk and ids = "map fst p" and e = e and ph = "Groups gs"]
    by (simp add: sink_inv_def sent_job_simps sent_job_status)
next
  case (mark_retry sk g p gs e err error)
  then show ?case by (auto simp: sink_inv_defs retry_job_def split: if_splits)
next
  case (job_fails sk g gs error)
  then show ?case by (simp add: sink_inv_defs)
next
  case (crash sk)
  then show ?case by (simp add: sink_inv_defs)
qed

interpretation sw: invariant_system sink_init "sink_step hydrate" "sink_inv hydrate" for hydrate
  by unfold_locales (simp add: sink_inv_defs sink_init_def status_of_def, erule (1) sink_step_inv)

section \<open>The functions run the transition system\<close>

lemma phase_commutes:
  "sk_phase (park_job e f sk) = sk_phase sk" "sk_phase (sent_job e ids sk) = sk_phase sk"
  "sk_phase (retry_job e err g ids sk) = sk_phase sk"
  "park_job e f (sk\<lparr>sk_phase := ph\<rparr>) = (park_job e f sk)\<lparr>sk_phase := ph\<rparr>"
  "sent_job e ids (sk\<lparr>sk_phase := ph\<rparr>) = (sent_job e ids sk)\<lparr>sk_phase := ph\<rparr>"
  "retry_job e err g ids (sk\<lparr>sk_phase := ph\<rparr>) = (retry_job e err g ids sk)\<lparr>sk_phase := ph\<rparr>"
  "sk_window (sent_job e ids sk) = sk_window sk" "sk_window (retry_job e err g ids sk) = sk_window sk"
  by (simp_all add: park_job_def sent_job_def retry_job_def)

lemma same_phase: "sk_phase sk = ph \<Longrightarrow> sk\<lparr>sk_phase := ph\<rparr> = sk"
  by (cases sk) simp

lemma upload_and_count_phase:
  "upload_and_count e hydrate g (sk\<lparr>sk_phase := ph\<rparr>) = (upload_and_count e hydrate g sk)\<lparr>sk_phase := ph\<rparr>"
  by (simp add: upload_and_count_def upload_group_def Let_def park_job_def sent_job_def retry_job_def split: option.split)

lemma upload_groups_phase:
  "upload_groups uploads n hydrate gs (sk\<lparr>sk_phase := ph\<rparr>) = (upload_groups uploads n hydrate gs sk)\<lparr>sk_phase := ph\<rparr>"
  by (induction gs arbitrary: n sk) (simp_all add: upload_and_count_phase)

lemma run_then_fails:
  assumes "(sink_step hydrate)\<^sup>*\<^sup>* sk (t\<lparr>sk_phase := ph\<rparr>)" and "current_group ph = Some (g, gs)"
  shows "(sink_step hydrate)\<^sup>*\<^sup>* sk
           (t\<lparr>sk_window := record_failure_observation (length g) error (sk_window t), sk_phase := Groups gs\<rparr>)"
  using rtranclp.rtrancl_into_rtrancl [OF assms(1) sink_step.job_fails [where g = g and gs = gs and error = error]] assms(2)
  by simp

lemma upload_and_count_run:
  assumes "sk_phase sk = Groups (g # gs)"
  shows "(sink_step hydrate)\<^sup>*\<^sup>* sk ((upload_and_count e hydrate g sk)\<lparr>sk_phase := Groups gs\<rparr>)"
proof -
  define p where "p = hydrate_payloads hydrate (sk_source sk) g"
  define a where "a = hydrate_acked (sk_source sk) g"
  define f where "f = hydrate_failed hydrate (sk_source sk) g"
  define sk1 where "sk1 = park_job e f sk"
  define sk2 where "sk2 = sent_job e a sk1"
  define delivered where "delivered q = sk2\<lparr>sk_remote := sk_remote sk2 ++ map_of q\<rparr>" for q
  define failed where "failed error t = t\<lparr>sk_window := record_failure_observation (length g) error (sk_window t)\<rparr>"
    for error and t :: "'a sink"
  have fails: "(sink_step hydrate)\<^sup>*\<^sup>* sk ((failed (ue_job_error e) t)\<lparr>sk_phase := Groups gs\<rparr>)"
    if "(sink_step hydrate)\<^sup>*\<^sup>* sk (t\<lparr>sk_phase := ph\<rparr>)" "current_group ph = Some (g, gs)" for t ph
    using run_then_fails [OF that] by (simp add: failed_def)
  have r0: "(sink_step hydrate)\<^sup>*\<^sup>* sk (sk\<lparr>sk_phase := Groups (g # gs)\<rparr>)" using assms by (simp add: same_phase)
  have r1: "(sink_step hydrate)\<^sup>*\<^sup>* sk (sk\<lparr>sk_phase := Hydrated g p a f gs\<rparr>)"
    using sink_step.hydrate_group [OF assms] unfolding p_def a_def f_def by blast
  have r2: "(sink_step hydrate)\<^sup>*\<^sup>* sk (sk1\<lparr>sk_phase := Parked g p a gs\<rparr>)"
    using rtranclp.rtrancl_into_rtrancl [OF r1 sink_step.park_failed [where e = e]]
    by (simp add: sk1_def phase_commutes)
  have r3: "(sink_step hydrate)\<^sup>*\<^sup>* sk (sk2\<lparr>sk_phase := Acked g p gs\<rparr>)"
    using rtranclp.rtrancl_into_rtrancl [OF r2 sink_step.ack_deleted [where e = e]]
    by (simp add: sk2_def phase_commutes)
  have r4: "(sink_step hydrate)\<^sup>*\<^sup>* sk ((delivered p)\<lparr>sk_phase := Sent g p gs\<rparr>)"
    using rtranclp.rtrancl_into_rtrancl [OF r3 sink_step.send_ok] by (simp add: delivered_def)
  have r5: "(sink_step hydrate)\<^sup>*\<^sup>* sk ((delivered q)\<lparr>sk_phase := SendFailed g p gs\<rparr>)" if "p \<noteq> []" "set q \<subseteq> set p" for q
    using rtranclp.rtrancl_into_rtrancl [OF r3 sink_step.send_fails] that by (simp add: delivered_def)
  have r6: "(sink_step hydrate)\<^sup>*\<^sup>* sk ((sent_job e (map fst p) (delivered p))\<lparr>sk_phase := Groups gs\<rparr>)"
    using rtranclp.rtrancl_into_rtrancl [OF r4 sink_step.mark_delivered [where e = e]]
    by (simp add: phase_commutes)
  have r7: "(sink_step hydrate)\<^sup>*\<^sup>* sk ((failed error (retry_job e err g (map fst p) (delivered q)))\<lparr>sk_phase := Groups gs\<rparr>)"
    if "p \<noteq> []" "set q \<subseteq> set p" for q err error
    using rtranclp.rtrancl_into_rtrancl [OF r5 [OF that] sink_step.mark_retry [where e = e and err = err and error = error]]
    by (simp add: phase_commutes failed_def)
  have "upload_and_count e hydrate g sk =
    (if \<not> ue_read_ok e \<or> f \<noteq> [] \<and> \<not> ue_park_ok e then failed (ue_job_error e) sk
     else if a \<noteq> [] \<and> \<not> ue_ack_ok e then failed (ue_job_error e) sk1
     else case (if p = [] then None else ue_send e) of
       None \<Rightarrow> if p \<noteq> [] \<and> \<not> ue_mark_ok e then failed (ue_job_error e) (delivered p)
               else sent_job e (map fst p) (delivered p)
     | Some err \<Rightarrow> if \<not> ue_mark_ok e then failed (ue_job_error e) (delivered (take (ue_delivered e) p))
               else failed (snd (classify_error err)) (retry_job e err g (map fst p) (delivered (take (ue_delivered e) p))))"
    by (simp add: upload_and_count_def upload_group_def Let_def p_def a_def f_def sk1_def sk2_def delivered_def failed_def
        split: option.split)
  then show ?thesis
    using fails [OF r0] fails [OF r2] fails [OF r4] r6
      fails [OF r5 [OF _ set_take_subset [of "ue_delivered e"]]] r7 [OF _ set_take_subset [of "ue_delivered e"]]
    by (cases "p = []") (simp_all split: option.split)
qed

lemma upload_groups_run:
  "sk_phase sk = Groups gs \<Longrightarrow>
   (sink_step hydrate)\<^sup>*\<^sup>* sk ((upload_groups uploads n hydrate gs sk)\<lparr>sk_phase := Groups []\<rparr>)"
proof (induction gs arbitrary: n sk)
  case Nil
  then show ?case by (simp add: same_phase)
next
  case (Cons g gs)
  define sk' where "sk' = (upload_and_count (uploads n) hydrate g sk)\<lparr>sk_phase := Groups gs\<rparr>"
  have "(sink_step hydrate)\<^sup>*\<^sup>* sk sk'" using upload_and_count_run [OF Cons.prems] by (simp add: sk'_def)
  moreover have "(sink_step hydrate)\<^sup>*\<^sup>* sk' ((upload_groups uploads (Suc n) hydrate gs sk')\<lparr>sk_phase := Groups []\<rparr>)"
    by (rule Cons.IH) (simp add: sk'_def)
  ultimately show ?case by (simp add: sk'_def upload_groups_phase)
qed

lemma process_one_batch_run:
  assumes "sk_phase sk = Idle"
  shows "(sink_step hydrate)\<^sup>*\<^sup>* sk (snd (process_one_batch e hydrate sk))"
proof (cases "be_claimed e")
  case False
  then show ?thesis
    using sink_step.claim_fails [OF assms, where recovered = "be_recovered e"] by (auto simp: process_one_batch_def)
next
  case True
  obtain batch ob where c: "claim_job (be_recovered e) batch_size (be_now e) (sk_outbox sk) = (batch, ob)"
    by fastforce
  note claimed = sink_step.claim [OF assms c, where hydrate = hydrate]
  show ?thesis
  proof (cases "batch = []")
    case True
    with \<open>be_claimed e\<close> claimed c show ?thesis
      using same_phase [of "sk\<lparr>sk_outbox := ob\<rparr>" Idle] assms by (simp add: process_one_batch_def)
  next
    case False
    define sk1 where "sk1 = sk\<lparr>sk_outbox := ob\<rparr>"
    define sk2 where "sk2 = upload_groups (be_uploads e) 0 hydrate (group_rows batch) sk1"
    have idle: "sk_phase sk1 = Idle" using assms by (simp add: sk1_def)
    have "(sink_step hydrate)\<^sup>*\<^sup>* sk (sk1\<lparr>sk_phase := Groups (group_rows batch)\<rparr>)"
      using claimed False by (simp add: sk1_def r_into_rtranclp)
    also have "(sink_step hydrate)\<^sup>*\<^sup>* \<dots> (sk2\<lparr>sk_phase := Groups []\<rparr>)"
      using upload_groups_run [of "sk1\<lparr>sk_phase := Groups (group_rows batch)\<rparr>" "group_rows batch" hydrate "be_uploads e" 0]
      by (simp add: upload_groups_phase sk2_def)
    also have "sink_step hydrate \<dots> (sk2\<lparr>sk_phase := Idle\<rparr>)"
      using sink_step.groups_done [of "sk2\<lparr>sk_phase := Groups []\<rparr>"] by simp
    also have "sk2\<lparr>sk_phase := Idle\<rparr> = sk2"
      unfolding sk2_def upload_groups_phase [symmetric] same_phase [OF idle] ..
    finally show ?thesis using \<open>be_claimed e\<close> False c by (simp add: process_one_batch_def sk1_def sk2_def)
  qed
qed


section \<open>Progress\<close>

definition env_ok :: "upload_env \<Rightarrow> bool" where
  "env_ok e \<longleftrightarrow> ue_read_ok e \<and> ue_park_ok e \<and> ue_ack_ok e \<and> ue_mark_ok e \<and> ue_send e = None"

definition deliverable :: "(rstr \<Rightarrow> 'c \<Rightarrow> 'c option) \<Rightarrow> (rstr \<rightharpoonup> 'c) \<Rightarrow> rstr \<Rightarrow> bool" where
  "deliverable hydrate source key \<longleftrightarrow>
     source key = None \<or> Option.bind (source key) (hydrate key) \<noteq> None"

lemma upload_ok_status:
  assumes "env_ok e" and "deliverable hydrate (sk_source sk) key"
  shows "status_of (sk_outbox (upload_and_count e hydrate g sk)) key =
    map_option (\<lambda>t. if key \<in> ob_id ` set g \<and> t = OSending then OSent else t) (status_of (sk_outbox sk) key)"
    and "sk_source (upload_and_count e hydrate g sk) = sk_source sk"
proof -
  let ?p = "hydrate_payloads hydrate (sk_source sk) g" and ?a = "hydrate_acked (sk_source sk) g"
    and ?f = "hydrate_failed hydrate (sk_source sk) g"
  have eq: "upload_and_count e hydrate g sk = sent_job e (map fst ?p)
      ((sent_job e ?a (park_job e ?f sk))\<lparr>sk_remote := sk_remote (sent_job e ?a (park_job e ?f sk)) ++ map_of ?p\<rparr>)"
    using assms(1) by (simp add: upload_and_count_def upload_group_def Let_def env_ok_def)
  show "sk_source (upload_and_count e hydrate g sk) = sk_source sk"
    unfolding eq by (simp add: sent_job_def park_job_def)
  have parts: "key \<notin> set ?f" "key \<in> fst ` set ?p \<or> key \<in> set ?a \<longleftrightarrow> key \<in> ob_id ` set g"
    using assms(2) by (auto simp: hydrate_failed_in hydrate_acked_in hydrate_payloads_keys deliverable_def)
  show "status_of (sk_outbox (upload_and_count e hydrate g sk)) key =
    map_option (\<lambda>t. if key \<in> ob_id ` set g \<and> t = OSending then OSent else t) (status_of (sk_outbox sk) key)"
    unfolding eq using parts
    by (cases "status_of (sk_outbox sk) key") (auto simp: sent_job_status park_job_def)
qed


lemma upload_groups_ok_status:
  assumes "\<And>i. env_ok (uploads i)" and "deliverable hydrate (sk_source sk) key"
  shows "status_of (sk_outbox (upload_groups uploads n hydrate gs sk)) key =
    map_option (\<lambda>t. if (\<exists>g \<in> set gs. key \<in> ob_id ` set g) \<and> t = OSending then OSent else t)
      (status_of (sk_outbox sk) key)"
  using assms(2)
proof (induction gs arbitrary: n sk)
  case Nil
  then show ?case by (simp add: option.map_ident)
next
  case (Cons g gs)
  then show ?case
    using upload_ok_status [OF assms(1) Cons.prems, of n g]
    by (cases "status_of (sk_outbox sk) key") auto
qed

lemma group_rows_all: "(\<exists>g \<in> set (group_rows batch). key \<in> ob_id ` set g) \<longleftrightarrow> key \<in> ob_id ` set batch"
  by (force simp: group_rows_def)

lemma batch_of_claim:
  assumes "r \<in> set (recover_job recovered ob)" and "due now r"
    and "length (filter (due now) (recover_job recovered ob)) \<le> limit"
  shows "ob_id r \<in> ob_id ` set (fst (claim_job recovered limit now ob))"
    and "status_of (snd (claim_job recovered limit now ob)) (ob_id r) = Some OSending"
proof -
  have in_ids: "ob_id r \<in> set (batch_ids limit now (recover_job recovered ob))"
    using assms by (simp add: batch_ids_def)
  then show "ob_id r \<in> ob_id ` set (fst (claim_job recovered limit now ob))"
    using assms(1) by (auto simp: claim_job_def next_batch_def Let_def image_image)
  have "status_of (recover_job recovered ob) (ob_id r) \<noteq> None"
    using assms(1) by (simp add: status_None_iff del: status_recover_job)
  then show "status_of (snd (claim_job recovered limit now ob)) (ob_id r) = Some OSending"
    using in_ids unfolding claim_job_def status_next_batch by (auto simp del: status_recover_job)
qed

lemma process_one_batch_delivers:
  assumes "be_claimed e" and "\<And>i. env_ok (be_uploads e i)"
    and "r \<in> set (recover_job (be_recovered e) (sk_outbox sk))" and "due (be_now e) r"
    and "length (filter (due (be_now e)) (recover_job (be_recovered e) (sk_outbox sk))) \<le> batch_size"
    and "deliverable hydrate (sk_source sk) (ob_id r)"
  shows "status_of (sk_outbox (snd (process_one_batch e hydrate sk))) (ob_id r) = Some OSent"
proof -
  obtain batch ob where c: "claim_job (be_recovered e) batch_size (be_now e) (sk_outbox sk) = (batch, ob)"
    by fastforce
  have "ob_id r \<in> ob_id ` set batch" "status_of ob (ob_id r) = Some OSending"
    using batch_of_claim [OF assms(3,4,5)] c by simp_all
  then show ?thesis
    using assms(1) c upload_groups_ok_status [of "be_uploads e" hydrate "sk\<lparr>sk_outbox := ob\<rparr>" "ob_id r" 0 "group_rows batch"]
      assms(2,6) by (auto simp: process_one_batch_def group_rows_all Let_def)
qed


section \<open>Properties\<close>


definition ok_env :: upload_env where
  "ok_env = \<lparr>ue_read_ok = True, ue_park_ok = True, ue_ack_ok = True, ue_mark_ok = True, ue_job_error = [],
     ue_hydration_error = [], ue_send = None, ue_delivered = 0, ue_now = [], ue_offset_iso = (\<lambda>_. []), ue_jitter = (\<lambda>n. n)\<rparr>"

definition ok_batch :: batch_env where
  "ok_batch = \<lparr>be_recovered = True, be_claimed = True, be_now = [], be_uploads = (\<lambda>_. ok_env)\<rparr>"

definition empty_sink :: "nat sink" where
  "empty_sink = \<lparr>sk_outbox = [], sk_source = Map.empty, sk_remote = Map.empty,
     sk_window = \<lparr>window_count = 0, window_last_error = None\<rparr>, sk_phase = Idle\<rparr>"

text \<open>One event written to an empty store.\<close>

definition one_event :: "nat sink" where
  "one_event = empty_sink\<lparr>sk_source := [outbox_id (lit ''events'') (lit ''e'') \<mapsto> 7],
     sk_outbox := enqueue (lit ''events'') (lit ''e'') [] []\<rparr>"

lemma one_event_reachable: "reachable sink_init (sink_step hydrate) one_event"
proof -
  have "sink_step hydrate empty_sink one_event"
    using sink_step.source_write [where sk = empty_sink and t = "lit ''events''" and i = "lit ''e''" and c = 7 and created_at = "[]"]
    by (simp add: one_event_def empty_sink_def)
  then show ?thesis by (rule reachable_step [rotated]) (simp add: reachable_init sink_init_def empty_sink_def)
qed


text \<open>
  C20: One poll cycle of the worker, with any outcome of its jobs and of the send, is a run of
  the transition system.
\<close>

theorem process_one_batch_refines:
  "sk_phase sk = Idle \<Longrightarrow> (sink_step hydrate)\<^sup>*\<^sup>* sk (snd (process_one_batch e hydrate sk))"
  by (rule process_one_batch_run)

theorem process_one_batch_refines_witness:
  "(sink_step (\<lambda>_. Some))\<^sup>*\<^sup>* one_event (snd (process_one_batch ok_batch (\<lambda>_. Some) one_event))"
  by (rule process_one_batch_refines) (simp add: one_event_def empty_sink_def)

text \<open>
  C21: A poll cycle makes progress.  When the jobs and the send of the cycle succeed, every row
  that is due within one batch, and whose content can be hydrated, is marked sent and is on the
  remote afterwards.
\<close>

theorem process_one_batch_progress:
  assumes "reachable sink_init (sink_step hydrate) sk" and "sk_phase sk = Idle"
    and "be_claimed e" and "\<forall>i. env_ok (be_uploads e i)"
    and "r \<in> set (recover_job (be_recovered e) (sk_outbox sk))" and "due (be_now e) r"
    and "length (filter (due (be_now e)) (recover_job (be_recovered e) (sk_outbox sk))) \<le> batch_size"
    and "deliverable hydrate (sk_source sk) (ob_id r)"
  shows "status_of (sk_outbox (snd (process_one_batch e hydrate sk))) (ob_id r) = Some OSent \<and>
    synced hydrate (snd (process_one_batch e hydrate sk)) (ob_id r)"
proof -
  have "sink_inv hydrate (snd (process_one_batch e hydrate sk))"
    using sw.steps_inv [OF process_one_batch_run [OF assms(2)]] sw.reachable_inv [OF assms(1)] .
  then show ?thesis
    using process_one_batch_delivers [OF assms(3) _ assms(5-8)] assms(4) by (simp add: sink_inv_def sent_ok_def)
qed

theorem process_one_batch_progress_witness:
  "status_of (sk_outbox (snd (process_one_batch ok_batch (\<lambda>_. Some) one_event))) (outbox_id (lit ''events'') (lit ''e'')) = Some OSent \<and>
   synced (\<lambda>_. Some) (snd (process_one_batch ok_batch (\<lambda>_. Some) one_event)) (outbox_id (lit ''events'') (lit ''e''))"
proof -
  have "recover_job True (sk_outbox one_event) = sk_outbox one_event"
    by (simp add: recover_job_def recover_in_flight_def one_event_def enqueue_def update_rows_def)
  then show ?thesis
    using process_one_batch_progress [OF one_event_reachable, where e = ok_batch and r = "hd (sk_outbox one_event)" and hydrate = "\<lambda>_. Some"]
    by (simp add: ok_batch_def env_ok_def ok_env_def one_event_def empty_sink_def enqueue_def due_def batch_size_def
        deliverable_def)
qed

end
