(* ===== verification/Permission_Store.thy ===== *)
theory Permission_Store
  imports Outbox
begin

text \<open>
  The durable side of permissions (\<^verbatim>\<open>src/state/permissions.rs\<close>): requests, decisions, the change
  feed of sessions (\<^verbatim>\<open>src/state/sessions/changes.rs\<close>) and the delivery outbox, written together in one
  transaction each.

  A transaction that fails leaves the store as it was; \<open>db\<close> is whether the database accepts it.
  Keys and timestamps come from the caller, and an insert whose key exists fails as the primary key
  demands.  \<open>json_valid\<close> is the database's own function, a parameter.

  The audit trail is the invariant: a request has exactly one decision once it is settled, with the
  status of the request, and none before.
\<close>

section \<open>Rows\<close>

datatype permission_status = PPending | PApproved | PDenied | PExpired | PCanceled

fun as_str :: "permission_status \<Rightarrow> rstr" where
  "as_str PPending = lit ''pending''"
| "as_str PApproved = lit ''approved''"
| "as_str PDenied = lit ''denied''"
| "as_str PExpired = lit ''expired''"
| "as_str PCanceled = lit ''cancelled''"

definition is_terminal :: "permission_status \<Rightarrow> bool" where
  "is_terminal s \<longleftrightarrow> s \<noteq> PPending"

definition from_wire :: "rstr \<Rightarrow> permission_status" where
  "from_wire w =
     (if w = lit ''approved'' then PApproved
      else if w = lit ''denied'' then PDenied
      else if w = lit ''expired'' then PExpired
      else if w = lit ''cancelled'' then PCanceled
      else PPending)"

record permission_request =
  pr_id :: rstr
  pr_created_at :: rstr
  pr_updated_at :: rstr
  pr_status :: rstr
  pr_source :: rstr
  pr_requester :: "rstr option"
  pr_subject_id :: "rstr option"
  pr_detail_json :: rstr
  pr_expires_at :: "rstr option"

record new_permission_request =
  np_source :: rstr
  np_requester :: "rstr option"
  np_subject_id :: "rstr option"
  np_detail_json :: rstr
  np_expires_at :: "rstr option"

record permission_decision =
  pd_id :: rstr
  pd_request_id :: rstr
  pd_created_at :: rstr
  pd_decision :: rstr
  pd_deciding_principal :: "rstr option"
  pd_reason :: "rstr option"

record session_row =
  se_id :: rstr
  se_target_id :: rstr
  se_agent_session_id :: rstr
  se_created_at :: rstr
  se_updated_at :: rstr
  se_status :: rstr
  se_agent_id :: rstr
  se_cwd :: rstr
  se_title :: "rstr option"
  se_metadata_json :: rstr
  se_change_seq :: nat

record pstore =
  ps_requests :: "permission_request list"
  ps_decisions :: "permission_decision list"
  ps_sessions :: "session_row list"
  ps_change_seq :: nat
  ps_outbox :: outbox
  ps_external :: bool

section \<open>Operations\<close>

definition bump_session_change :: "rstr \<Rightarrow> pstore \<Rightarrow> pstore" where
  "bump_session_change session_id st =
     (if list_ex (\<lambda>r. se_id r = session_id) (ps_sessions st)
      then st\<lparr>ps_change_seq := ps_change_seq st + 1,
              ps_sessions := update_rows (\<lambda>r. se_id r = session_id)
                (\<lambda>r. r\<lparr>se_change_seq := ps_change_seq st + 1\<rparr>) (ps_sessions st)\<rparr>
      else st)"

definition find_request :: "rstr \<Rightarrow> pstore \<Rightarrow> permission_request option" where
  "find_request key st = find (\<lambda>r. pr_id r = key) (ps_requests st)"

definition bump_acp_permission_session :: "rstr \<Rightarrow> pstore \<Rightarrow> pstore" where
  "bump_acp_permission_session request_id st =
     (case find (\<lambda>r. pr_id r = request_id \<and> pr_source r = lit ''acp'') (ps_requests st) of
        Some r \<Rightarrow> (case pr_subject_id r of Some session_id \<Rightarrow> bump_session_change session_id st | None \<Rightarrow> st)
      | None \<Rightarrow> st)"

definition log_row :: "rstr \<Rightarrow> rstr \<Rightarrow> rstr \<Rightarrow> pstore \<Rightarrow> pstore" where
  "log_row source_table source_id created_at st =
     (if ps_external st then st\<lparr>ps_outbox := enqueue source_table source_id created_at (ps_outbox st)\<rparr> else st)"

definition has_request :: "rstr \<Rightarrow> pstore \<Rightarrow> bool" where
  "has_request key st \<longleftrightarrow> key \<in> pr_id ` set (ps_requests st)"

definition has_decision :: "rstr \<Rightarrow> pstore \<Rightarrow> bool" where
  "has_decision key st \<longleftrightarrow> key \<in> pd_id ` set (ps_decisions st)"

definition new_request :: "rstr \<Rightarrow> rstr \<Rightarrow> permission_status \<Rightarrow> new_permission_request \<Rightarrow> permission_request" where
  "new_request key now status input =
     \<lparr>pr_id = key, pr_created_at = now, pr_updated_at = now, pr_status = as_str status,
      pr_source = np_source input, pr_requester = np_requester input, pr_subject_id = np_subject_id input,
      pr_detail_json = np_detail_json input, pr_expires_at = np_expires_at input\<rparr>"

definition append_permission_request ::
  "(rstr \<Rightarrow> bool) \<Rightarrow> bool \<Rightarrow> rstr \<Rightarrow> rstr \<Rightarrow> new_permission_request \<Rightarrow> pstore \<Rightarrow> permission_request result \<times> pstore" where
  "append_permission_request json_valid db key now input st =
     (if \<not> json_valid (np_detail_json input) then (Err InvalidEventPayload, st)
      else if \<not> db \<or> has_request key st then (Err StateAccessFailed, st)
      else let r = new_request key now PPending input in
        (Ok r, log_row (lit ''permission_requests'') key now
          (bump_acp_permission_session key (st\<lparr>ps_requests := ps_requests st @ [r]\<rparr>))))"

definition append_approved_permission_request ::
  "(rstr \<Rightarrow> bool) \<Rightarrow> bool \<Rightarrow> rstr \<Rightarrow> rstr \<Rightarrow> rstr \<Rightarrow> new_permission_request \<Rightarrow> rstr option \<Rightarrow> rstr option \<Rightarrow> pstore
     \<Rightarrow> (permission_request \<times> permission_decision) result \<times> pstore" where
  "append_approved_permission_request json_valid db key decision_key now input deciding_principal reason st =
     (if \<not> json_valid (np_detail_json input) then (Err InvalidEventPayload, st)
      else if \<not> db \<or> has_request key st \<or> has_decision decision_key st then (Err StateAccessFailed, st)
      else let r = (new_request key now PApproved input)\<lparr>pr_expires_at := None\<rparr>;
               d = \<lparr>pd_id = decision_key, pd_request_id = key, pd_created_at = now,
                    pd_decision = as_str PApproved, pd_deciding_principal = deciding_principal, pd_reason = reason\<rparr>
        in (Ok (r, d),
            log_row (lit ''permission_decisions'') decision_key now
              (log_row (lit ''permission_requests'') key now
                (bump_acp_permission_session key
                  (st\<lparr>ps_requests := ps_requests st @ [r], ps_decisions := ps_decisions st @ [d]\<rparr>)))))"

definition set_status :: "rstr \<Rightarrow> permission_status \<Rightarrow> rstr \<Rightarrow> pstore \<Rightarrow> pstore" where
  "set_status key status now st =
     st\<lparr>ps_requests := update_rows (\<lambda>r. pr_id r = key)
          (\<lambda>r. r\<lparr>pr_status := as_str status, pr_updated_at := now\<rparr>) (ps_requests st)\<rparr>"

definition add_decision :: "permission_decision \<Rightarrow> pstore \<Rightarrow> pstore" where
  "add_decision d st = st\<lparr>ps_decisions := ps_decisions st @ [d]\<rparr>"

text \<open>\<open>decided_at\<close> is the second reading of the clock, for the decision row.\<close>

definition decide_permission ::
  "bool \<Rightarrow> rstr \<Rightarrow> rstr \<Rightarrow> rstr \<Rightarrow> rstr \<Rightarrow> permission_status \<Rightarrow> rstr option \<Rightarrow> rstr option \<Rightarrow> pstore
     \<Rightarrow> permission_decision result \<times> pstore" where
  "decide_permission db decision_key now decided_at key new_status deciding_principal reason st =
     (if \<not> db then (Err StateAccessFailed, st)
      else case find_request key st of
        None \<Rightarrow> (Err (PermissionNotFound key), st)
      | Some r \<Rightarrow>
          if is_terminal (from_wire (pr_status r))
          then (Err (InvalidPermissionTransition key (as_str (from_wire (pr_status r))) (as_str new_status)), st)
          else if has_decision decision_key st then (Err StateAccessFailed, st)
          else let d = \<lparr>pd_id = decision_key, pd_request_id = key, pd_created_at = decided_at,
                        pd_decision = as_str new_status, pd_deciding_principal = deciding_principal,
                        pd_reason = reason\<rparr>
            in (Ok d,
                log_row (lit ''permission_decisions'') decision_key decided_at
                  (log_row (lit ''permission_requests'') key now
                    (add_decision d (bump_acp_permission_session key (set_status key new_status now st))))))"

section \<open>Queries\<close>

definition pending_rows :: "(permission_request \<Rightarrow> bool) \<Rightarrow> nat \<Rightarrow> pstore \<Rightarrow> permission_request list" where
  "pending_rows p limit st =
     take limit (sort_key (\<lambda>r. (pr_created_at r, pr_id r))
       (filter (\<lambda>r. pr_status r = lit ''pending'' \<and> p r) (ps_requests st)))"

definition query_pending_permissions :: "nat \<Rightarrow> pstore \<Rightarrow> permission_request list" where
  "query_pending_permissions limit st = pending_rows (\<lambda>_. True) limit st"

definition query_pending_permissions_for_subject :: "rstr \<Rightarrow> rstr \<Rightarrow> nat \<Rightarrow> pstore \<Rightarrow> permission_request list" where
  "query_pending_permissions_for_subject source subject_id limit st =
     pending_rows (\<lambda>r. pr_source r = source \<and> pr_subject_id r = Some subject_id) limit st"

section \<open>The sweep at startup\<close>

definition pending_ids :: "rstr \<Rightarrow> pstore \<Rightarrow> rstr list" where
  "pending_ids source st =
     map pr_id (filter (\<lambda>r. pr_status r = lit ''pending'' \<and> pr_source r = source) (ps_requests st))"

definition orphan_decision :: "rstr \<Rightarrow> rstr \<Rightarrow> permission_status \<Rightarrow> rstr \<Rightarrow> permission_decision" where
  "orphan_decision decision_key key status now =
     \<lparr>pd_id = decision_key, pd_request_id = key, pd_created_at = now, pd_decision = as_str status,
      pd_deciding_principal = Some (lit ''system''), pd_reason = Some (lit ''daemon-restart'')\<rparr>"

definition settle_orphan :: "rstr \<Rightarrow> permission_status \<Rightarrow> rstr \<Rightarrow> rstr \<Rightarrow> pstore \<Rightarrow> pstore" where
  "settle_orphan decision_key status now key st =
     log_row (lit ''permission_decisions'') decision_key now
       (log_row (lit ''permission_requests'') key now
         (add_decision (orphan_decision decision_key key status now)
           (if status = PCanceled then bump_acp_permission_session key (set_status key status now st)
            else set_status key status now st)))"

text \<open>The loops over the selected keys; \<open>next_id n\<close> is the key of the \<open>n\<close>th decision.\<close>

fun settle_orphans ::
  "(nat \<Rightarrow> rstr) \<Rightarrow> nat \<Rightarrow> permission_status \<Rightarrow> rstr \<Rightarrow> rstr list \<Rightarrow> pstore \<Rightarrow> pstore option" where
  "settle_orphans next_id n status now [] st = Some st"
| "settle_orphans next_id n status now (key # keys) st =
     (if has_decision (next_id n) st then None
      else settle_orphans next_id (Suc n) status now keys (settle_orphan (next_id n) status now key st))"

definition reconcile_orphaned_permissions ::
  "bool \<Rightarrow> (nat \<Rightarrow> rstr) \<Rightarrow> rstr \<Rightarrow> pstore \<Rightarrow> (nat \<times> nat) result \<times> pstore" where
  "reconcile_orphaned_permissions db next_id now st =
     (let acp_ids = pending_ids (lit ''acp'') st in
      case (if db then settle_orphans next_id 0 PCanceled now acp_ids st else None) of
        None \<Rightarrow> (Err StateAccessFailed, st)
      | Some st1 \<Rightarrow>
          let cmd_ids = pending_ids (lit ''command'') st1 in
          case settle_orphans next_id (length acp_ids) PExpired now cmd_ids st1 of
            None \<Rightarrow> (Err StateAccessFailed, st)
          | Some st2 \<Rightarrow> (Ok (length acp_ids, length cmd_ids), st2))"

section \<open>What each operation changes\<close>

lemma from_wire_as_str [simp]: "from_wire (as_str s) = s"
  by (cases s) (simp_all add: from_wire_def lit_def)

lemma as_str_inject [simp]: "as_str s = as_str t \<longleftrightarrow> s = t"
  using from_wire_as_str by metis

lemma pending_text: "w = lit ''pending'' \<longleftrightarrow> w = as_str PPending"
  by simp

lemma bump_session_rows [simp]:
  "ps_requests (bump_session_change k st) = ps_requests st"
  "ps_decisions (bump_session_change k st) = ps_decisions st"
  "ps_outbox (bump_session_change k st) = ps_outbox st"
  "ps_external (bump_session_change k st) = ps_external st"
  by (simp_all add: bump_session_change_def)

lemma bump_acp_rows [simp]:
  "ps_requests (bump_acp_permission_session k st) = ps_requests st"
  "ps_decisions (bump_acp_permission_session k st) = ps_decisions st"
  "ps_outbox (bump_acp_permission_session k st) = ps_outbox st"
  "ps_external (bump_acp_permission_session k st) = ps_external st"
  by (simp_all add: bump_acp_permission_session_def split: option.split)

lemma log_row_rows [simp]:
  "ps_requests (log_row t i now st) = ps_requests st"
  "ps_decisions (log_row t i now st) = ps_decisions st"
  "ps_external (log_row t i now st) = ps_external st"
  by (simp_all add: log_row_def)

lemma set_status_rows [simp]:
  "ps_decisions (set_status k s now st) = ps_decisions st"
  "ps_outbox (set_status k s now st) = ps_outbox st"
  "ps_external (set_status k s now st) = ps_external st"
  by (simp_all add: set_status_def)

lemma add_decision_rows [simp]:
  "ps_requests (add_decision d st) = ps_requests st"
  "ps_decisions (add_decision d st) = ps_decisions st @ [d]"
  "ps_outbox (add_decision d st) = ps_outbox st"
  "ps_external (add_decision d st) = ps_external st"
  by (simp_all add: add_decision_def)

definition decisions_of :: "rstr \<Rightarrow> pstore \<Rightarrow> permission_decision list" where
  "decisions_of key st = filter (\<lambda>d. pd_request_id d = key) (ps_decisions st)"

lemma find_append: "find p (xs @ ys) = (case find p xs of Some x \<Rightarrow> Some x | None \<Rightarrow> find p ys)"
  by (induction xs) auto

lemma find_update_rows:
  "(\<And>r. pr_id (f r) = pr_id r) \<Longrightarrow>
   find (\<lambda>r. pr_id r = key) (update_rows (\<lambda>r. pr_id r = k) f rows) =
     map_option (\<lambda>r. if key = k then f r else r) (find (\<lambda>r. pr_id r = key) rows)"
  by (induction rows) (auto simp: update_rows_def)

lemma find_set_status [simp]:
  "find_request key (set_status k s now st) =
     map_option (\<lambda>r. if key = k then r\<lparr>pr_status := as_str s, pr_updated_at := now\<rparr> else r) (find_request key st)"
  by (simp add: find_request_def set_status_def find_update_rows)

lemma find_request_rows: "ps_requests st' = ps_requests st \<Longrightarrow> find_request key st' = find_request key st"
  by (simp add: find_request_def)

lemma find_request_Some: "find_request key st = Some r \<Longrightarrow> r \<in> set (ps_requests st) \<and> pr_id r = key"
  by (auto simp: find_request_def find_Some_iff)

lemma has_request_iff: "has_request key st \<longleftrightarrow> find_request key st \<noteq> None"
  by (auto simp: has_request_def find_request_def find_None_iff)

lemma find_request_unique:
  "distinct (map pr_id (ps_requests st)) \<Longrightarrow> find_request (pr_id r) st = Some r \<longleftrightarrow> r \<in> set (ps_requests st)"
proof -
  have "distinct (map pr_id rows) \<Longrightarrow> find (\<lambda>s. pr_id s = pr_id r) rows = Some r \<longleftrightarrow> r \<in> set rows" for rows
    by (induction rows) auto
  then show "distinct (map pr_id (ps_requests st)) \<Longrightarrow> ?thesis" by (simp add: find_request_def)
qed

section \<open>The audit trail\<close>

definition row_audited :: "pstore \<Rightarrow> permission_request \<Rightarrow> bool" where
  "row_audited st r \<longleftrightarrow> pr_status r = as_str (from_wire (pr_status r)) \<and>
     pr_source r \<in> {lit ''acp'', lit ''command''} \<and>
     map pd_decision (decisions_of (pr_id r) st) =
       (if is_terminal (from_wire (pr_status r)) then [pr_status r] else [])"

definition audit_ok :: "pstore \<Rightarrow> bool" where
  "audit_ok st \<longleftrightarrow> distinct (map pr_id (ps_requests st)) \<and> distinct (map pd_id (ps_decisions st)) \<and>
     (\<forall>d \<in> set (ps_decisions st). has_request (pd_request_id d) st) \<and>
     (\<forall>key r. find_request key st = Some r \<longrightarrow> row_audited st r)"

lemma audit_cong:
  "ps_requests st' = ps_requests st \<Longrightarrow> ps_decisions st' = ps_decisions st \<Longrightarrow> audit_ok st' = audit_ok st"
  by (simp add: audit_ok_def row_audited_def decisions_of_def has_request_def find_request_def)

lemma audit_simps [simp]:
  "audit_ok (log_row t i now st) = audit_ok st"
  "audit_ok (bump_acp_permission_session k st) = audit_ok st"
  by (rule audit_cong; simp)+

lemma audit_insert:
  assumes "audit_ok st" and "\<not> has_request (pr_id r) st" and "pr_source r \<in> {lit ''acp'', lit ''command''}"
    and "pr_status r = as_str s"
    and "s = PPending \<and> ds = [] \<or> s \<noteq> PPending \<and> ds = [d] \<and> pd_request_id d = pr_id r \<and> pd_decision d = as_str s \<and>
           \<not> has_decision (pd_id d) st"
  shows "audit_ok (st\<lparr>ps_requests := ps_requests st @ [r], ps_decisions := ps_decisions st @ ds\<rparr>)"
proof -
  have fresh: "decisions_of (pr_id r) st = []"
    using assms(1,2) by (auto simp: audit_ok_def decisions_of_def filter_empty_conv)
  let ?st = "st\<lparr>ps_requests := ps_requests st @ [r], ps_decisions := ps_decisions st @ ds\<rparr>"
  have find': "find_request k ?st = (if k = pr_id r then Some r else find_request k st)" for k
    using assms(2) by (cases "find_request k st") (auto simp: has_request_iff find_request_def find_append)
  have dec: "decisions_of k ?st = decisions_of k st @ (if k = pr_id r then ds else [])" for k
    using assms(5) by (auto simp: decisions_of_def)
  have "row_audited ?st r'" if r': "find_request k ?st = Some r'" for k r'
  proof (cases "k = pr_id r")
    case True
    with r' have "r' = r" by (simp add: find')
    then show ?thesis using assms(3,4,5) fresh by (auto simp: row_audited_def dec is_terminal_def)
  next
    case False
    with r' have f: "find_request k st = Some r'" by (simp add: find')
    then have "row_audited st r'" "pr_id r' = k" using assms(1) find_request_Some by (auto simp: audit_ok_def)
    then show ?thesis using False by (simp add: row_audited_def dec)
  qed
  moreover have "\<forall>d \<in> set (ps_decisions ?st). has_request (pd_request_id d) ?st"
    using assms(1,5) by (auto simp: audit_ok_def has_request_def)
  moreover have "distinct (map pd_id (ps_decisions ?st))" "distinct (map pr_id (ps_requests ?st))"
    using assms(1,2,5) unfolding audit_ok_def has_decision_def has_request_def by (elim disjE; simp)+
  ultimately show ?thesis by (simp add: audit_ok_def)
qed

lemma audit_settle:
  assumes "audit_ok st" and "find_request key st = Some r" and "\<not> is_terminal (from_wire (pr_status r))"
    and "s \<noteq> PPending" and "pd_request_id d = key" and "pd_decision d = as_str s" and "\<not> has_decision (pd_id d) st"
    and "ps_requests st' = ps_requests (set_status key s now st)" and "ps_decisions st' = ps_decisions st @ [d]"
  shows "audit_ok st'"
proof -
  have find': "find_request k st' = map_option (\<lambda>r. if k = key then r\<lparr>pr_status := as_str s, pr_updated_at := now\<rparr> else r) (find_request k st)" for k
    using find_request_rows [OF assms(8)] by simp
  have ids: "map pr_id (ps_requests st') = map pr_id (ps_requests st)"
    using assms(8) by (simp add: set_status_def map_update_rows)
  have dec: "decisions_of k st' = decisions_of k st @ (if k = key then [d] else [])" for k
    using assms(5,9) by (simp add: decisions_of_def)
  have "row_audited st r" using assms(1,2) by (simp add: audit_ok_def)
  then have old: "decisions_of key st = []"
    using assms(3) find_request_Some [OF assms(2)] by (simp add: row_audited_def)
  have "row_audited st' r'" if r': "find_request k st' = Some r'" for k r'
  proof (cases "k = key")
    case True
    with r' assms(2) have "r' = r\<lparr>pr_status := as_str s, pr_updated_at := now\<rparr>" by (simp add: find')
    moreover have "row_audited st r" using assms(1,2) by (simp add: audit_ok_def)
    ultimately show ?thesis
      using old assms(4,6) find_request_Some [OF assms(2)] by (simp add: row_audited_def dec is_terminal_def)
  next
    case False
    with r' have f: "find_request k st = Some r'" by (auto simp: find')
    then have "row_audited st r'" "pr_id r' = k" using assms(1) find_request_Some by (auto simp: audit_ok_def)
    then show ?thesis using False by (simp add: row_audited_def dec)
  qed
  moreover have "\<forall>d \<in> set (ps_decisions st'). has_request (pd_request_id d) st'"
    using assms(1,2,5,9) by (auto simp: audit_ok_def has_request_iff find')
  moreover have "distinct (map pd_id (ps_decisions st'))"
    using assms(1,7,9) by (simp add: audit_ok_def has_decision_def)
  ultimately show ?thesis using assms(1) ids by (simp add: audit_ok_def)
qed


section \<open>The operations keep the audit trail\<close>

lemma append_audit:
  assumes "audit_ok st" and "np_source input \<in> {lit ''acp'', lit ''command''}"
  shows "audit_ok (snd (append_permission_request json_valid db key now input st))"
proof -
  let ?r = "new_request key now PPending input"
  have "audit_ok (st\<lparr>ps_requests := ps_requests st @ [?r], ps_decisions := ps_decisions st @ []\<rparr>)"
    if "\<not> has_request key st"
    by (rule audit_insert [where s = PPending]) (use assms that in \<open>simp_all add: new_request_def\<close>)
  then show ?thesis using assms(1) by (simp add: append_permission_request_def Let_def)
qed

lemma append_approved_audit:
  assumes "audit_ok st" and "np_source input \<in> {lit ''acp'', lit ''command''}"
  shows "audit_ok (snd (append_approved_permission_request json_valid db key decision_key now input who reason st))"
proof -
  let ?r = "(new_request key now PApproved input)\<lparr>pr_expires_at := None\<rparr>"
  let ?d = "\<lparr>pd_id = decision_key, pd_request_id = key, pd_created_at = now,
                    pd_decision = as_str PApproved, pd_deciding_principal = who, pd_reason = reason\<rparr>"
  have "audit_ok (st\<lparr>ps_requests := ps_requests st @ [?r], ps_decisions := ps_decisions st @ [?d]\<rparr>)"
    if "\<not> has_request key st" "\<not> has_decision decision_key st"
    by (rule audit_insert [where s = PApproved and d = ?d]) (use assms that in \<open>simp_all add: new_request_def\<close>)
  then show ?thesis using assms(1) by (simp add: append_approved_permission_request_def Let_def)
qed

lemma decide_audit:
  assumes "audit_ok st" and "new_status \<noteq> PPending"
  shows "audit_ok (snd (decide_permission db decision_key now decided_at key new_status who reason st))"
proof (cases "find_request key st")
  case None
  then show ?thesis using assms(1) by (simp add: decide_permission_def)
next
  case (Some r)
  have "audit_ok (add_decision d (bump_acp_permission_session key (set_status key new_status now st)))"
    if "\<not> is_terminal (from_wire (pr_status r))" "\<not> has_decision (pd_id d) st" "pd_request_id d = key"
      "pd_decision d = as_str new_status" for d
    using audit_settle [OF assms(1) Some that(1) assms(2) that(3,4,2)] by simp
  then show ?thesis using Some assms(1) by (simp add: decide_permission_def Let_def)
qed


lemma settle_orphan_rows:
  "ps_requests (settle_orphan k status now key st) = ps_requests (set_status key status now st)"
  "ps_decisions (settle_orphan k status now key st) = ps_decisions st @ [orphan_decision k key status now]"
  by (simp_all add: settle_orphan_def)

lemma settle_orphan_find:
  "find_request k (settle_orphan dk status now key st) =
     map_option (\<lambda>r. if k = key then r\<lparr>pr_status := as_str status, pr_updated_at := now\<rparr> else r) (find_request k st)"
  using find_request_rows [OF settle_orphan_rows(1)] by simp

lemma settle_orphan_decisions:
  "decisions_of k (settle_orphan dk status now key st) =
     decisions_of k st @ (if k = key then [orphan_decision dk key status now] else [])"
  by (simp add: decisions_of_def settle_orphan_rows orphan_decision_def)

lemma settle_orphan_audit:
  assumes "audit_ok st" and "find_request key st = Some r" and "\<not> is_terminal (from_wire (pr_status r))"
    and "status \<noteq> PPending" and "\<not> has_decision dk st"
  shows "audit_ok (settle_orphan dk status now key st)"
  by (rule audit_settle [where d = "orphan_decision dk key status now", OF assms(1,2,3,4)])
    (use assms(5) in \<open>simp_all add: settle_orphan_rows orphan_decision_def\<close>)

definition pending_in :: "pstore \<Rightarrow> rstr \<Rightarrow> bool" where
  "pending_in st key \<longleftrightarrow> (\<exists>r. find_request key st = Some r \<and> \<not> is_terminal (from_wire (pr_status r)))"

definition stamp :: "permission_status \<Rightarrow> rstr \<Rightarrow> permission_request \<Rightarrow> permission_request" where
  "stamp status now r = r\<lparr>pr_status := as_str status, pr_updated_at := now\<rparr>"

lemma stamp_simps [simp]:
  "pr_id (stamp s now r) = pr_id r" "pr_source (stamp s now r) = pr_source r" "pr_status (stamp s now r) = as_str s"
  by (simp_all add: stamp_def)

lemma set_status_map:
  "ps_requests (set_status key s now st) = map (\<lambda>r. if pr_id r = key then stamp s now r else r) (ps_requests st)"
  by (simp add: set_status_def update_rows_def stamp_def)

lemma settle_orphans_rows:
  "settle_orphans next_id n status now keys st = Some st' \<Longrightarrow>
   ps_requests st' = map (\<lambda>r. if pr_id r \<in> set keys then stamp status now r else r) (ps_requests st) \<and>
   (\<forall>k. k \<notin> set keys \<longrightarrow> decisions_of k st' = decisions_of k st)"
proof (induction keys arbitrary: n st)
  case (Cons key keys)
  have "settle_orphans next_id (Suc n) status now keys (settle_orphan (next_id n) status now key st) = Some st'"
    using Cons.prems by (simp split: if_splits)
  from Cons.IH [OF this] show ?case
    by (auto simp: settle_orphan_rows set_status_map settle_orphan_decisions stamp_def)
qed simp

lemma settle_orphans_audit:
  assumes "audit_ok st" and "distinct keys" and "\<forall>key \<in> set keys. pending_in st key" and "status \<noteq> PPending"
    and "settle_orphans next_id n status now keys st = Some st'"
  shows "audit_ok st'"
  using assms
proof (induction keys arbitrary: n st)
  case (Cons key keys)
  let ?st = "settle_orphan (next_id n) status now key st"
  from Cons.prems obtain r where r: "find_request key st = Some r" "\<not> is_terminal (from_wire (pr_status r))"
    and fresh: "\<not> has_decision (next_id n) st" and rest: "settle_orphans next_id (Suc n) status now keys ?st = Some st'"
    by (auto simp: pending_in_def split: if_splits)
  have "\<forall>k \<in> set keys. pending_in ?st k"
  proof
    fix k assume "k \<in> set keys"
    then have "k \<noteq> key" "pending_in st k" using Cons.prems(2,3) by auto
    then show "pending_in ?st k" by (simp add: pending_in_def settle_orphan_find option.map_ident)
  qed
  then show ?case
    using Cons.IH [OF settle_orphan_audit [OF Cons.prems(1) r Cons.prems(4) fresh] _ _ Cons.prems(4) rest] Cons.prems(2)
    by simp
qed simp

lemma pending_ids_ok:
  assumes "audit_ok st"
  shows "distinct (pending_ids source st)" and "\<forall>key \<in> set (pending_ids source st). pending_in st key"
proof -
  have dist: "distinct (map pr_id (ps_requests st))" using assms by (simp add: audit_ok_def)
  then show "distinct (pending_ids source st)" by (simp add: pending_ids_def distinct_map_filter)
  show "\<forall>key \<in> set (pending_ids source st). pending_in st key"
  proof
    fix key assume "key \<in> set (pending_ids source st)"
    then obtain r where "r \<in> set (ps_requests st)" "pr_status r = as_str PPending" "pr_id r = key"
      by (auto simp: pending_ids_def)
    then show "pending_in st key"
      using find_request_unique [OF dist, of r] by (auto simp: pending_in_def is_terminal_def simp del: as_str.simps)
  qed
qed

lemma pending_ids_iff:
  assumes "audit_ok st" and "r \<in> set (ps_requests st)"
  shows "pr_id r \<in> set (pending_ids source st) \<longleftrightarrow> pr_status r = as_str PPending \<and> pr_source r = source"
proof -
  have "inj_on pr_id (set (ps_requests st))" using assms by (simp add: audit_ok_def distinct_map)
  then show ?thesis using assms(2) by (auto simp: pending_ids_def dest: inj_onD)
qed

text \<open>What the sweep makes of a row.\<close>

definition swept :: "rstr \<Rightarrow> permission_request \<Rightarrow> permission_request" where
  "swept now r =
     (if pr_status r = as_str PPending
      then stamp (if pr_source r = lit ''acp'' then PCanceled else PExpired) now r else r)"

lemma map_filter_map:
  "(\<And>r. r \<in> set rows \<Longrightarrow> pr_id (f r) = pr_id r \<and> (P (f r) \<longleftrightarrow> P r)) \<Longrightarrow>
   map pr_id (filter P (map f rows)) = map pr_id (filter P rows)"
  by (induction rows) auto

lemma reconcile_result:
  assumes "audit_ok st" and "reconcile_orphaned_permissions db next_id now st = (Ok (c, e), st')"
  shows "audit_ok st' \<and> ps_requests st' = map (swept now) (ps_requests st) \<and>
    c = length (pending_ids (lit ''acp'') st) \<and> e = length (pending_ids (lit ''command'') st) \<and>
    (\<forall>k. \<not> pending_in st k \<longrightarrow> decisions_of k st' = decisions_of k st)"
proof -
  let ?acp = "pending_ids (lit ''acp'') st" and ?cmd = "pending_ids (lit ''command'') st"
  obtain st1 where s1: "settle_orphans next_id 0 PCanceled now ?acp st = Some st1" and
    s2: "settle_orphans next_id (length ?acp) PExpired now (pending_ids (lit ''command'') st1) st1 = Some st'"
    and c: "c = length ?acp" "e = length (pending_ids (lit ''command'') st1)"
  proof (cases "if db then settle_orphans next_id 0 PCanceled now ?acp st else None")
    case None
    with assms(2) show ?thesis by (simp only: reconcile_orphaned_permissions_def Let_def option.case) simp
  next
    case (Some st1)
    note s1 = Some
    show ?thesis
    proof (cases "settle_orphans next_id (length ?acp) PExpired now (pending_ids (lit ''command'') st1) st1")
      case None
      with assms(2) s1 show ?thesis by (simp only: reconcile_orphaned_permissions_def Let_def option.case) simp
    next
      case (Some st2)
      have "c = length ?acp \<and> e = length (pending_ids (lit ''command'') st1) \<and> st2 = st'"
        using assms(2) s1 Some by (simp only: reconcile_orphaned_permissions_def Let_def option.case) simp
      then show ?thesis using that [of st1] s1 Some by (simp split: if_splits)
    qed
  qed
  note ok1 = pending_ids_ok [OF assms(1), of "lit ''acp''"]
  have a1: "audit_ok st1" using settle_orphans_audit [OF assms(1) ok1 _ s1] by simp
  have rows1: "ps_requests st1 = map (\<lambda>r. if pr_id r \<in> set ?acp then stamp PCanceled now r else r) (ps_requests st)"
    using settle_orphans_rows [OF s1] by simp
  have acp: "pr_id r \<in> set ?acp \<longleftrightarrow> pr_status r = as_str PPending \<and> pr_source r = lit ''acp''" if "r \<in> set (ps_requests st)" for r
    using pending_ids_iff [OF assms(1) that] .
  have neq: "lit ''acp'' \<noteq> lit ''command''" by (simp add: lit_def)
  have cmd: "pending_ids (lit ''command'') st1 = ?cmd"
    unfolding pending_ids_def [of "lit ''command''"] rows1 pending_text
    by (rule map_filter_map) (use acp neq in auto)
  have "ps_requests st' = map (\<lambda>r. if pr_id r \<in> set ?cmd then stamp PExpired now r else r) (ps_requests st1)"
    using settle_orphans_rows [OF s2] by (simp add: cmd)
  also have "\<dots> = map (swept now) (ps_requests st)"
    unfolding rows1 map_map
  proof (rule map_cong [OF refl])
    fix r assume r: "r \<in> set (ps_requests st)"
    then obtain key where "find_request key st = Some r" using find_request_unique assms(1) by (auto simp: audit_ok_def)
    then have "pr_source r \<in> {lit ''acp'', lit ''command''}" using assms(1) by (auto simp: audit_ok_def row_audited_def)
    then show "((\<lambda>r. if pr_id r \<in> set ?cmd then stamp PExpired now r else r) \<circ>
        (\<lambda>r. if pr_id r \<in> set ?acp then stamp PCanceled now r else r)) r = swept now r"
      using acp [OF r] pending_ids_iff [OF assms(1) r, of "lit ''command''"] neq
      by (auto simp: swept_def simp del: as_str.simps)
  qed
  finally have rows: "ps_requests st' = map (swept now) (ps_requests st)" .
  have "audit_ok st'" using settle_orphans_audit [OF a1 pending_ids_ok [OF a1] _ s2] by simp
  moreover have "decisions_of k st' = decisions_of k st" if "\<not> pending_in st k" for k
  proof -
    have "k \<notin> set ?acp" "k \<notin> set ?cmd"
      using that ok1(2) pending_ids_ok(2) [OF assms(1), of "lit ''command''"] by blast+
    then show ?thesis using settle_orphans_rows [OF s1] settle_orphans_rows [OF s2] by (simp add: cmd)
  qed
  ultimately show ?thesis using rows c cmd by simp
qed


lemma reconcile_audit: "audit_ok st \<Longrightarrow> audit_ok (snd (reconcile_orphaned_permissions db next_id now st))"
proof (cases "reconcile_orphaned_permissions db next_id now st")
  case (Pair res st')
  assume ok: "audit_ok st"
  show ?thesis
  proof (cases res)
    case (Inl a)
    with Pair have "st' = st"
      by (auto simp: reconcile_orphaned_permissions_def Let_def split: option.splits)
    with ok Pair show ?thesis by simp
  next
    case (Inr ce)
    then show ?thesis using reconcile_result [OF ok, of db next_id now "fst ce" "snd ce" st'] Pair by simp
  qed
qed


section \<open>All steps\<close>

text \<open>
  The transactions of the running system, and any other change to sessions and the outbox (new
  sessions, deliveries).  A decision is never \<open>PPending\<close>: the callers pass the status of an outcome.
\<close>

inductive store_step :: "(rstr \<Rightarrow> bool) \<Rightarrow> pstore \<Rightarrow> pstore \<Rightarrow> bool" for json_valid where
  append: "np_source input \<in> {lit ''acp'', lit ''command''} \<Longrightarrow>
     store_step json_valid st (snd (append_permission_request json_valid db key now input st))"
| append_approved: "np_source input \<in> {lit ''acp'', lit ''command''} \<Longrightarrow>
     store_step json_valid st
       (snd (append_approved_permission_request json_valid db key decision_key now input who reason st))"
| decide: "new_status \<noteq> PPending \<Longrightarrow>
     store_step json_valid st (snd (decide_permission db decision_key now decided_at key new_status who reason st))"
| reconcile: "store_step json_valid st (snd (reconcile_orphaned_permissions db next_id now st))"
| other_tables: "store_step json_valid st (st\<lparr>ps_sessions := ss, ps_change_seq := n, ps_outbox := ob\<rparr>)"

definition store_init :: "pstore \<Rightarrow> bool" where
  "store_init st \<longleftrightarrow> ps_requests st = [] \<and> ps_decisions st = []"

lemma store_step_audit: "store_step json_valid st st' \<Longrightarrow> audit_ok st \<Longrightarrow> audit_ok st'"
proof (induction rule: store_step.induct)
  case (other_tables st ob n ss)
  then show ?case using audit_cong [of "st\<lparr>ps_sessions := ss, ps_change_seq := n, ps_outbox := ob\<rparr>" st] by simp
qed (auto intro: append_audit append_approved_audit decide_audit reconcile_audit)

interpretation pst: invariant_system store_init "store_step json_valid" audit_ok for json_valid
  by unfold_locales
    (simp add: audit_ok_def store_init_def find_request_def, erule (1) store_step_audit [rotated])

definition settled :: "pstore \<Rightarrow> rstr \<Rightarrow> permission_request \<Rightarrow> bool" where
  "settled st key r \<longleftrightarrow> find_request key st = Some r \<and> is_terminal (from_wire (pr_status r))"

lemma find_insert:
  "find_request k st = Some r' \<Longrightarrow>
   find_request k (st\<lparr>ps_requests := ps_requests st @ rs, ps_decisions := ds\<rparr>) = Some r'"
  by (simp add: find_request_def find_append)

lemma settled_decide:
  assumes "settled st key r"
  shows "find_request key (snd (decide_permission db decision_key now decided_at k new_status who reason st)) = Some r \<and>
    decisions_of key (snd (decide_permission db decision_key now decided_at k new_status who reason st)) = decisions_of key st"
proof (cases "k = key \<or> find_request k st = None")
  case True
  then show ?thesis using assms by (auto simp: settled_def decide_permission_def)
next
  case False
  then show ?thesis
    using assms find_request_rows [of "log_row t i now' (log_row t' i' now'' (add_decision d (bump_acp_permission_session k s)))" s key for t i now' t' i' now'' d s]
    by (auto simp: settled_def decide_permission_def Let_def decisions_of_def)
qed

lemma settled_append:
  assumes "settled st key r"
  shows "find_request key (snd (append_permission_request json_valid db k now input st)) = Some r \<and>
    decisions_of key (snd (append_permission_request json_valid db k now input st)) = decisions_of key st"
    "find_request key (snd (append_approved_permission_request json_valid db k decision_key now input who reason st)) = Some r \<and>
    decisions_of key (snd (append_approved_permission_request json_valid db k decision_key now input who reason st)) = decisions_of key st"
proof -
  have "k \<noteq> key" if "\<not> has_request k st" using that assms by (auto simp: settled_def has_request_iff)
  then show "find_request key (snd (append_permission_request json_valid db k now input st)) = Some r \<and>
    decisions_of key (snd (append_permission_request json_valid db k now input st)) = decisions_of key st"
    "find_request key (snd (append_approved_permission_request json_valid db k decision_key now input who reason st)) = Some r \<and>
    decisions_of key (snd (append_approved_permission_request json_valid db k decision_key now input who reason st)) = decisions_of key st"
    using assms
    by (auto simp: settled_def append_permission_request_def append_approved_permission_request_def Let_def
        decisions_of_def find_request_def find_append)
qed

lemma settled_reconcile:
  assumes "audit_ok st" and "settled st key r"
  shows "find_request key (snd (reconcile_orphaned_permissions db next_id now st)) = Some r \<and>
    decisions_of key (snd (reconcile_orphaned_permissions db next_id now st)) = decisions_of key st"
proof (cases "reconcile_orphaned_permissions db next_id now st")
  case (Pair res st')
  show ?thesis
  proof (cases res)
    case (Inl a)
    with Pair have "st' = st"
      by (auto simp: reconcile_orphaned_permissions_def Let_def split: option.splits)
    with assms Pair show ?thesis by (simp add: settled_def)
  next
    case (Inr ce)
    then have res: "audit_ok st'" "ps_requests st' = map (swept now) (ps_requests st)"
      "\<not> pending_in st key \<longrightarrow> decisions_of key st' = decisions_of key st"
      using reconcile_result [OF assms(1), of db next_id now "fst ce" "snd ce" st'] Pair by simp_all
    have np: "\<not> pending_in st key" using assms(2) by (auto simp: pending_in_def settled_def)
    have r: "r \<in> set (ps_requests st)" "pr_id r = key" using assms(2) find_request_Some by (auto simp: settled_def)
    have "pr_status r \<noteq> as_str PPending" using assms(2) by (auto simp: settled_def is_terminal_def simp del: as_str.simps)
    then have "swept now r = r" by (simp add: swept_def)
    then have "r \<in> set (ps_requests st')" using r(1) by (force simp: res(2))
    then show ?thesis
      using res np r(2) Pair find_request_unique [of st' r] by (simp add: audit_ok_def)
  qed
qed

lemma settled_step:
  "store_step json_valid st st' \<Longrightarrow> audit_ok st \<Longrightarrow> settled st key r \<Longrightarrow>
   find_request key st' = Some r \<and> decisions_of key st' = decisions_of key st"
proof (induction rule: store_step.induct)
  case (other_tables st ob n ss)
  then show ?case by (simp add: settled_def find_request_def decisions_of_def)
next
  case (reconcile st db next_id now)
  then show ?case by (rule settled_reconcile)
next
  case (append input st db key' now)
  show ?case by (rule settled_append(1) [OF append(3)])
next
  case (append_approved input st db key' decision_key now who reason)
  show ?case by (rule settled_append(2) [OF append_approved(3)])
next
  case (decide new_status st db decision_key now decided_at key' who reason)
  show ?case by (rule settled_decide [OF decide(3)])
qed


lemma settled_steps:
  "(store_step json_valid)\<^sup>*\<^sup>* st st' \<Longrightarrow> audit_ok st \<Longrightarrow> settled st key r \<Longrightarrow>
   settled st' key r \<and> decisions_of key st' = decisions_of key st"
proof (induction rule: rtranclp_induct)
  case (step st1 st2)
  then have "audit_ok st1" using pst.steps_inv by blast
  then show ?case using settled_step [OF step(2)] step by (auto simp: settled_def)
qed simp


section \<open>Properties\<close>

text \<open>
  C22: The audit trail.  In every store the system can reach, also through failed transactions and
  the sweep at startup, a pending request has no decision and a settled request has exactly one,
  which records the status of the request.
\<close>

theorem permission_audit_trail:
  assumes "reachable store_init (store_step json_valid) st" and "r \<in> set (ps_requests st)"
  shows "map pd_decision (decisions_of (pr_id r) st) =
    (if from_wire (pr_status r) = PPending then [] else [pr_status r])"
proof -
  have ok: "audit_ok st" using pst.reachable_inv assms(1) .
  then have "find_request (pr_id r) st = Some r" using find_request_unique assms(2) by (simp add: audit_ok_def)
  then show ?thesis using ok by (simp add: audit_ok_def row_audited_def is_terminal_def)
qed

definition empty_store :: pstore where
  "empty_store = \<lparr>ps_requests = [], ps_decisions = [], ps_sessions = [], ps_change_seq = 0, ps_outbox = [], ps_external = True\<rparr>"

definition sample_request :: new_permission_request where
  "sample_request = \<lparr>np_source = lit ''command'', np_requester = None, np_subject_id = Some (lit ''cmd_1''),
     np_detail_json = lit ''{}'', np_expires_at = None\<rparr>"

definition sample_pending :: pstore where
  "sample_pending = snd (append_permission_request (\<lambda>_. True) True (lit ''perm_1'') (lit ''t0'') sample_request empty_store)"

definition sample_denied :: pstore where
  "sample_denied = snd (decide_permission True (lit ''pdec_1'') (lit ''t1'') (lit ''t1'') (lit ''perm_1'') PDenied
     (Some (lit ''admin'')) None sample_pending)"

lemmas sample_defs = sample_denied_def sample_pending_def empty_store_def sample_request_def
  append_permission_request_def decide_permission_def find_request_def has_request_def has_decision_def
  new_request_def log_row_def bump_acp_permission_session_def set_status_def add_decision_def update_rows_def
  is_terminal_def from_wire_def lit_def

lemma sample_reachable:
  "reachable store_init (store_step (\<lambda>_. True)) sample_pending"
  "reachable store_init (store_step (\<lambda>_. True)) sample_denied"
proof -
  have init: "reachable store_init (store_step (\<lambda>_. True)) empty_store"
    by (rule reachable_init) (simp add: store_init_def empty_store_def)
  show p: "reachable store_init (store_step (\<lambda>_. True)) sample_pending"
    unfolding sample_pending_def
    by (rule reachable_step [OF init store_step.append]) (simp add: sample_request_def)
  show "reachable store_init (store_step (\<lambda>_. True)) sample_denied"
    unfolding sample_denied_def by (rule reachable_step [OF p store_step.decide]) simp
qed

theorem permission_audit_trail_witness:
  "map pd_decision (decisions_of (lit ''perm_1'') sample_denied) = [lit ''denied'']"
  using permission_audit_trail [OF sample_reachable(2), of "hd (ps_requests sample_denied)"]
  by (simp add: sample_defs Let_def)

text \<open>
  A settled request is final.  Once a request is approved, denied, expired or cancelled, no
  later sequence of transactions changes its row or its decision.
\<close>

theorem settled_request_is_final:
  assumes "reachable store_init (store_step json_valid) st" and "(store_step json_valid)\<^sup>*\<^sup>* st st'"
    and "find_request key st = Some r" and "from_wire (pr_status r) \<noteq> PPending"
  shows "find_request key st' = Some r \<and> decisions_of key st' = decisions_of key st"
  using settled_steps [OF assms(2) pst.reachable_inv [OF assms(1)], of key r] assms(3,4)
  by (simp add: settled_def is_terminal_def)

theorem settled_request_is_final_witness:
  "map pr_status (ps_requests (snd (decide_permission True (lit ''pdec_2'') (lit ''t2'') (lit ''t2'') (lit ''perm_1'')
     PApproved None None sample_denied))) = [lit ''denied''] \<and>
   find_request (lit ''perm_1'') (snd (decide_permission True (lit ''pdec_2'') (lit ''t2'') (lit ''t2'') (lit ''perm_1'')
     PApproved None None sample_denied)) = find_request (lit ''perm_1'') sample_denied"
proof -
  let ?st = "snd (decide_permission True (lit ''pdec_2'') (lit ''t2'') (lit ''t2'') (lit ''perm_1'') PApproved None None sample_denied)"
  have "(store_step (\<lambda>_. True))\<^sup>*\<^sup>* sample_denied ?st"
    by (rule r_into_rtranclp, rule store_step.decide) simp
  from settled_request_is_final [OF sample_reachable(2) this, of "lit ''perm_1''" "hd (ps_requests sample_denied)"]
  show ?thesis by (simp add: sample_defs Let_def)
qed



text \<open>
  The sweep at startup leaves nothing pending.  When it succeeds it turns every pending request
  of an agent into a cancelled one and every pending request of a command into an expired one,
  reports how many of each, leaves every other row as it is, and keeps the audit trail.
\<close>

theorem reconcile_settles_every_orphan:
  assumes "reachable store_init (store_step json_valid) st"
    and "reconcile_orphaned_permissions db next_id now st = (Ok (canceled, expired), st')"
  shows "ps_requests st' = map (\<lambda>r. if from_wire (pr_status r) \<noteq> PPending then r else
      r\<lparr>pr_status := as_str (if pr_source r = lit ''acp'' then PCanceled else PExpired), pr_updated_at := now\<rparr>) (ps_requests st) \<and>
    canceled = length (filter (\<lambda>r. from_wire (pr_status r) = PPending \<and> pr_source r = lit ''acp'') (ps_requests st)) \<and>
    expired = length (filter (\<lambda>r. from_wire (pr_status r) = PPending \<and> pr_source r = lit ''command'') (ps_requests st)) \<and>
    (\<forall>r \<in> set (ps_requests st'). length (decisions_of (pr_id r) st') = 1)"
proof -
  have ok: "audit_ok st" using pst.reachable_inv assms(1) .
  note res = reconcile_result [OF ok assms(2)]
  have status: "pr_status r = as_str PPending \<longleftrightarrow> from_wire (pr_status r) = PPending" if "r \<in> set (ps_requests st)" for r
  proof -
    have "find_request (pr_id r) st = Some r" using find_request_unique ok that by (simp add: audit_ok_def)
    then show ?thesis using ok by (metis audit_ok_def row_audited_def from_wire_as_str)
  qed
  have rows: "ps_requests st' = map (\<lambda>r. if from_wire (pr_status r) \<noteq> PPending then r else
      r\<lparr>pr_status := as_str (if pr_source r = lit ''acp'' then PCanceled else PExpired), pr_updated_at := now\<rparr>) (ps_requests st)"
    using res status by (auto simp: swept_def stamp_def simp del: as_str.simps intro!: map_cong)
  have counts: "length (pending_ids source st) =
      length (filter (\<lambda>r. from_wire (pr_status r) = PPending \<and> pr_source r = source) (ps_requests st))" for source
    using status by (simp add: pending_ids_def pending_text cong: filter_cong del: as_str.simps)
  have "length (decisions_of (pr_id r) st') = 1" if r: "r \<in> set (ps_requests st')" for r
  proof -
    have "distinct (map pr_id (ps_requests st'))" using res unfolding audit_ok_def by blast
    then have "find_request (pr_id r) st' = Some r" using find_request_unique r by blast
    then have "map pd_decision (decisions_of (pr_id r) st') = (if is_terminal (from_wire (pr_status r)) then [pr_status r] else [])"
      using res by (simp add: audit_ok_def row_audited_def)
    moreover have "from_wire (pr_status r) \<noteq> PPending" using r by (auto simp: rows simp del: as_str.simps split: if_splits)
    ultimately show ?thesis by (simp add: is_terminal_def) (metis length_map list.size(3) list.size(4) One_nat_def add_0)
  qed
  then show ?thesis using rows counts res by simp
qed

theorem reconcile_settles_every_orphan_witness:
  "fst (reconcile_orphaned_permissions True (\<lambda>n. lit ''pdec_'' @ show_nat n) (lit ''t9'') sample_pending) = Ok (0, 1) \<and>
   map pr_status (ps_requests (snd (reconcile_orphaned_permissions True (\<lambda>n. lit ''pdec_'' @ show_nat n) (lit ''t9'') sample_pending)))
     = [lit ''expired'']"
proof -
  let ?rec = "reconcile_orphaned_permissions True (\<lambda>n. lit ''pdec_'' @ show_nat n) (lit ''t9'') sample_pending"
  have "fst ?rec = Ok (0, 1)"
    by (simp add: reconcile_orphaned_permissions_def pending_ids_def settle_orphan_def sample_defs Let_def)
  then show ?thesis
    using reconcile_settles_every_orphan [OF sample_reachable(1), of True "\<lambda>n. lit ''pdec_'' @ show_nat n" "lit ''t9''" 0 1 "snd ?rec"]
    by (cases ?rec) (simp add: sample_defs Let_def)
qed

end
