(* ===== verification/Command_Store.thy ===== *)
theory Command_Store
  imports Permission_Store
begin

text \<open>
  The rows of mediated commands (\<^verbatim>\<open>src/state/commands.rs\<close>): insertion, the updates of their life cycle,
  and the sweep at startup, which settles stranded commands together with the permission requests
  that wait for them.

  \<open>cs_base\<close> holds the permission tables, the outbox and the change feed of the same database.
\<close>

section \<open>Rows\<close>

datatype command_origin = Operator | Acp

fun origin_str :: "command_origin \<Rightarrow> rstr" where
  "origin_str Operator = lit ''operator''"
| "origin_str Acp = lit ''acp''"

datatype command_status = CPending | CRunning | CExited | CFailed | CCanceled

fun status_str :: "command_status \<Rightarrow> rstr" where
  "status_str CPending = lit ''pending''"
| "status_str CRunning = lit ''running''"
| "status_str CExited = lit ''exited''"
| "status_str CFailed = lit ''failed''"
| "status_str CCanceled = lit ''cancelled''"

record command_record =
  cr_id :: rstr
  cr_created_at :: rstr
  cr_updated_at :: rstr
  cr_status :: rstr
  cr_command :: rstr
  cr_exit_status :: "int option"
  cr_started_at :: "rstr option"
  cr_finished_at :: "rstr option"
  cr_cwd :: "rstr option"
  cr_env_json :: "rstr option"
  cr_duration_ms :: "int option"
  cr_truncated :: bool
  cr_last_output_event_id :: "rstr option"
  cr_last_output_at :: "rstr option"
  cr_last_output_seq :: "int option"
  cr_output_bytes :: int
  cr_last_progress_at :: "rstr option"
  cr_origin :: rstr
  cr_session_id :: "rstr option"
  cr_terminal_id :: "rstr option"

record new_command_record =
  nc_command :: rstr
  nc_cwd :: "rstr option"
  nc_env_json :: "rstr option"
  nc_origin :: command_origin
  nc_session_id :: "rstr option"
  nc_terminal_id :: "rstr option"

record cstore =
  cs_base :: pstore
  cs_commands :: "command_record list"

definition get_command :: "rstr \<Rightarrow> cstore \<Rightarrow> command_record option" where
  "get_command key cs = find (\<lambda>c. cr_id c = key) (cs_commands cs)"

section \<open>Operations\<close>

definition new_command :: "rstr \<Rightarrow> rstr \<Rightarrow> new_command_record \<Rightarrow> command_record" where
  "new_command key now input =
     \<lparr>cr_id = key, cr_created_at = now, cr_updated_at = now, cr_status = status_str CPending,
      cr_command = nc_command input, cr_exit_status = None, cr_started_at = None, cr_finished_at = None,
      cr_cwd = nc_cwd input, cr_env_json = nc_env_json input, cr_duration_ms = None, cr_truncated = False,
      cr_last_output_event_id = None, cr_last_output_at = None, cr_last_output_seq = None,
      cr_output_bytes = 0, cr_last_progress_at = None, cr_origin = origin_str (nc_origin input),
      cr_session_id = nc_session_id input, cr_terminal_id = nc_terminal_id input\<rparr>"

definition append_command ::
  "(rstr \<Rightarrow> bool) \<Rightarrow> bool \<Rightarrow> rstr \<Rightarrow> rstr \<Rightarrow> new_command_record \<Rightarrow> cstore \<Rightarrow> command_record result \<times> cstore" where
  "append_command json_valid db key now input cs =
     (if (case nc_env_json input of Some payload \<Rightarrow> \<not> json_valid payload | None \<Rightarrow> False)
      then (Err InvalidEventPayload, cs)
      else if \<not> db \<or> get_command key cs \<noteq> None then (Err StateAccessFailed, cs)
      else let c = new_command key now input in
        (Ok c, cs\<lparr>cs_commands := cs_commands cs @ [c],
                   cs_base := log_row (lit ''commands'') key now (cs_base cs)\<rparr>))"

text \<open>The shape all updates share: one row by its key, no row is an error, the row is logged.\<close>

definition update_command ::
  "bool \<Rightarrow> rstr \<Rightarrow> rstr \<Rightarrow> (command_record \<Rightarrow> command_record) \<Rightarrow> cstore \<Rightarrow> unit result \<times> cstore" where
  "update_command db key now f cs =
     (if \<not> db then (Err StateAccessFailed, cs)
      else if get_command key cs = None then (Err (CommandNotFound key), cs)
      else (Ok (), cs\<lparr>cs_commands := update_rows (\<lambda>c. cr_id c = key) f (cs_commands cs),
                       cs_base := log_row (lit ''commands'') key now (cs_base cs)\<rparr>))"

definition start_command :: "bool \<Rightarrow> rstr \<Rightarrow> rstr \<Rightarrow> cstore \<Rightarrow> unit result \<times> cstore" where
  "start_command db key now cs =
     update_command db key now (\<lambda>c. c\<lparr>cr_status := status_str CRunning, cr_started_at := Some now,
       cr_updated_at := now, cr_last_progress_at := Some now\<rparr>) cs"

definition finish_command ::
  "bool \<Rightarrow> rstr \<Rightarrow> rstr \<Rightarrow> command_status \<Rightarrow> int option \<Rightarrow> int option \<Rightarrow> cstore \<Rightarrow> unit result \<times> cstore" where
  "finish_command db key now status exit_status duration_ms cs =
     update_command db key now (\<lambda>c. c\<lparr>cr_status := status_str status, cr_exit_status := exit_status,
       cr_finished_at := Some now, cr_updated_at := now, cr_duration_ms := duration_ms\<rparr>) cs"

definition mark_command_truncated :: "bool \<Rightarrow> rstr \<Rightarrow> rstr \<Rightarrow> cstore \<Rightarrow> unit result \<times> cstore" where
  "mark_command_truncated db key now cs =
     update_command db key now (\<lambda>c. c\<lparr>cr_truncated := True, cr_updated_at := now\<rparr>) cs"

definition record_command_output_progress ::
  "bool \<Rightarrow> rstr \<Rightarrow> rstr \<Rightarrow> rstr \<Rightarrow> int \<Rightarrow> int \<Rightarrow> cstore \<Rightarrow> unit result \<times> cstore" where
  "record_command_output_progress db key event_id event_at seq byte_len cs =
     update_command db key event_at (\<lambda>c. c\<lparr>cr_updated_at := event_at, cr_last_output_event_id := Some event_id,
       cr_last_output_at := Some event_at, cr_last_output_seq := Some seq,
       cr_output_bytes := cr_output_bytes c + byte_len, cr_last_progress_at := Some event_at\<rparr>) cs"

definition record_command_progress_at :: "bool \<Rightarrow> rstr \<Rightarrow> rstr \<Rightarrow> cstore \<Rightarrow> unit result \<times> cstore" where
  "record_command_progress_at db key created_at cs =
     update_command db key created_at (\<lambda>c. c\<lparr>cr_updated_at := created_at, cr_last_progress_at := Some created_at\<rparr>) cs"

section \<open>The sweep at startup\<close>

definition live :: "command_record \<Rightarrow> bool" where
  "live c \<longleftrightarrow> cr_status c \<in> {status_str CPending, status_str CRunning}"

definition reconcile_row :: "rstr \<Rightarrow> command_record \<Rightarrow> command_record" where
  "reconcile_row now c =
     c\<lparr>cr_status := status_str CFailed, cr_updated_at := now,
       cr_finished_at := Some (case cr_finished_at c of Some t \<Rightarrow> t | None \<Rightarrow> now)\<rparr>"

definition command_permission_ids :: "rstr \<Rightarrow> pstore \<Rightarrow> rstr list" where
  "command_permission_ids command_id st =
     map pr_id (filter (\<lambda>r. pr_status r = lit ''pending'' \<and> pr_source r = lit ''command'' \<and>
       pr_subject_id r = Some command_id) (ps_requests st))"

definition reconciled_decision :: "rstr \<Rightarrow> rstr \<Rightarrow> rstr \<Rightarrow> permission_decision" where
  "reconciled_decision decision_key key now =
     \<lparr>pd_id = decision_key, pd_request_id = key, pd_created_at = now, pd_decision = as_str PCanceled,
      pd_deciding_principal = Some (lit ''system''), pd_reason = Some (lit ''command-reconciled'')\<rparr>"

fun cancel_permissions ::
  "(nat \<Rightarrow> rstr) \<Rightarrow> nat \<Rightarrow> rstr \<Rightarrow> rstr list \<Rightarrow> pstore \<Rightarrow> pstore option" where
  "cancel_permissions next_id n now [] st = Some st"
| "cancel_permissions next_id n now (key # keys) st =
     (if has_decision (next_id n) st then None
      else cancel_permissions next_id (Suc n) now keys
        (log_row (lit ''permission_decisions'') (next_id n) now
          (log_row (lit ''permission_requests'') key now
            (add_decision (reconciled_decision (next_id n) key now) (set_status key PCanceled now st)))))"

fun reconcile_commands ::
  "(nat \<Rightarrow> rstr) \<Rightarrow> nat \<Rightarrow> rstr \<Rightarrow> rstr list \<Rightarrow> pstore \<Rightarrow> (nat \<times> pstore) option" where
  "reconcile_commands next_id n now [] st = Some (n, st)"
| "reconcile_commands next_id n now (command_id # command_ids) st =
     (let keys = command_permission_ids command_id st in
      case cancel_permissions next_id n now keys st of
        None \<Rightarrow> None
      | Some st' \<Rightarrow> reconcile_commands next_id (n + length keys) now command_ids
          (log_row (lit ''commands'') command_id now st'))"

definition reconcile_orphaned_commands ::
  "bool \<Rightarrow> (nat \<Rightarrow> rstr) \<Rightarrow> rstr \<Rightarrow> cstore \<Rightarrow> (rstr list \<times> nat) result \<times> cstore" where
  "reconcile_orphaned_commands db next_id now cs =
     (let ids = map cr_id (filter live (cs_commands cs)) in
      case (if db then reconcile_commands next_id 0 now ids (cs_base cs) else None) of
        None \<Rightarrow> (Err StateAccessFailed, cs)
      | Some (permissions_canceled, st) \<Rightarrow>
          (Ok (ids, permissions_canceled),
           \<lparr>cs_base = st, cs_commands = map (\<lambda>c. if live c then reconcile_row now c else c) (cs_commands cs)\<rparr>))"

section \<open>Lemmas on the sweep\<close>

definition waits_for :: "rstr set \<Rightarrow> permission_request \<Rightarrow> bool" where
  "waits_for ids r \<longleftrightarrow> pr_status r = as_str PPending \<and> pr_source r = lit ''command'' \<and> pr_subject_id r \<in> Some ` ids"

abbreviation cancelled_row :: "pstore \<Rightarrow> rstr \<Rightarrow> rstr \<Rightarrow> rstr \<Rightarrow> pstore" where
  "cancelled_row st dk key now \<equiv>
     log_row (lit ''permission_decisions'') dk now
       (log_row (lit ''permission_requests'') key now
         (add_decision (reconciled_decision dk key now) (set_status key PCanceled now st)))"

lemma cancelled_row_rows:
  "ps_requests (cancelled_row st dk key now) =
     map (\<lambda>r. if pr_id r = key then stamp PCanceled now r else r) (ps_requests st)"
  by (simp add: set_status_map)

lemma cancelled_row_audit:
  assumes "audit_ok st" and "pending_in st key" and "\<not> has_decision dk st"
  shows "audit_ok (cancelled_row st dk key now)"
proof -
  obtain r where r: "find_request key st = Some r" "\<not> is_terminal (from_wire (pr_status r))"
    using assms(2) by (auto simp: pending_in_def)
  show ?thesis
    by (rule audit_settle [OF assms(1) r, where d = "reconciled_decision dk key now" and s = PCanceled and now = now])
      (use assms(3) in \<open>simp_all add: reconciled_decision_def\<close>)
qed

lemma cancelled_row_pending:
  "k \<noteq> key \<Longrightarrow> pending_in (cancelled_row st dk key now) k \<longleftrightarrow> pending_in st k"
proof -
  assume "k \<noteq> key"
  moreover have "find_request k (cancelled_row st dk key now) = find_request k (set_status key PCanceled now st)"
    by (rule find_request_rows) simp
  ultimately show ?thesis by (simp add: pending_in_def option.map_ident)
qed

lemma cancel_permissions_result:
  assumes "audit_ok st" and "distinct keys" and "\<forall>key \<in> set keys. pending_in st key"
    and "cancel_permissions next_id n now keys st = Some st'"
  shows "audit_ok st' \<and> ps_requests st' = map (\<lambda>r. if pr_id r \<in> set keys then stamp PCanceled now r else r) (ps_requests st)"
  using assms
proof (induction keys arbitrary: n st)
  case (Cons key keys)
  let ?st = "cancelled_row st (next_id n) key now"
  have fresh: "\<not> has_decision (next_id n) st" and rest: "cancel_permissions next_id (Suc n) now keys ?st = Some st'"
    using Cons.prems(4) by (simp_all split: if_splits)
  have "audit_ok ?st" using cancelled_row_audit [OF Cons.prems(1) _ fresh] Cons.prems(3) by simp
  moreover have "\<forall>k \<in> set keys. pending_in ?st k"
  proof
    fix k assume "k \<in> set keys"
    then have "k \<noteq> key" "pending_in st k" using Cons.prems(2,3) by auto
    then show "pending_in ?st k" using cancelled_row_pending by blast
  qed
  ultimately have "audit_ok st' \<and> ps_requests st' = map (\<lambda>r. if pr_id r \<in> set keys then stamp PCanceled now r else r) (ps_requests ?st)"
    using Cons.IH [OF _ _ _ rest] Cons.prems(2) by simp
  then show ?case unfolding cancelled_row_rows map_map
    by (auto simp: stamp_def intro!: map_cong)
qed simp

lemma command_permission_ids_ok:
  assumes "audit_ok st"
  shows "distinct (command_permission_ids cid st)" and "\<forall>key \<in> set (command_permission_ids cid st). pending_in st key"
    and "r \<in> set (ps_requests st) \<Longrightarrow> pr_id r \<in> set (command_permission_ids cid st) \<longleftrightarrow> waits_for {cid} r"
proof -
  have dist: "distinct (map pr_id (ps_requests st))" using assms by (simp add: audit_ok_def)
  then show "distinct (command_permission_ids cid st)" by (simp add: command_permission_ids_def distinct_map_filter)
  show "\<forall>key \<in> set (command_permission_ids cid st). pending_in st key"
  proof
    fix key assume "key \<in> set (command_permission_ids cid st)"
    then obtain r where "r \<in> set (ps_requests st)" "pr_status r = as_str PPending" "pr_id r = key"
      by (auto simp: command_permission_ids_def)
    then show "pending_in st key"
      using find_request_unique [OF dist, of r] by (auto simp: pending_in_def is_terminal_def simp del: as_str.simps)
  qed
  have "inj_on pr_id (set (ps_requests st))" using dist by (simp add: distinct_map)
  then show "r \<in> set (ps_requests st) \<Longrightarrow> pr_id r \<in> set (command_permission_ids cid st) \<longleftrightarrow> waits_for {cid} r"
    by (auto simp: command_permission_ids_def waits_for_def dest: inj_onD)
qed

lemma reconcile_commands_result:
  assumes "audit_ok st" and "reconcile_commands next_id n now ids st = Some (m, st')"
  shows "audit_ok st' \<and> ps_requests st' = map (\<lambda>r. if waits_for (set ids) r then stamp PCanceled now r else r) (ps_requests st)"
  using assms
proof (induction ids arbitrary: n st)
  case Nil
  then show ?case by (simp add: waits_for_def)
next
  case (Cons cid ids)
  let ?keys = "command_permission_ids cid st"
  obtain st1 where st1: "cancel_permissions next_id n now ?keys st = Some st1"
    and rest: "reconcile_commands next_id (n + length ?keys) now ids (log_row (lit ''commands'') cid now st1) = Some (m, st')"
    using Cons.prems(2) by (auto simp: Let_def split: option.splits)
  note ok = command_permission_ids_ok [OF Cons.prems(1), where cid = cid]
  have r1: "audit_ok st1" "ps_requests st1 = map (\<lambda>r. if pr_id r \<in> set ?keys then stamp PCanceled now r else r) (ps_requests st)"
    using cancel_permissions_result [OF Cons.prems(1) ok(1,2) st1] by simp_all
  have "audit_ok st' \<and> ps_requests st' = map (\<lambda>r. if waits_for (set ids) r then stamp PCanceled now r else r) (ps_requests st1)"
    using Cons.IH [OF _ rest] r1(1) by simp
  moreover have "(if waits_for (set ids) (if pr_id r \<in> set ?keys then stamp PCanceled now r else r)
      then stamp PCanceled now (if pr_id r \<in> set ?keys then stamp PCanceled now r else r)
      else if pr_id r \<in> set ?keys then stamp PCanceled now r else r) =
     (if waits_for (set (cid # ids)) r then stamp PCanceled now r else r)" if "r \<in> set (ps_requests st)" for r
    using ok(3) [OF that] by (auto simp: waits_for_def simp del: as_str.simps)
  ultimately show ?case by (simp add: r1(2))
qed


lemma get_command_update:
  "(\<And>c. cr_id (f c) = cr_id c) \<Longrightarrow>
   get_command k (cs\<lparr>cs_commands := update_rows (\<lambda>c. cr_id c = key) f (cs_commands cs), cs_base := st\<rparr>) =
     map_option (\<lambda>c. if k = key then f c else c) (get_command k cs)"
proof -
  have "(\<And>c. cr_id (f c) = cr_id c) \<Longrightarrow>
     find (\<lambda>c. cr_id c = k) (update_rows (\<lambda>c. cr_id c = key) f rows) =
     map_option (\<lambda>c. if k = key then f c else c) (find (\<lambda>c. cr_id c = k) rows)" for rows
    by (induction rows) (auto simp: update_rows_def)
  then show "(\<And>c. cr_id (f c) = cr_id c) \<Longrightarrow> ?thesis" by (simp add: get_command_def)
qed

section \<open>Properties\<close>

text \<open>
  C27: A restart leaves no command half-done and no approvable request behind it.  The sweep
  reports exactly the commands that were pending or running and fails them, cancels every pending
  permission request that waits for one of them in the same transaction, changes no other row, and
  keeps the audit trail of permissions.
\<close>

theorem reconcile_commands_settles:
  assumes "reachable store_init (store_step json_valid) (cs_base cs)"
    and "reconcile_orphaned_commands db next_id now cs = (Ok (ids, n), cs')"
  shows "ids = map cr_id (filter live (cs_commands cs)) \<and>
    cs_commands cs' = map (\<lambda>c. if live c then reconcile_row now c else c) (cs_commands cs) \<and>
    \<not> list_ex live (cs_commands cs') \<and>
    ps_requests (cs_base cs') = map (\<lambda>r. if pr_status r = as_str PPending \<and> pr_source r = lit ''command'' \<and> pr_subject_id r \<in> Some ` set ids
        then r\<lparr>pr_status := as_str PCanceled, pr_updated_at := now\<rparr> else r) (ps_requests (cs_base cs)) \<and>
    audit_ok (cs_base cs')"
proof -
  have ok: "audit_ok (cs_base cs)" using pst.reachable_inv assms(1) .
  obtain st where st: "reconcile_commands next_id 0 now (map cr_id (filter live (cs_commands cs))) (cs_base cs) = Some (n, st)"
    and parts: "ids = map cr_id (filter live (cs_commands cs))"
      "cs' = \<lparr>cs_base = st, cs_commands = map (\<lambda>c. if live c then reconcile_row now c else c) (cs_commands cs)\<rparr>"
    using assms(2) by (auto simp: reconcile_orphaned_commands_def Let_def split: option.splits if_splits)
  have "\<not> live (reconcile_row now c)" for c by (simp add: live_def reconcile_row_def lit_def)
  then show ?thesis
    using reconcile_commands_result [OF ok st] parts by (auto simp: waits_for_def stamp_def list_ex_iff)
qed

definition sample_command :: new_command_record where
  "sample_command = \<lparr>nc_command = lit ''ls'', nc_cwd = None, nc_env_json = None, nc_origin = Operator,
     nc_session_id = None, nc_terminal_id = None\<rparr>"

text \<open>A command that waits for the pending sample request.\<close>

definition sample_stranded :: cstore where
  "sample_stranded = snd (append_command (\<lambda>_. True) True (lit ''cmd_1'') (lit ''t0'') sample_command
     \<lparr>cs_base = sample_pending, cs_commands = []\<rparr>)"

lemmas command_sample_defs = sample_stranded_def sample_command_def append_command_def new_command_def get_command_def

lemma sample_stranded_reachable: "reachable store_init (store_step (\<lambda>_. True)) (cs_base sample_stranded)"
proof -
  have "cs_base sample_stranded = sample_pending\<lparr>ps_sessions := ps_sessions sample_pending,
      ps_change_seq := ps_change_seq sample_pending, ps_outbox := ps_outbox (cs_base sample_stranded)\<rparr>"
    by (simp add: command_sample_defs log_row_def Let_def)
  then show ?thesis using reachable_step [OF sample_reachable(1) store_step.other_tables] by metis
qed

theorem reconcile_commands_settles_witness:
  "map pr_status (ps_requests (cs_base (snd (reconcile_orphaned_commands True (\<lambda>n. [n]) (lit ''t9'') sample_stranded)))) = [lit ''cancelled'']"
proof -
  let ?rec = "reconcile_orphaned_commands True (\<lambda>n. [n]) (lit ''t9'') sample_stranded"
  have "fst ?rec = Ok ([lit ''cmd_1''], 1)"
    by (simp add: reconcile_orphaned_commands_def live_def command_permission_ids_def command_sample_defs sample_defs Let_def)
  then have "?rec = (Ok ([lit ''cmd_1''], 1), snd ?rec)" by (metis prod.collapse)
  from reconcile_commands_settles [OF sample_stranded_reachable this] show ?thesis
    by (simp add: command_sample_defs sample_defs Let_def)
qed

end
