(* ===== verification/Command_Output.thy ===== *)
theory Command_Output
  imports Command_Store
begin

unbundle bit_operations_syntax

text \<open>
  Output of commands: \<^verbatim>\<open>src/runtime/mediation/commands/output.rs\<close> and the chunk handling of
  \<^verbatim>\<open>src/runtime/mediation/commands/supervisor.rs\<close>.

  A reader pumps the bytes of one pipe of the child into chunks of text, holding back an incomplete
  character at the end of a read; the supervisor persists the chunks, numbered, until the limit of
  the command is reached, and cuts the chunk that crosses it at a character boundary.  The lemmas
  show that decoding read by read gives exactly what decoding the whole stream would give, and that
  what is persisted is the longest prefix of whole characters within the limit.
\<close>

section \<open>Lossy decoding\<close>

text \<open>
  \<^verbatim>\<open>String::from_utf8_lossy\<close>: a well-formed sequence gives its scalar value, and each
  maximal prefix of a well-formed sequence that is not completed, and each byte that starts none,
  gives one replacement character.  \<open>tail_tests\<close> lists what the bytes after a leading byte must
  satisfy.
\<close>

definition cont :: "byte \<Rightarrow> bool" where
  "cont b \<longleftrightarrow> 0x80 \<le> b \<and> b < 0xC0"

definition tail_tests :: "byte \<Rightarrow> (byte \<Rightarrow> bool) list option" where
  "tail_tests l =
     (if l < 0x80 then Some []
      else if 0xC2 \<le> l \<and> l < 0xE0 then Some [cont]
      else if l = 0xE0 then Some [\<lambda>b. 0xA0 \<le> b \<and> b < 0xC0, cont]
      else if l = 0xED then Some [\<lambda>b. 0x80 \<le> b \<and> b < 0xA0, cont]
      else if 0xE0 < l \<and> l < 0xF0 then Some [cont, cont]
      else if l = 0xF0 then Some [\<lambda>b. 0x90 \<le> b \<and> b < 0xC0, cont, cont]
      else if l = 0xF4 then Some [\<lambda>b. 0x80 \<le> b \<and> b < 0x90, cont, cont]
      else if 0xF0 < l \<and> l < 0xF4 then Some [cont, cont, cont]
      else None)"

fun good_run :: "(byte \<Rightarrow> bool) list \<Rightarrow> byte list \<Rightarrow> nat" where
  "good_run (t # ts) (b # bs) = (if t b then Suc (good_run ts bs) else 0)"
| "good_run _ _ = 0"

function from_utf8_lossy :: "byte list \<Rightarrow> rstr" where
  "from_utf8_lossy [] = []"
| "from_utf8_lossy (b # bs) =
     (case tail_tests b of
        None \<Rightarrow> 0xFFFD # from_utf8_lossy bs
      | Some ts \<Rightarrow>
          let k = good_run ts bs in
          (if k = length ts then utf8_decode1 (b # bs) else 0xFFFD) # from_utf8_lossy (drop k bs))"
  by pat_completeness auto
termination by (relation "measure length") auto

section \<open>The reader of a pipe\<close>

text \<open>The loop over the offsets from the end of the buffer.\<close>

fun split_loop :: "byte list \<Rightarrow> nat list \<Rightarrow> nat \<times> nat" where
  "split_loop buf [] = (0, 0)"
| "split_loop buf (offset # offsets) =
     (if length buf < offset then (0, 0)
      else let i = length buf - offset; b = buf ! i in
        if b AND 0xC0 = 0x80 then split_loop buf offsets
        else if b AND 0xF8 = 0xF0 \<and> offset < 4 then (i, i)
        else if b AND 0xF0 = 0xE0 \<and> offset < 3 then (i, i)
        else if b AND 0xE0 = 0xC0 \<and> offset < 2 then (i, i)
        else (length buf, length buf))"

definition utf8_split_boundary :: "byte list \<Rightarrow> nat \<times> nat" where
  "utf8_split_boundary buf = split_loop buf [1, 2, 3]"

record output_chunk =
  oc_stream :: rstr
  oc_data :: rstr

text \<open>
  A read gives the bytes of the pipe (none at the end of the stream), or fails.  \<open>listening n\<close>
  is whether the receiver still takes the \<open>n\<close>th chunk.  The result is the chunks sent.
\<close>

type_synonym read_result = "byte list option"

fun read_stream ::
  "(nat \<Rightarrow> bool) \<Rightarrow> rstr \<Rightarrow> byte list \<Rightarrow> output_chunk list \<Rightarrow> read_result list \<Rightarrow> output_chunk list" where
  "read_stream listening stream carryover sent [] = sent"
| "read_stream listening stream carryover sent (None # reads) = sent"
| "read_stream listening stream carryover sent (Some bytes # reads) =
     (if bytes = [] then
        (if carryover \<noteq> [] \<and> listening (length sent)
         then sent @ [\<lparr>oc_stream = stream, oc_data = from_utf8_lossy carryover\<rparr>] else sent)
      else
        let combined = carryover @ bytes;
            (decoded_end, residue_start) = utf8_split_boundary combined;
            (decoded_end, residue_start) =
              (if 3 < length combined - residue_start then (length combined, length combined)
               else (decoded_end, residue_start));
            carryover = drop residue_start combined;
            chunk = from_utf8_lossy (take decoded_end combined)
        in if chunk = [] then read_stream listening stream carryover sent reads
           else if listening (length sent)
           then read_stream listening stream carryover
                  (sent @ [\<lparr>oc_stream = stream, oc_data = chunk\<rparr>]) reads
           else sent)"

section \<open>The limit on persisted output\<close>

record output_counter =
  ct_used :: nat
  ct_max :: nat
  ct_exhausted :: bool
  ct_seq :: nat

definition new_counter :: "nat \<Rightarrow> output_counter" where
  "new_counter limit = \<lparr>ct_used = 0, ct_max = limit, ct_exhausted = False, ct_seq = 0\<rparr>"

definition remaining :: "output_counter \<Rightarrow> nat" where
  "remaining counter = ct_max counter - ct_used counter"

fun floor_loop :: "rstr \<Rightarrow> nat \<Rightarrow> nat" where
  "floor_loop s 0 = 0"
| "floor_loop s (Suc n) = (if is_char_boundary s (Suc n) then Suc n else floor_loop s n)"

definition floor_char_boundary :: "rstr \<Rightarrow> nat \<Rightarrow> nat" where
  "floor_char_boundary s limit = (if str_len s \<le> limit then str_len s else floor_loop s limit)"

text \<open>
  A row of the \<^verbatim>\<open>events\<close> table, the payload as the values that are written as JSON.
\<close>

datatype event_payload =
    OutputPayload rstr rstr nat rstr
  | CommandPayload rstr

record event_row =
  ev_id :: rstr
  ev_created_at :: rstr
  ev_level :: rstr
  ev_kind :: rstr
  ev_message :: rstr
  ev_payload :: event_payload
  ev_source :: rstr

record ostate =
  os_store :: cstore
  os_events :: "event_row list"

definition append_event_with_source ::
  "bool \<Rightarrow> rstr \<Rightarrow> rstr \<Rightarrow> rstr \<Rightarrow> rstr \<Rightarrow> rstr \<Rightarrow> rstr \<Rightarrow> event_payload \<Rightarrow> ostate \<Rightarrow> event_row result \<times> ostate" where
  "append_event_with_source db key now level kind source message payload os =
     (if \<not> db \<or> key \<in> ev_id ` set (os_events os) then (Err StateAccessFailed, os)
      else let e = \<lparr>ev_id = key, ev_created_at = now, ev_level = level, ev_kind = kind, ev_message = message,
                    ev_payload = payload, ev_source = source\<rparr>
        in (Ok e, os\<lparr>os_events := os_events os @ [e],
              os_store := (os_store os)\<lparr>cs_base := log_row (lit ''events'') key now (cs_base (os_store os))\<rparr>\<rparr>))"

text \<open>What the transactions of one chunk are given.\<close>

record chunk_env =
  ce_event_ok :: bool
  ce_event_key :: rstr
  ce_event_at :: rstr
  ce_row_ok :: bool
  ce_mark_ok :: bool
  ce_mark_at :: rstr
  ce_note_ok :: bool
  ce_note_key :: rstr
  ce_note_at :: rstr

definition clamp_i64 :: "nat \<Rightarrow> int" where
  "clamp_i64 n = int (min n (2 ^ 63 - 1))"

text \<open>
  The event and the progress of the row are two transactions: when the second one fails the event
  stays.
\<close>

definition append_command_output ::
  "chunk_env \<Rightarrow> rstr \<Rightarrow> rstr \<Rightarrow> nat \<Rightarrow> rstr \<Rightarrow> ostate \<Rightarrow> event_row result \<times> ostate" where
  "append_command_output e command_id stream seq chunk os =
     (case append_event_with_source (ce_event_ok e) (ce_event_key e) (ce_event_at e) (lit ''info'')
             (lit ''command.'' @ stream) (lit ''command'') [] (OutputPayload command_id stream seq chunk) os of
        (Inl err, os') \<Rightarrow> (Inl err, os')
      | (Inr event, os') \<Rightarrow>
          (case record_command_output_progress (ce_row_ok e) command_id (ev_id event) (ev_created_at event)
                  (clamp_i64 seq) (clamp_i64 (str_len chunk)) (os_store os') of
             (Inl err, cs) \<Rightarrow> (Inl err, os'\<lparr>os_store := cs\<rparr>)
           | (Inr _, cs) \<Rightarrow> (Inr event, os'\<lparr>os_store := cs\<rparr>)))"

definition persist_chunk ::
  "chunk_env \<Rightarrow> rstr \<Rightarrow> rstr \<Rightarrow> nat \<Rightarrow> rstr \<Rightarrow> ostate \<Rightarrow> unit result \<times> ostate" where
  "persist_chunk e command_id stream seq data os =
     (case append_command_output e command_id stream seq data os of
        (Inl err, os') \<Rightarrow> (Inl err, os')
      | (Inr _, os') \<Rightarrow> (Inr (), os'))"

text \<open>The write job of a truncation: the flag of the row, then the event, whose failure is only logged.\<close>

definition note_truncated :: "chunk_env \<Rightarrow> rstr \<Rightarrow> ostate \<Rightarrow> unit result \<times> ostate" where
  "note_truncated e command_id os =
     (case mark_command_truncated (ce_mark_ok e) command_id (ce_mark_at e) (os_store os) of
        (Inl err, cs) \<Rightarrow> (Inl err, os\<lparr>os_store := cs\<rparr>)
      | (Inr _, cs) \<Rightarrow>
          (Inr (), snd (append_event_with_source (ce_note_ok e) (ce_note_key e) (ce_note_at e) (lit ''info'')
             (lit ''command.output_truncated'') (lit ''command'') [] (CommandPayload command_id) (os\<lparr>os_store := cs\<rparr>))))"

definition handle_chunk ::
  "chunk_env \<Rightarrow> rstr \<Rightarrow> output_chunk \<Rightarrow> output_counter \<Rightarrow> ostate \<Rightarrow> bool result \<times> output_counter \<times> ostate" where
  "handle_chunk e command_id chunk counter os =
     (if ct_exhausted counter then (Inr False, counter, os)
      else if remaining counter < str_len (oc_data chunk) then
        let cutoff = floor_char_boundary (oc_data chunk) (remaining counter);
            head = take_bytes cutoff (oc_data chunk)
        in case (if head = [] then (Inr (), os)
                 else persist_chunk e command_id (oc_stream chunk) (ct_seq counter) head os) of
             (Inl err, os') \<Rightarrow> (Inl err, counter, os')
           | (Inr _, os') \<Rightarrow>
               let counter' = (if head = [] then counter
                     else counter\<lparr>ct_seq := ct_seq counter + 1, ct_used := ct_used counter + str_len head\<rparr>)
                     \<lparr>ct_exhausted := True\<rparr>
               in case note_truncated e command_id os' of
                    (Inl err, os'') \<Rightarrow> (Inl err, counter', os'')
                  | (Inr _, os'') \<Rightarrow> (Inr (head \<noteq> []), counter', os'')
      else case persist_chunk e command_id (oc_stream chunk) (ct_seq counter) (oc_data chunk) os of
             (Inl err, os') \<Rightarrow> (Inl err, counter, os')
           | (Inr _, os') \<Rightarrow>
               (Inr True, counter\<lparr>ct_seq := ct_seq counter + 1,
                  ct_used := ct_used counter + str_len (oc_data chunk)\<rparr>, os'))"

text \<open>The chunks received by the main loop and by the drain after it; both end at the first error.\<close>

fun receive_chunks ::
  "(nat \<Rightarrow> chunk_env) \<Rightarrow> nat \<Rightarrow> rstr \<Rightarrow> output_chunk list \<Rightarrow> output_counter \<Rightarrow> ostate \<Rightarrow> bool \<times> output_counter \<times> ostate" where
  "receive_chunks envs n command_id [] counter os = (True, counter, os)"
| "receive_chunks envs n command_id (chunk # chunks) counter os =
     (case handle_chunk (envs n) command_id chunk counter os of
        (Inl err, counter', os') \<Rightarrow> (False, counter', os')
      | (Inr _, counter', os') \<Rightarrow> receive_chunks envs (Suc n) command_id chunks counter' os')"

section \<open>Decoding a concatenation\<close>

lemma tail_tests_cont:
  "tail_tests b = Some ts \<Longrightarrow> t \<in> set ts \<Longrightarrow> t x \<Longrightarrow> cont x"
  by (auto simp: tail_tests_def cont_def split: if_splits)

lemma tail_tests_length: "tail_tests b = Some ts \<Longrightarrow> length ts \<le> 3"
  by (auto simp: tail_tests_def split: if_splits)

lemma cont_starts_nothing: "cont b \<Longrightarrow> tail_tests b = None"
  by (auto simp: tail_tests_def cont_def)

lemma good_run_le: "good_run ts bs \<le> length ts" "good_run ts bs \<le> length bs"
  by (induction ts bs rule: good_run.induct) auto

lemma good_run_append_long: "length ts \<le> length bs \<Longrightarrow> good_run ts (bs @ y) = good_run ts bs"
proof (induction ts arbitrary: bs)
  case (Cons t ts)
  then show ?case by (cases bs) auto
qed simp

lemma good_run_append_stop:
  assumes "\<And>t x. t \<in> set ts \<Longrightarrow> t x \<Longrightarrow> cont x" and "y = [] \<or> \<not> cont (hd y)"
  shows "good_run ts (bs @ y) = good_run ts bs"
  using assms(1)
proof (induction ts arbitrary: bs)
  case (Cons t ts)
  then show ?case using assms(2) by (cases bs; cases y) auto
qed simp

lemma decode1_append:
  assumes "tail_tests b = Some ts" and "length ts \<le> length bs"
  shows "utf8_decode1 (b # bs @ y) = utf8_decode1 (b # bs)"
proof -
  have "b < 0x80 \<or> b < 0xE0 \<and> 1 \<le> length bs \<or> b < 0xF0 \<and> 2 \<le> length bs \<or> 3 \<le> length bs"
    using assms by (auto simp: tail_tests_def split: if_splits)
  then show ?thesis
    by (elim disjE conjE) (auto simp: utf8_decode1_def Let_def nth_append nth_Cons')
qed

lemma lossy_Cons_append:
  assumes "\<And>ts. tail_tests b = Some ts \<Longrightarrow> good_run ts (bs @ y) = good_run ts bs"
    and "\<And>k. from_utf8_lossy (drop k bs @ y) = from_utf8_lossy (drop k bs) @ from_utf8_lossy y"
  shows "from_utf8_lossy (b # bs @ y) = from_utf8_lossy (b # bs) @ from_utf8_lossy y"
proof (cases "tail_tests b")
  case None
  then show ?thesis using assms(2) [of 0] by simp
next
  case (Some ts)
  let ?k = "good_run ts bs"
  have "?k = length ts \<Longrightarrow> utf8_decode1 (b # bs @ y) = utf8_decode1 (b # bs)"
    using decode1_append [OF Some] good_run_le(2) [of ts bs] by simp
  moreover have "drop ?k (bs @ y) = drop ?k bs @ y" using good_run_le(2) [of ts bs] by simp
  ultimately show ?thesis using Some assms(1) [OF Some] assms(2) [of ?k] by (simp add: Let_def)
qed

lemma lossy_before_lead:
  assumes "y = [] \<or> \<not> cont (hd y)"
  shows "from_utf8_lossy (a @ y) = from_utf8_lossy a @ from_utf8_lossy y"
proof (induction "length a" arbitrary: a rule: less_induct)
  case less
  show ?case
  proof (cases a)
    case (Cons b bs)
    have "from_utf8_lossy (b # bs @ y) = from_utf8_lossy (b # bs) @ from_utf8_lossy y"
    proof (rule lossy_Cons_append)
      show "good_run ts (bs @ y) = good_run ts bs" if "tail_tests b = Some ts" for ts
        by (rule good_run_append_stop [OF tail_tests_cont [OF that] assms])
      show "from_utf8_lossy (drop k bs @ y) = from_utf8_lossy (drop k bs) @ from_utf8_lossy y" for k
        by (rule less) (simp add: Cons)
    qed
    then show ?thesis using Cons by (simp only: append_Cons)
  qed simp
qed

lemma lossy_conts: "list_all cont cs \<Longrightarrow> from_utf8_lossy (cs @ y) = from_utf8_lossy cs @ from_utf8_lossy y"
  by (induction cs) (simp_all add: cont_starts_nothing)

text \<open>A sequence that has, or can no longer get, all its bytes.\<close>

definition sealed :: "byte list \<Rightarrow> bool" where
  "sealed a \<longleftrightarrow> (\<forall>y. from_utf8_lossy (a @ y) = from_utf8_lossy a @ from_utf8_lossy y)"

lemma sealed_conts: "list_all cont cs \<Longrightarrow> sealed cs"
  by (simp add: sealed_def lossy_conts)

lemma sealed_lead:
  assumes l: "\<not> cont l" and cs: "list_all cont cs" and len: "\<And>ts. tail_tests l = Some ts \<Longrightarrow> length ts \<le> length cs"
  shows "sealed (p @ l # cs)"
  unfolding sealed_def
proof
  fix y
  have "list_all cont (drop k cs)" for k using cs by (auto simp: list_all_iff dest: in_set_dropD)
  then have "from_utf8_lossy (l # cs @ y) = from_utf8_lossy (l # cs) @ from_utf8_lossy y"
    by (intro lossy_Cons_append good_run_append_long len lossy_conts)
  then show "from_utf8_lossy ((p @ l # cs) @ y) = from_utf8_lossy (p @ l # cs) @ from_utf8_lossy y"
    using lossy_before_lead [of "l # cs @ y" p] lossy_before_lead [of "l # cs" p] l
    by (simp del: from_utf8_lossy.simps(2))
qed

lemma split_conts:
  obtains "list_all cont a" | p l cs where "a = p @ l # cs" "\<not> cont l" "list_all cont cs"
proof (cases "list_all cont a")
  case False
  then have "\<exists>x \<in> set (rev a). \<not> cont x" by (auto simp: list_all_iff)
  then obtain q l r where r: "rev a = q @ l # r" "\<not> cont l" "\<forall>x \<in> set q. cont x"
    using split_list_first_prop [of "rev a" "\<lambda>x. \<not> cont x"] by auto
  have "a = rev r @ l # rev q" using r(1) by (simp add: rev_swap)
  moreover have "list_all cont (rev q)" using r(3) by (simp add: list_all_iff)
  ultimately show ?thesis using that(2) r(2) by blast
qed (rule that(1))

lemma sealed_three_conts: "cont x \<Longrightarrow> cont y \<Longrightarrow> cont z \<Longrightarrow> sealed (a @ [x, y, z])"
proof (cases a rule: split_conts)
  case (2 p l cs)
  assume "cont x" "cont y" "cont z"
  moreover have "\<And>ts. tail_tests l = Some ts \<Longrightarrow> length ts \<le> length (cs @ [x, y, z])"
    by (drule tail_tests_length) simp
  ultimately show ?thesis using sealed_lead [of l "cs @ [x, y, z]" p] 2 by simp
qed (simp add: sealed_conts)

lemma lossy_utf8_char:
  assumes "is_scalar c"
  shows "from_utf8_lossy (utf8_char c @ y) = c # from_utf8_lossy y"
proof -
  have c: "c < 0x110000" "c < 0xD800 \<or> 0xE000 \<le> c" using assms by (auto simp: is_scalar_def)
  have dec: "utf8_decode1 (utf8_char c @ y) = c" using decode1_utf8_char c(1) by blast
  consider "c < 0x80" | "0x80 \<le> c" "c < 0x800" | "0x800 \<le> c" "c < 0x10000" | "0x10000 \<le> c" by linarith
  then show ?thesis
  proof cases
    case 1
    then show ?thesis using dec by (simp add: utf8_char_def tail_tests_def)
  next
    case 2
    then have b: "utf8_char c = [0xC0 + c div 64, 0x80 + c mod 64]" by (simp add: utf8_char_def)
    have "2 \<le> c div 64" "c div 64 < 32" using 2 by (auto simp: div_less_iff_less_mult less_eq_div_iff_mult_less_eq)
    then have "tail_tests (0xC0 + c div 64) = Some [cont]" by (simp add: tail_tests_def)
    then show ?thesis using dec by (simp add: b cont_def)
  next
    case 3
    then have b: "utf8_char c = [0xE0 + c div 4096, 0x80 + c div 64 mod 64, 0x80 + c mod 64]" by (simp add: utf8_char_def)
    have hi: "c div 4096 < 16" using 3 by (simp add: div_less_iff_less_mult)
    have q: "c div 64 = c div 4096 * 64 + c div 64 mod 64"
      using div_mult_mod_eq [of "c div 64" 64] by (simp add: div_mult2_eq [symmetric])
    have lo: "c div 4096 = 0 \<Longrightarrow> 32 \<le> c div 64 mod 64" "c div 4096 = 13 \<Longrightarrow> c div 64 mod 64 < 32"
      using q 3 c(2) by linarith+
    define h m l where "h = c div 4096" "m = c div 64 mod 64" "l = c mod 64"
    note hml = h_m_l_def [symmetric]
    have "tail_tests (0xE0 + h) = Some [\<lambda>b. (if h = 0 then 0xA0 else 0x80) \<le> b \<and> b < (if h = 13 then 0xA0 else 0xC0), cont]"
      using hi [unfolded hml] by (auto simp: tail_tests_def cont_def)
    moreover have "m < 64" "l < 64" by (simp_all add: h_m_l_def)
    ultimately show ?thesis using dec [unfolded b hml] lo [unfolded hml] by (simp add: b [unfolded hml] cont_def)
  next
    case 4
    then have b: "utf8_char c = [0xF0 + c div 262144, 0x80 + c div 4096 mod 64, 0x80 + c div 64 mod 64, 0x80 + c mod 64]"
      by (simp add: utf8_char_def)
    have hi: "c div 262144 < 5" using c(1) by (simp add: div_less_iff_less_mult)
    have q: "c div 4096 = c div 262144 * 64 + c div 4096 mod 64"
      using div_mult_mod_eq [of "c div 4096" 64] by (simp add: div_mult2_eq [symmetric])
    have lo: "c div 262144 = 0 \<Longrightarrow> 16 \<le> c div 4096 mod 64" "c div 262144 = 4 \<Longrightarrow> c div 4096 mod 64 < 16"
      using q 4 c(1) by linarith+
    define h k m l where "h = c div 262144" "k = c div 4096 mod 64" "m = c div 64 mod 64" "l = c mod 64"
    note hkml = h_k_m_l_def [symmetric]
    have "tail_tests (0xF0 + h) = Some [\<lambda>b. (if h = 0 then 0x90 else 0x80) \<le> b \<and> b < (if h = 4 then 0x90 else 0xC0), cont, cont]"
      using hi [unfolded hkml] by (auto simp: tail_tests_def cont_def)
    moreover have "k < 64" "m < 64" "l < 64" by (simp_all add: h_k_m_l_def)
    ultimately show ?thesis using dec [unfolded b hkml] lo [unfolded hkml] by (simp add: b [unfolded hkml] cont_def)
  qed
qed

lemma lossy_as_bytes: "wf_str s \<Longrightarrow> from_utf8_lossy (as_bytes s) = s"
  by (induction s) (simp_all add: lossy_utf8_char)

section \<open>The split of a read\<close>

lemma and_high_bits:
  fixes b :: nat
  assumes "b < 2 ^ n" and "m \<le> n"
  shows "b AND push_bit m (mask (n - m)) = b div 2 ^ m * 2 ^ m"
proof -
  have "take_bit n b = b" using assms(1) by (simp add: take_bit_nat_eq_self_iff)
  then have "bit b k \<Longrightarrow> k < n" for k by (metis bit_take_bit_iff)
  then have "b AND push_bit m (mask (n - m)) = push_bit m (drop_bit m b)"
    using assms(2) by (auto simp: bit_eq_iff bit_simps diff_less_mono)
  then show ?thesis by (simp add: push_bit_eq_mult drop_bit_eq_div)
qed

lemma masks:
  assumes "b < 256"
  shows "b AND 0xC0 = 0x80 \<longleftrightarrow> cont b" "b AND 0xF8 = 0xF0 \<longleftrightarrow> 0xF0 \<le> b \<and> b < 0xF8"
    "b AND 0xF0 = 0xE0 \<longleftrightarrow> 0xE0 \<le> b \<and> b < 0xF0" "b AND 0xE0 = 0xC0 \<longleftrightarrow> 0xC0 \<le> b \<and> b < 0xE0"
proof -
  have "b AND 0xC0 = b div 64 * 64" "b AND 0xF8 = b div 8 * 8" "b AND 0xF0 = b div 16 * 16" "b AND 0xE0 = b div 32 * 32"
    using and_high_bits [of b 8 6] and_high_bits [of b 8 3] and_high_bits [of b 8 4] and_high_bits [of b 8 5] assms
    by (simp_all add: mask_eq_exp_minus_1 push_bit_eq_mult)
  moreover have "b div k * k = j * k \<longleftrightarrow> j * k \<le> b \<and> b < Suc j * k" if "0 < k" for j k
  proof -
    have "b div k * k = j * k \<longleftrightarrow> j \<le> b div k \<and> b div k < Suc j" using that by auto
    also have "\<dots> \<longleftrightarrow> j * k \<le> b \<and> b < Suc j * k"
      using that by (simp only: less_eq_div_iff_mult_less_eq div_less_iff_less_mult)
    finally show ?thesis .
  qed
  note this [of 64 2] this [of 8 30] this [of 16 14] this [of 32 6]
  ultimately show "b AND 0xC0 = 0x80 \<longleftrightarrow> cont b" "b AND 0xF8 = 0xF0 \<longleftrightarrow> 0xF0 \<le> b \<and> b < 0xF8"
    "b AND 0xF0 = 0xE0 \<longleftrightarrow> 0xE0 \<le> b \<and> b < 0xF0" "b AND 0xE0 = 0xC0 \<longleftrightarrow> 0xC0 \<le> b \<and> b < 0xE0"
    by (simp_all add: cont_def)
qed

abbreviation octets :: "byte list \<Rightarrow> bool" where
  "octets \<equiv> list_all (\<lambda>b. b < 256)"

lemma tails_short:
  "\<not> (0xF0 \<le> l \<and> l < 0xF8) \<Longrightarrow> tail_tests l = Some ts \<Longrightarrow> length ts \<le> 2"
  "\<not> (0xF0 \<le> l \<and> l < 0xF8) \<Longrightarrow> \<not> (0xE0 \<le> l \<and> l < 0xF0) \<Longrightarrow> tail_tests l = Some ts \<Longrightarrow> length ts \<le> 1"
  "\<not> (0xF0 \<le> l \<and> l < 0xF8) \<Longrightarrow> \<not> (0xE0 \<le> l \<and> l < 0xF0) \<Longrightarrow> \<not> (0xC0 \<le> l \<and> l < 0xE0) \<Longrightarrow>
     tail_tests l = Some ts \<Longrightarrow> ts = []"
  by (auto simp: tail_tests_def split: if_splits)

text \<open>
  The split falls before a leading byte at most three bytes from the end, or after a sealed
  buffer, or defers a buffer that is sealed or shorter than three bytes.
\<close>

definition good_split :: "byte list \<Rightarrow> nat \<Rightarrow> bool" where
  "good_split buf i \<longleftrightarrow>
     i = length buf \<and> sealed buf \<or> i < length buf \<and> length buf \<le> i + 3 \<and> \<not> cont (buf ! i) \<or>
     i = 0 \<and> (length buf \<le> 2 \<or> sealed buf)"

lemma split_last:
  assumes "octets (q @ [z])" and "\<not> cont z"
  shows "\<exists>i. utf8_split_boundary (q @ [z]) = (i, i) \<and> good_split (q @ [z]) i"
proof -
  let ?i = "if 0xC0 \<le> z \<and> z < 0xF8 then length q else length (q @ [z])"
  have "utf8_split_boundary (q @ [z]) = (?i, ?i)"
    using assms unfolding utf8_split_boundary_def by (auto simp: masks Let_def)
  moreover have "\<not> (0xC0 \<le> z \<and> z < 0xF8) \<Longrightarrow> sealed (q @ [z])"
    using sealed_lead [of z "[]" q] tails_short(3) [of z] assms(2) by fastforce
  ultimately show ?thesis using assms(2) by (auto simp: good_split_def)
qed

lemma split_last2:
  assumes "octets (q @ [y, z])" and "\<not> cont y" and "cont z"
  shows "\<exists>i. utf8_split_boundary (q @ [y, z]) = (i, i) \<and> good_split (q @ [y, z]) i"
proof -
  let ?i = "if 0xE0 \<le> y \<and> y < 0xF8 then length q else length (q @ [y, z])"
  have "utf8_split_boundary (q @ [y, z]) = (?i, ?i)"
    using assms unfolding utf8_split_boundary_def by (auto simp: masks Let_def nth_append)
  moreover have "\<not> (0xE0 \<le> y \<and> y < 0xF8) \<Longrightarrow> sealed (q @ [y, z])"
    using sealed_lead [of y "[z]" q] tails_short(2) [of y] assms(2,3) by fastforce
  ultimately show ?thesis using assms(2) by (auto simp: good_split_def)
qed

lemma split_last3:
  assumes "octets (q @ [x, y, z])" and "cont y" and "cont z"
  shows "\<exists>i. utf8_split_boundary (q @ [x, y, z]) = (i, i) \<and> good_split (q @ [x, y, z]) i"
proof -
  let ?i = "if cont x then 0 else if 0xF0 \<le> x \<and> x < 0xF8 then length q else length (q @ [x, y, z])"
  have "utf8_split_boundary (q @ [x, y, z]) = (?i, ?i)"
    using assms unfolding utf8_split_boundary_def by (auto simp: masks Let_def nth_append)
  moreover have "cont x \<or> \<not> (0xF0 \<le> x \<and> x < 0xF8) \<Longrightarrow> sealed (q @ [x, y, z])"
    using sealed_lead [of x "[y, z]" q] tails_short(1) [of x] sealed_three_conts [of x y z q] assms(2,3) by fastforce
  ultimately show ?thesis by (auto simp: good_split_def)
qed

lemma split_short:
  assumes "octets buf" and "list_all cont buf" and "length buf \<le> 2"
  shows "utf8_split_boundary buf = (0, 0)"
proof -
  consider "buf = []" | z where "buf = [z]" | y z where "buf = [y, z]"
    using assms(3) by (cases buf; cases "tl buf") auto
  then show ?thesis using assms by cases (simp_all add: utf8_split_boundary_def masks Let_def)
qed

lemma split_boundary_good:
  assumes "octets buf"
  shows "\<exists>i. utf8_split_boundary buf = (i, i) \<and> good_split buf i"
proof (cases buf rule: split_conts)
  case 1
  show ?thesis
  proof (cases "length buf \<le> 2")
    case False
    then have "length (drop (length buf - 3) buf) = Suc (Suc (Suc 0))" by simp
    moreover have "buf = take (length buf - 3) buf @ drop (length buf - 3) buf" by simp
    ultimately obtain q r where "buf = q @ r" "length r = Suc (Suc (Suc 0))" by blast
    then obtain x y z where "buf = q @ [x, y, z]" by (auto simp: length_Suc_conv)
    then show ?thesis using 1 assms split_last3 by simp
  qed (use 1 assms split_short in \<open>simp add: good_split_def\<close>)
next
  case (2 p l cs)
  show ?thesis
  proof (cases cs rule: rev_cases)
    case Nil
    then show ?thesis using 2 assms split_last by simp
  next
    case (snoc cs' z)
    show ?thesis
    proof (cases cs' rule: rev_cases)
      case Nil
      then show ?thesis using 2 assms snoc split_last2 by simp
    next
      case (snoc ds y)
      obtain q x where "p @ l # ds = q @ [x]" by (cases "p @ l # ds" rule: rev_cases) auto
      then have "buf = q @ [x, y, z]" using 2(1) snoc \<open>cs = cs' @ [z]\<close>
        by (metis append.assoc append_Cons append_Nil)
      then show ?thesis using 2(3) assms snoc \<open>cs = cs' @ [z]\<close> split_last3 by simp
    qed
  qed
qed

lemma good_split_decodes:
  assumes "good_split buf i"
  shows "from_utf8_lossy (buf @ y) = from_utf8_lossy (take i buf) @ from_utf8_lossy (drop i buf @ y)"
proof -
  consider "i = length buf" "sealed buf" | "i < length buf" "\<not> cont (buf ! i)" | "i = 0"
    using assms by (auto simp: good_split_def)
  then show ?thesis
  proof cases
    case 2
    then have "drop i buf @ y \<noteq> []" "hd (drop i buf @ y) = buf ! i" by (simp_all add: hd_append hd_drop_conv_nth)
    then show ?thesis using lossy_before_lead [of "drop i buf @ y" "take i buf"] 2(2) by (metis append_assoc append_take_drop_id)
  qed (simp_all add: sealed_def)
qed

lemma length_lossy: "length (from_utf8_lossy bs) \<le> length bs"
proof (induction bs rule: from_utf8_lossy.induct)
  case (2 b bs)
  show ?case
  proof (cases "tail_tests b")
    case (Some ts)
    have "length (from_utf8_lossy (drop (good_run ts bs) bs)) \<le> length bs"
      using 2(2) [OF Some refl] by simp
    then show ?thesis using Some by (simp add: Let_def)
  qed (use 2(1) in simp)
qed simp

lemma lossy_Nil_iff: "from_utf8_lossy bs = [] \<longleftrightarrow> bs = []"
  by (cases bs) (auto simp: Let_def split: option.split)

text \<open>One read: the decoded part and the carryover, which keeps at most three bytes.\<close>

lemma read_stream_step:
  assumes "bytes \<noteq> []" and "octets (carryover @ bytes)"
  obtains i where "length (carryover @ bytes) \<le> i + 3" "good_split (carryover @ bytes) i"
    "read_stream (\<lambda>_. True) stream carryover sent (Some bytes # reads) =
       read_stream (\<lambda>_. True) stream (drop i (carryover @ bytes))
         (if take i (carryover @ bytes) = [] then sent
          else sent @ [\<lparr>oc_stream = stream, oc_data = from_utf8_lossy (take i (carryover @ bytes))\<rparr>]) reads"
proof -
  let ?c = "carryover @ bytes"
  obtain i where i: "utf8_split_boundary ?c = (i, i)" "good_split ?c i" using split_boundary_good [OF assms(2)] by blast
  define j where "j = (if 3 < length ?c - i then length ?c else i)"
  have "good_split ?c j" "length ?c \<le> j + 3"
    using i(2) by (auto simp: j_def good_split_def)
  moreover have "read_stream (\<lambda>_. True) stream carryover sent (Some bytes # reads) =
      read_stream (\<lambda>_. True) stream (drop j ?c)
        (if take j ?c = [] then sent else sent @ [\<lparr>oc_stream = stream, oc_data = from_utf8_lossy (take j ?c)\<rparr>]) reads"
    using assms(1) i(1) by (cases "3 < length ?c - i") (auto simp: Let_def j_def lossy_Nil_iff)
  ultimately show ?thesis using that by blast
qed

abbreviation text_of :: "output_chunk list \<Rightarrow> rstr" where
  "text_of chunks \<equiv> concat (map oc_data chunks)"

abbreviation fair_reads :: "byte list list \<Rightarrow> bool" where
  "fair_reads reads \<equiv> list_all (\<lambda>r. r \<noteq> [] \<and> length r \<le> 4096 \<and> octets r) reads"

definition fair_chunk :: "rstr \<Rightarrow> output_chunk \<Rightarrow> bool" where
  "fair_chunk stream c \<longleftrightarrow> oc_stream c = stream \<and> oc_data c \<noteq> [] \<and> length (oc_data c) \<le> 4096 + 3"

lemma fair_chunk_intro:
  "fair_chunk stream \<lparr>oc_stream = stream, oc_data = s\<rparr> \<longleftrightarrow> s \<noteq> [] \<and> length s \<le> 4096 + 3"
  by (simp add: fair_chunk_def)

lemma read_stream_all:
  assumes "fair_reads reads" and "octets carryover" and "length carryover \<le> 3" and "list_all (fair_chunk stream) sent"
  shows "text_of (read_stream (\<lambda>_. True) stream carryover sent (map Some reads @ [Some []])) =
      text_of sent @ from_utf8_lossy (carryover @ concat reads) \<and>
    list_all (fair_chunk stream) (read_stream (\<lambda>_. True) stream carryover sent (map Some reads @ [Some []]))"
  using assms
proof (induction reads arbitrary: carryover sent)
  case Nil
  then show ?case using length_lossy [of carryover] by (simp add: fair_chunk_def lossy_Nil_iff)
next
  case (Cons r reads)
  let ?c = "carryover @ r"
  have r: "r \<noteq> []" "octets ?c" "length ?c \<le> 4096 + 3" "fair_reads reads" using Cons.prems by auto
  obtain i where i: "length ?c \<le> i + 3" "good_split ?c i"
    and step: "read_stream (\<lambda>_. True) stream carryover sent (Some r # map Some reads @ [Some []]) =
       read_stream (\<lambda>_. True) stream (drop i ?c)
         (if take i ?c = [] then sent
          else sent @ [\<lparr>oc_stream = stream, oc_data = from_utf8_lossy (take i ?c)\<rparr>]) (map Some reads @ [Some []])"
    (is "_ = read_stream _ _ _ ?sent _")
    using read_stream_step [OF r(1,2)] by metis
  have "length (from_utf8_lossy (take i ?c)) \<le> 4096 + 3"
    using length_lossy [of "take i ?c"] r(3) by (metis le_trans length_take min.cobounded1)
  then have "list_all (fair_chunk stream) ?sent"
    using Cons.prems(4) by (simp add: fair_chunk_intro lossy_Nil_iff del: take_append)
  moreover have "octets (drop i ?c)" using r(2) by (auto simp: list_all_iff dest: in_set_dropD)
  moreover have "length (drop i ?c) \<le> 3" using i(1) by simp
  moreover have "text_of ?sent = text_of sent @ from_utf8_lossy (take i ?c)"
    by (simp add: lossy_Nil_iff del: take_append)
  ultimately show ?case
    using Cons.IH [OF r(4), of "drop i ?c" ?sent] good_split_decodes [OF i(2), of "concat reads"] step
    by (simp del: take_append drop_append)
qed

section \<open>Persisting within the limit\<close>

lemma boundary_le_take: "is_char_boundary s m \<Longrightarrow> m \<le> n \<Longrightarrow> m \<le> str_len (take_bytes n s)"
proof (induction s m arbitrary: n rule: is_char_boundary.induct)
  case (2 c s m)
  show ?case
  proof (cases "m = 0")
    case False
    then have "len_utf8 c \<le> m" "is_char_boundary s (m - len_utf8 c)" using 2(2) by auto
    then show ?thesis using 2(1) [of "n - len_utf8 c"] 2(3) by fastforce
  qed simp
qed simp

lemma boundary_take: "is_char_boundary s (str_len (take_bytes n s))"
  by (induction n s rule: take_bytes.induct) auto

lemma take_bytes_le: "str_len (take_bytes n s) \<le> n"
  by (induction n s rule: take_bytes.induct) auto

lemma floor_loop_spec:
  "is_char_boundary s (floor_loop s n) \<and> floor_loop s n \<le> n \<and> (\<forall>m \<le> n. is_char_boundary s m \<longrightarrow> m \<le> floor_loop s n)"
proof (induction n)
  case 0
  then show ?case by (cases s) auto
next
  case (Suc n)
  then show ?case by (auto simp: le_Suc_eq)
qed

lemma take_floor: "take_bytes (floor_char_boundary s n) s = take_bytes n s"
proof -
  have "floor_loop s n = str_len (take_bytes n s)"
    using floor_loop_spec [of s n] boundary_le_take boundary_take take_bytes_le by (metis le_antisym)
  moreover have "take_bytes (str_len (take_bytes n s)) s = take_bytes n s"
    using take_drop_bytes [of n s] take_bytes_str_len by metis
  moreover have "str_len s \<le> n \<Longrightarrow> take_bytes n s = s"
    by (induction n s rule: take_bytes.induct) auto
  ultimately show ?thesis by (simp add: floor_char_boundary_def)
qed

lemma take_bytes_append:
  "take_bytes n (a @ b) = (if str_len a \<le> n then a @ take_bytes (n - str_len a) b else take_bytes n a)"
proof (induction a arbitrary: n)
  case (Cons c a)
  have "str_len (c # a) \<le> n \<longleftrightarrow> len_utf8 c \<le> n \<and> str_len a \<le> n - len_utf8 c" by auto
  then show ?case by (simp add: Cons.IH)
qed simp

definition output_of :: "rstr \<Rightarrow> ostate \<Rightarrow> (nat \<times> rstr) list" where
  "output_of command_id os =
     List.map_filter (\<lambda>e. case ev_payload e of
         OutputPayload c stream seq data \<Rightarrow> if c = command_id then Some (seq, data) else None
       | CommandPayload c \<Rightarrow> None) (os_events os)"

text \<open>No transaction of the output fails, and event keys are fresh; the notice of a truncation may fail.\<close>

definition chunks_ok :: "(nat \<Rightarrow> chunk_env) \<Rightarrow> nat \<Rightarrow> ostate \<Rightarrow> bool" where
  "chunks_ok envs n os \<longleftrightarrow>
     (\<forall>m \<ge> n. ce_event_ok (envs m) \<and> ce_row_ok (envs m) \<and> ce_mark_ok (envs m) \<and>
        ce_event_key (envs m) \<notin> ev_id ` set (os_events os)) \<and>
     inj_on (\<lambda>m. ce_event_key (envs m)) {n..}"

lemma map_filter_snoc: "List.map_filter f (xs @ [x]) = List.map_filter f xs @ (case f x of Some y \<Rightarrow> [y] | None \<Rightarrow> [])"
  by (simp add: List.map_filter_def split: option.split)

lemma get_command_base [simp]: "get_command k (cs\<lparr>cs_base := st\<rparr>) = get_command k cs"
  by (simp add: get_command_def)

lemma update_command_ok:
  assumes "\<And>c. cr_id (f c) = cr_id c" and "get_command key cs = Some r"
  shows "\<exists>cs'. update_command True key now f cs = (Inr (), cs') \<and> get_command key cs' = Some (f r)"
  using assms by (simp add: update_command_def get_command_update del: get_command_base)

lemma persist_chunk_ok:
  assumes "chunks_ok envs n os" and "get_command command_id (os_store os) = Some r"
  obtains os' r' where "persist_chunk (envs n) command_id stream seq data os = (Inr (), os')"
    "output_of command_id os' = output_of command_id os @ [(seq, data)]"
    "get_command command_id (os_store os') = Some r'" "cr_truncated r' = cr_truncated r"
    "cr_output_bytes r' = cr_output_bytes r + clamp_i64 (str_len data)" "chunks_ok envs (Suc n) os'"
proof -
  let ?e = "envs n"
  let ?key = "ce_event_key ?e"
  define ev where "ev = \<lparr>ev_id = ?key, ev_created_at = ce_event_at ?e, ev_level = lit ''info'',
    ev_kind = lit ''command.'' @ stream, ev_message = [], ev_payload = OutputPayload command_id stream seq data,
    ev_source = lit ''command''\<rparr>"
  define st where "st = log_row (lit ''events'') ?key (ce_event_at ?e) (cs_base (os_store os))"
  define res where "res = record_command_output_progress True command_id ?key (ce_event_at ?e) (clamp_i64 seq)
    (clamp_i64 (str_len data)) ((os_store os)\<lparr>cs_base := st\<rparr>)"
  have ok: "ce_event_ok ?e" "ce_row_ok ?e" "?key \<notin> ev_id ` set (os_events os)" using assms(1) by (simp_all add: chunks_ok_def)
  obtain cs r' where cs: "res = (Inr (), cs)" "get_command command_id cs = Some r'"
      "cr_truncated r' = cr_truncated r" "cr_output_bytes r' = cr_output_bytes r + clamp_i64 (str_len data)"
    using update_command_ok [of "\<lambda>c. c\<lparr>cr_updated_at := ce_event_at ?e, cr_last_output_event_id := Some ?key,
        cr_last_output_at := Some (ce_event_at ?e), cr_last_output_seq := Some (clamp_i64 seq),
        cr_output_bytes := cr_output_bytes c + clamp_i64 (str_len data), cr_last_progress_at := Some (ce_event_at ?e)\<rparr>"
        command_id "(os_store os)\<lparr>cs_base := st\<rparr>" r "ce_event_at ?e"] assms(2)
    unfolding res_def record_command_output_progress_def by auto
  define os' where "os' = os\<lparr>os_events := os_events os @ [ev], os_store := cs\<rparr>"
  have "persist_chunk ?e command_id stream seq data os = (Inr (), os')"
    using ok cs(1) by (simp add: persist_chunk_def append_command_output_def append_event_with_source_def Let_def
        res_def st_def os'_def ev_def)
  moreover have "output_of command_id os' = output_of command_id os @ [(seq, data)]"
    by (simp add: output_of_def os'_def ev_def map_filter_snoc)
  moreover have "ce_event_key (envs m) \<noteq> ?key" if "Suc n \<le> m" for m
    using assms(1) that inj_onD [of "\<lambda>m. ce_event_key (envs m)" "{n..}" m n] by (auto simp: chunks_ok_def)
  then have "chunks_ok envs (Suc n) os'"
    using assms(1) unfolding chunks_ok_def os'_def ev_def by (auto intro: inj_on_subset)
  ultimately show ?thesis using that cs(2-4) by (simp add: os'_def)
qed


lemma note_truncated_ok:
  assumes "ce_mark_ok e" and "get_command command_id (os_store os) = Some r"
  obtains os' r' where "note_truncated e command_id os = (Inr (), os')" "output_of command_id os' = output_of command_id os"
    "get_command command_id (os_store os') = Some r'" "cr_truncated r'" "cr_output_bytes r' = cr_output_bytes r"
proof -
  obtain cs r' where cs: "mark_command_truncated True command_id (ce_mark_at e) (os_store os) = (Inr (), cs)"
      "get_command command_id cs = Some r'" "cr_truncated r'" "cr_output_bytes r' = cr_output_bytes r"
    using update_command_ok [of "\<lambda>c. c\<lparr>cr_truncated := True, cr_updated_at := ce_mark_at e\<rparr>"
        command_id "os_store os" r "ce_mark_at e"] assms(2)
    unfolding mark_command_truncated_def by auto
  show ?thesis
    by (rule that [of "snd (note_truncated e command_id os)" r'])
      (use cs assms(1) in \<open>auto simp: note_truncated_def append_event_with_source_def output_of_def map_filter_snoc Let_def\<close>)
qed

text \<open>A chunk that fits is persisted whole; the chunk that crosses the limit is cut, and nothing follows it.\<close>

lemma handle_chunk_fits:
  assumes "chunks_ok envs n os" and "get_command command_id (os_store os) = Some r"
    and "\<not> ct_exhausted counter" and "str_len (oc_data chunk) \<le> remaining counter"
  obtains os' r' where
    "handle_chunk (envs n) command_id chunk counter os =
       (Inr True, counter\<lparr>ct_seq := ct_seq counter + 1, ct_used := ct_used counter + str_len (oc_data chunk)\<rparr>, os')"
    "output_of command_id os' = output_of command_id os @ [(ct_seq counter, oc_data chunk)]"
    "get_command command_id (os_store os') = Some r'" "cr_truncated r' = cr_truncated r"
    "cr_output_bytes r' = cr_output_bytes r + clamp_i64 (str_len (oc_data chunk))" "chunks_ok envs (Suc n) os'"
proof -
  obtain os' r' where p: "persist_chunk (envs n) command_id (oc_stream chunk) (ct_seq counter) (oc_data chunk) os = (Inr (), os')"
    and rest: "output_of command_id os' = output_of command_id os @ [(ct_seq counter, oc_data chunk)]"
    "get_command command_id (os_store os') = Some r'" "cr_truncated r' = cr_truncated r"
    "cr_output_bytes r' = cr_output_bytes r + clamp_i64 (str_len (oc_data chunk))" "chunks_ok envs (Suc n) os'"
    by (rule persist_chunk_ok [OF assms(1,2)])
  show ?thesis by (rule that [OF _ rest]) (use p assms(3,4) in \<open>simp add: handle_chunk_def\<close>)
qed

lemma handle_chunk_cut:
  assumes "chunks_ok envs n os" and "get_command command_id (os_store os) = Some r"
    and "\<not> ct_exhausted counter" and "remaining counter < str_len (oc_data chunk)"
  defines "head \<equiv> take_bytes (remaining counter) (oc_data chunk)"
  obtains os' counter' b r' where
    "handle_chunk (envs n) command_id chunk counter os = (Inr b, counter', os')" "ct_exhausted counter'"
    "output_of command_id os' = output_of command_id os @ (if head = [] then [] else [(ct_seq counter, head)])"
    "get_command command_id (os_store os') = Some r'" "cr_truncated r'"
    "cr_output_bytes r' = cr_output_bytes r + clamp_i64 (str_len head)"
proof (cases "head = []")
  case True
  have "ce_mark_ok (envs n)" using assms(1) by (simp add: chunks_ok_def)
  from note_truncated_ok [OF this assms(2)] obtain os' r' where
    "note_truncated (envs n) command_id os = (Inr (), os')" "output_of command_id os' = output_of command_id os"
    "get_command command_id (os_store os') = Some r'" "cr_truncated r'" "cr_output_bytes r' = cr_output_bytes r" .
  note n = this
  show ?thesis
    by (rule that [where counter' = "counter\<lparr>ct_exhausted := True\<rparr>", OF _ _ _ n(3,4)])
      (use n True assms(3,4) in \<open>simp_all add: handle_chunk_def take_floor head_def [symmetric] Let_def clamp_i64_def\<close>)
next
  case False
  obtain os1 r1 where 1: "persist_chunk (envs n) command_id (oc_stream chunk) (ct_seq counter) head os = (Inr (), os1)"
    "output_of command_id os1 = output_of command_id os @ [(ct_seq counter, head)]"
    "get_command command_id (os_store os1) = Some r1"
    "cr_output_bytes r1 = cr_output_bytes r + clamp_i64 (str_len head)"
    using persist_chunk_ok [OF assms(1,2)] by metis
  have "ce_mark_ok (envs n)" using assms(1) by (simp add: chunks_ok_def)
  from note_truncated_ok [OF this 1(3)] obtain os' r' where
    "note_truncated (envs n) command_id os1 = (Inr (), os')" "output_of command_id os' = output_of command_id os1"
    "get_command command_id (os_store os') = Some r'" "cr_truncated r'" "cr_output_bytes r' = cr_output_bytes r1" .
  note n = this
  show ?thesis
    by (rule that [where counter' = "counter\<lparr>ct_seq := ct_seq counter + 1, ct_used := ct_used counter + str_len head,
          ct_exhausted := True\<rparr>", OF _ _ _ n(3,4)])
      (use n 1 False assms(3,4) in \<open>simp_all add: handle_chunk_def take_floor head_def [symmetric] Let_def\<close>)
qed

lemma receive_exhausted:
  "ct_exhausted counter \<Longrightarrow> receive_chunks envs n command_id chunks counter os = (True, counter, os)"
  by (induction chunks arbitrary: n) (simp_all add: handle_chunk_def)

lemma clamp_small: "n < 2 ^ 63 \<Longrightarrow> clamp_i64 n = int n"
  by (simp add: clamp_i64_def)

lemma receive_chunks_ok:
  assumes "chunks_ok envs n os" and "get_command command_id (os_store os) = Some r"
    and "\<not> ct_exhausted counter" and "ct_used counter \<le> ct_max counter" and "ct_max counter < 2 ^ 63"
  shows "\<exists>counter' os' r' new. receive_chunks envs n command_id chunks counter os = (True, counter', os') \<and>
    output_of command_id os' = output_of command_id os @ new \<and>
    concat (map snd new) = take_bytes (remaining counter) (text_of chunks) \<and>
    map fst new = [ct_seq counter..<ct_seq counter + length new] \<and>
    get_command command_id (os_store os') = Some r' \<and>
    cr_truncated r' = (cr_truncated r \<or> remaining counter < str_len (text_of chunks)) \<and>
    cr_output_bytes r' = cr_output_bytes r + int (str_len (take_bytes (remaining counter) (text_of chunks)))"
  using assms
proof (induction chunks arbitrary: n counter os r)
  case Nil
  then show ?case by simp
next
  case (Cons chunk chunks)
  let ?d = "oc_data chunk"
  show ?case
  proof (cases "str_len ?d \<le> remaining counter")
    case True
    let ?c = "counter\<lparr>ct_seq := ct_seq counter + 1, ct_used := ct_used counter + str_len ?d\<rparr>"
    obtain os1 r1 where 1: "handle_chunk (envs n) command_id chunk counter os = (Inr True, ?c, os1)"
      "output_of command_id os1 = output_of command_id os @ [(ct_seq counter, ?d)]"
      "get_command command_id (os_store os1) = Some r1" "cr_truncated r1 = cr_truncated r"
      "cr_output_bytes r1 = cr_output_bytes r + clamp_i64 (str_len ?d)" "chunks_ok envs (Suc n) os1"
      by (rule handle_chunk_fits [OF Cons.prems(1-3) True])
    have c: "remaining ?c = remaining counter - str_len ?d" "clamp_i64 (str_len ?d) = int (str_len ?d)"
      using True Cons.prems(5) by (auto simp: remaining_def intro: clamp_small)
    have used: "ct_used ?c \<le> ct_max ?c" using True Cons.prems(4) by (simp add: remaining_def)
    obtain counter' os' r' new where "receive_chunks envs (Suc n) command_id chunks ?c os1 = (True, counter', os')"
      "output_of command_id os' = output_of command_id os1 @ new"
      "concat (map snd new) = take_bytes (remaining ?c) (text_of chunks)"
      "map fst new = [ct_seq ?c..<ct_seq ?c + length new]" "get_command command_id (os_store os') = Some r'"
      "cr_truncated r' = (cr_truncated r1 \<or> remaining ?c < str_len (text_of chunks))"
      "cr_output_bytes r' = cr_output_bytes r1 + int (str_len (take_bytes (remaining ?c) (text_of chunks)))"
      using Cons.IH [OF 1(6,3) _ used] Cons.prems(3,5) by auto
    note rest = this
    have "map fst ((ct_seq counter, ?d) # new) = [ct_seq counter..<ct_seq counter + length ((ct_seq counter, ?d) # new)]"
      using rest(4) by (simp add: upt_conv_Cons del: upt_Suc)
    then show ?thesis
      using 1 c True rest by (intro exI [of _ counter'] exI [of _ os'] exI [of _ r'] exI [of _ "(ct_seq counter, ?d) # new"])
        (auto simp: take_bytes_append simp del: upt_Suc)
  next
    case False
    let ?head = "take_bytes (remaining counter) ?d"
    obtain os1 c1 b r1 where 1: "handle_chunk (envs n) command_id chunk counter os = (Inr b, c1, os1)" "ct_exhausted c1"
      "output_of command_id os1 = output_of command_id os @ (if ?head = [] then [] else [(ct_seq counter, ?head)])"
      "get_command command_id (os_store os1) = Some r1" "cr_truncated r1"
      "cr_output_bytes r1 = cr_output_bytes r + clamp_i64 (str_len ?head)"
      using handle_chunk_cut [OF Cons.prems(1-3)] False by (metis not_le)
    have "str_len ?head < 2 ^ 63"
      using take_bytes_le [of "remaining counter" ?d] Cons.prems(5) by (simp add: remaining_def)
    then show ?thesis
      using 1 False clamp_small receive_exhausted [OF 1(2), of envs "Suc n" command_id chunks os1]
      by (intro exI [of _ c1] exI [of _ os1] exI [of _ r1] exI [of _ "if ?head = [] then [] else [(ct_seq counter, ?head)]"])
        (auto simp: take_bytes_append)
  qed
qed

text \<open>
  When the event of a chunk is written and the update of the row fails, the number of the chunk is
  used again: the supervisor ends the command, and the drain that follows persists the next chunk
  under the same number.
\<close>

definition chunk_tx :: "rstr \<Rightarrow> bool \<Rightarrow> chunk_env" where
  "chunk_tx key row_ok = \<lparr>ce_event_ok = True, ce_event_key = key, ce_event_at = lit ''t1'', ce_row_ok = row_ok,
     ce_mark_ok = True, ce_mark_at = lit ''t1'', ce_note_ok = True, ce_note_key = lit ''evt_n'', ce_note_at = lit ''t1''\<rparr>"

definition sample_output :: ostate where
  "sample_output = \<lparr>os_store = snd (append_command (\<lambda>_. True) True (lit ''cmd_1'') (lit ''t0'') sample_command
     \<lparr>cs_base = empty_store, cs_commands = []\<rparr>), os_events = []\<rparr>"

lemmas output_sample_defs = sample_output_def chunk_tx_def command_sample_defs empty_store_def log_row_def

lemma progress_failure_repeats_seq:
  "case receive_chunks (\<lambda>_. chunk_tx (lit ''evt_1'') False) 0 (lit ''cmd_1'')
      [\<lparr>oc_stream = lit ''stdout'', oc_data = lit ''a''\<rparr>] (new_counter 10) sample_output of
     (ok, counter, os) \<Rightarrow> \<not> ok \<and>
       (case receive_chunks (\<lambda>_. chunk_tx (lit ''evt_2'') True) 0 (lit ''cmd_1'')
          [\<lparr>oc_stream = lit ''stdout'', oc_data = lit ''b''\<rparr>] counter os of
        (_, _, os') \<Rightarrow> output_of (lit ''cmd_1'') os' = [(0, lit ''a''), (0, lit ''b'')])"
  by (simp add: output_sample_defs handle_chunk_def persist_chunk_def append_command_output_def append_event_with_source_def
      record_command_output_progress_def update_command_def get_command_def append_command_def new_command_def sample_command_def
      new_counter_def remaining_def output_of_def List.map_filter_def str_len_def len_utf8_def lit_def Let_def update_rows_def clamp_i64_def)

section \<open>Properties\<close>

text \<open>
  C28: Decoding read by read loses nothing.  However the bytes of a pipe are cut into reads, the
  chunks of a reader that runs to the end of the stream concatenate to the lossy decoding of the
  whole stream, so to the text itself when the stream is UTF-8; every chunk belongs to the stream,
  is not empty, and holds at most one read and three carried bytes.
\<close>

theorem read_stream_decodes:
  fixes stream :: rstr
  assumes "list_all (\<lambda>r. r \<noteq> [] \<and> length r \<le> 4096 \<and> list_all (\<lambda>b. b < 256) r) reads"
  defines "chunks \<equiv> read_stream (\<lambda>_. True) stream [] [] (map Some reads @ [Some []])"
  shows "concat (map oc_data chunks) = from_utf8_lossy (concat reads) \<and>
    (\<forall>s. wf_str s \<and> as_bytes s = concat reads \<longrightarrow> concat (map oc_data chunks) = s) \<and>
    (\<forall>c \<in> set chunks. oc_stream c = stream \<and> oc_data c \<noteq> [] \<and> length (oc_data c) \<le> 4096 + 3)"
proof -
  have *: "text_of chunks = from_utf8_lossy (concat reads)" "list_all (fair_chunk stream) chunks"
    using read_stream_all [OF assms(1), of "[]" stream "[]"] by (simp_all add: chunks_def)
  moreover have "from_utf8_lossy (concat reads) = s" if "wf_str s" "as_bytes s = concat reads" for s
    using lossy_as_bytes [OF that(1)] that(2) by simp
  ultimately show ?thesis by (auto simp: list_all_iff fair_chunk_def)
qed

text \<open>The three bytes of the euro sign in two reads, after an ASCII letter.\<close>

theorem read_stream_decodes_witness:
  "concat (map oc_data (read_stream (\<lambda>_. True) (lit ''stdout'') [] [] [Some [97, 0xE2, 0x82], Some [0xAC], Some []])) = [97, 0x20AC]"
proof -
  have "wf_str [97, 0x20AC] \<and> as_bytes [97, 0x20AC] = concat [[97, 0xE2, 0x82], [0xAC]]"
    by (simp add: is_scalar_def utf8_char_def)
  moreover have "list_all (\<lambda>r. r \<noteq> [] \<and> length r \<le> 4096 \<and> list_all (\<lambda>b. b < 256) r) [[97, 0xE2, 0x82], [0xAC::byte]]"
    by simp
  ultimately have "concat (map oc_data (read_stream (\<lambda>_. True) (lit ''stdout'') [] []
      (map Some [[97, 0xE2, 0x82], [0xAC]] @ [Some []]))) = [97, 0x20AC]"
    using read_stream_decodes [of "[[97, 0xE2, 0x82], [0xAC]]" "lit ''stdout''"] by blast
  then show ?thesis by (simp only: list.map append.simps)
qed

text \<open>
  C29: The persisted output is the longest prefix within the limit.  When no transaction fails, the
  persisted chunks of a command concatenate to the longest prefix of whole characters of its output
  that fits the limit in bytes, they are numbered consecutively from zero, and the row counts the
  persisted bytes and is flagged exactly when output was cut off.
\<close>

theorem persisted_output_is_limited:
  assumes "chunks_ok envs 0 os" and "get_command command_id (os_store os) = Some r"
    and "output_of command_id os = []" and "cr_output_bytes r = 0" and "\<not> cr_truncated r" and "limit < 2 ^ 63"
  shows "\<exists>counter os' r'. receive_chunks envs 0 command_id chunks (new_counter limit) os = (True, counter, os') \<and>
    concat (map snd (output_of command_id os')) = take_bytes limit (concat (map oc_data chunks)) \<and>
    map fst (output_of command_id os') = [0..<length (output_of command_id os')] \<and>
    get_command command_id (os_store os') = Some r' \<and>
    cr_output_bytes r' = int (str_len (take_bytes limit (concat (map oc_data chunks)))) \<and>
    cr_truncated r' = (limit < str_len (concat (map oc_data chunks)))"
  using receive_chunks_ok [OF assms(1,2), of "new_counter limit" chunks] assms(3-6)
  by (auto simp: new_counter_def remaining_def)

definition numbered_tx :: "nat \<Rightarrow> chunk_env" where
  "numbered_tx n = chunk_tx (replicate n 120) True"

text \<open>A limit of four bytes cuts before the euro sign.\<close>

theorem persisted_output_is_limited_witness:
  "\<exists>counter os'. receive_chunks numbered_tx 0 (lit ''cmd_1'')
      [\<lparr>oc_stream = lit ''stdout'', oc_data = lit ''ab''\<rparr>, \<lparr>oc_stream = lit ''stdout'', oc_data = [0x20AC, 99]\<rparr>]
      (new_counter 4) sample_output = (True, counter, os') \<and> concat (map snd (output_of (lit ''cmd_1'') os')) = lit ''ab''"
proof -
  obtain r where r: "get_command (lit ''cmd_1'') (os_store sample_output) = Some r" "cr_output_bytes r = 0" "\<not> cr_truncated r"
    by (simp add: output_sample_defs append_command_def new_command_def get_command_def Let_def)
  have ok: "chunks_ok numbered_tx 0 sample_output" "output_of (lit ''cmd_1'') sample_output = []"
    by (auto simp: chunks_ok_def numbered_tx_def chunk_tx_def sample_output_def inj_on_def output_of_def List.map_filter_def
        dest: replicate_eq_replicate [THEN iffD1])
  have "take_bytes 4 (lit ''ab'' @ [0x20AC, 99]) = lit ''ab''"
    by (simp add: lit_def len_utf8_def)
  then show ?thesis
    using persisted_output_is_limited [OF ok(1) r(1) ok(2) r(2,3), of 4
        "[\<lparr>oc_stream = lit ''stdout'', oc_data = lit ''ab''\<rparr>, \<lparr>oc_stream = lit ''stdout'', oc_data = [0x20AC, 99]\<rparr>]"]
    by auto
qed







end
