(* ===== verification/Glob.thy ===== *)
theory Glob
  imports Prelude
begin

text \<open>
  The wildcard matcher of the command policy (\<^verbatim>\<open>policy/matching.rs\<close>: \<open>glob_match\<close>,
  \<open>glob_match_inner\<close>).  The matcher is an iterative two-pointer loop over bytes with one
  backtracking point, the last \<open>*\<close> seen.  The loop is a function on its four variables,
  with a termination proof.  \<open>globs\<close> is the reference meaning of a pattern.  The lemmas show that
  the loop accepts only what the reference accepts, and everything the reference accepts
  when the input has no \<open>*\<close> of its own.
\<close>

section \<open>The reference meaning of a pattern\<close>

fun globs :: "byte list \<Rightarrow> byte list \<Rightarrow> bool" where
  "globs [] [] = True"
| "globs [] (c # s) = False"
| "globs (x # p) [] = (x = c_star \<and> globs p [])"
| "globs (x # p) (c # s) =
     (if x = c_star then globs p (c # s) \<or> globs (x # p) s
      else (x = c_qmark \<or> x = c) \<and> globs p s)"

lemma globs_star: "globs (c_star # p) s \<longleftrightarrow> (\<exists>k\<le>length s. globs p (drop k s))"
proof (induction s)
  case Nil
  then show ?case by simp
next
  case (Cons c s)
  have "(\<exists>k\<le>length (c # s). globs p (drop k (c # s))) \<longleftrightarrow>
        globs p (c # s) \<or> (\<exists>k\<le>length s. globs p (drop k s))"
  proof -
    have "(\<exists>k\<le>Suc n. P k) \<longleftrightarrow> P 0 \<or> (\<exists>k\<le>n. P (Suc k))" for n and P :: "nat \<Rightarrow> bool"
      by (metis Suc_le_mono nat.exhaust zero_le)
    then show ?thesis by simp
  qed
  then show ?case using Cons.IH by simp
qed

lemma globs_nonstar:
  "x \<noteq> c_star \<Longrightarrow> globs (x # p) s \<longleftrightarrow> (\<exists>c t. s = c # t \<and> (x = c_qmark \<or> x = c) \<and> globs p t)"
  by (cases s) auto

lemma globs_Nil_input: "globs p [] \<longleftrightarrow> list_all (\<lambda>x. x = c_star) p"
  by (induction p) auto

lemma globs_literal:
  "c_star \<notin> set p \<Longrightarrow> c_qmark \<notin> set p \<Longrightarrow> globs p s \<longleftrightarrow> p = s"
  by (induction p s rule: globs.induct) auto

lemma globs_literal_star:
  "c_star \<notin> set p \<Longrightarrow> c_qmark \<notin> set p \<Longrightarrow> globs (p @ [c_star]) s \<longleftrightarrow> (\<exists>t. s = p @ t)"
proof (induction p arbitrary: s)
  case Nil
  have "globs [] (drop (length s) s)" by simp
  then show ?case by (auto simp: globs_star)
next
  case (Cons x p)
  then show ?case by (cases s) auto
qed

section \<open>The matcher\<close>

function glob_skip_stars :: "byte list \<Rightarrow> nat \<Rightarrow> nat" where
  "glob_skip_stars pattern p =
     (if p < length pattern \<and> pattern ! p = c_star then glob_skip_stars pattern (p + 1) else p)"
  by pat_completeness auto
termination
  by (relation "measure (\<lambda>(pattern, p). length pattern - p)") auto

function glob_loop ::
  "byte list \<Rightarrow> byte list \<Rightarrow> nat \<Rightarrow> nat \<Rightarrow> nat option \<Rightarrow> nat \<Rightarrow> bool" where
  "glob_loop pattern input p i star_p star_i =
     (if i < length input then
        if p < length pattern \<and> (pattern ! p = input ! i \<or> pattern ! p = c_qmark) then
          glob_loop pattern input (p + 1) (i + 1) star_p star_i
        else if p < length pattern \<and> pattern ! p = c_star then
          glob_loop pattern input (p + 1) i (Some p) i
        else (case star_p of
            Some sp \<Rightarrow> glob_loop pattern input (sp + 1) (star_i + 1) (Some sp) (star_i + 1)
          | None \<Rightarrow> False)
      else glob_skip_stars pattern p = length pattern)"
  by pat_completeness auto
termination
  by (relation "measures [\<lambda>(pattern, input, p, i, star_p, star_i). if star_i \<le> i then 0 else 1,
                          \<lambda>(pattern, input, p, i, star_p, star_i). length input - star_i,
                          \<lambda>(pattern, input, p, i, star_p, star_i). length pattern - p]")
    auto

declare glob_loop.simps [simp del] glob_skip_stars.simps [simp del]

definition glob_match_inner :: "byte list \<Rightarrow> byte list \<Rightarrow> bool" where
  "glob_match_inner pattern input = glob_loop pattern input 0 0 None 0"

definition glob_match :: "rstr \<Rightarrow> rstr \<Rightarrow> bool" where
  "glob_match pattern input = glob_match_inner (as_bytes pattern) (as_bytes input)"

section \<open>The loop against the reference\<close>

lemma glob_skip_stars_done:
  "p \<le> length pattern \<Longrightarrow>
   glob_skip_stars pattern p = length pattern \<longleftrightarrow> globs (drop p pattern) []"
proof (induction pattern p rule: glob_skip_stars.induct)
  case (1 pattern p)
  note unfold = glob_skip_stars.simps [of pattern p]
  consider (star) "p < length pattern" "pattern ! p = c_star"
    | (other) "p < length pattern" "pattern ! p \<noteq> c_star" | (fin) "p = length pattern"
    using 1(2) by linarith
  then show ?case
  proof cases
    case star
    with 1(1) show ?thesis by (simp add: unfold Cons_nth_drop_Suc [symmetric])
  next
    case other
    then show ?thesis by (simp add: unfold Cons_nth_drop_Suc [symmetric])
  next
    case fin
    then show ?thesis by (subst unfold) simp
  qed
qed

text \<open>
  What a state of the loop can still accept: the rest of the pattern on the rest of the
  input, or, from the last star, the pattern after it at some later input position.
\<close>

definition loop_accepts ::
  "byte list \<Rightarrow> byte list \<Rightarrow> nat \<Rightarrow> nat \<Rightarrow> nat option \<Rightarrow> nat \<Rightarrow> bool" where
  "loop_accepts pattern input p i star_p star_i \<longleftrightarrow>
     globs (drop p pattern) (drop i input) \<or>
     (\<exists>sp k. star_p = Some sp \<and> star_i < k \<and> k \<le> length input \<and>
        globs (drop (sp + 1) pattern) (drop k input))"

definition loop_bounds ::
  "byte list \<Rightarrow> byte list \<Rightarrow> nat \<Rightarrow> nat \<Rightarrow> nat option \<Rightarrow> nat \<Rightarrow> bool" where
  "loop_bounds pattern input p i star_p star_i \<longleftrightarrow>
     p \<le> length pattern \<and> i \<le> length input \<and> star_i \<le> i \<and>
     (\<forall>sp. star_p = Some sp \<longrightarrow> sp < length pattern)"

lemma globs_drop_star:
  assumes "p < length pattern" and "pattern ! p = c_star" and "i \<le> length input"
  shows "globs (drop p pattern) (drop i input) \<longleftrightarrow>
         (\<exists>k. i \<le> k \<and> k \<le> length input \<and> globs (drop (p + 1) pattern) (drop k input))"
proof -
  have "drop p pattern = c_star # drop (p + 1) pattern"
    using assms(1,2) by (simp add: Cons_nth_drop_Suc [symmetric])
  then have "globs (drop p pattern) (drop i input) \<longleftrightarrow>
      (\<exists>k\<le>length input - i. globs (drop (p + 1) pattern) (drop (k + i) input))"
    by (simp add: globs_star)
  also have "\<dots> \<longleftrightarrow> (\<exists>k. i \<le> k \<and> k \<le> length input \<and> globs (drop (p + 1) pattern) (drop k input))"
    (is "?L \<longleftrightarrow> ?R")
  proof
    assume ?L
    then obtain k where "k \<le> length input - i" "globs (drop (p + 1) pattern) (drop (k + i) input)"
      by blast
    with assms(3) show ?R by (intro exI [of _ "k + i"]) simp
  next
    assume ?R
    then obtain k where "i \<le> k" "k \<le> length input" "globs (drop (p + 1) pattern) (drop k input)"
      by blast
    then show ?L by (intro exI [of _ "k - i"]) simp
  qed
  finally show ?thesis .
qed

lemma globs_drop_step:
  assumes "p < length pattern" and "pattern ! p \<noteq> c_star" and "i < length input"
  shows "globs (drop p pattern) (drop i input) \<longleftrightarrow>
         (pattern ! p = c_qmark \<or> pattern ! p = input ! i) \<and>
         globs (drop (p + 1) pattern) (drop (i + 1) input)"
  using assms by (simp add: Cons_nth_drop_Suc [symmetric])

lemma globs_drop_dead:
  assumes "i < length input" and "p \<le> length pattern"
    and "\<not> (p < length pattern \<and> (pattern ! p = input ! i \<or> pattern ! p = c_qmark))"
    and "\<not> (p < length pattern \<and> pattern ! p = c_star)"
  shows "\<not> globs (drop p pattern) (drop i input)"
proof (cases "p = length pattern")
  case True
  with assms(1) show ?thesis by (simp add: Cons_nth_drop_Suc [symmetric])
next
  case False
  with assms show ?thesis by (auto simp: globs_drop_step)
qed

lemma globs_drop_eat:
  assumes "globs (drop (p + 1) pattern) (drop (i + 1) input)"
    and "p < length pattern \<and> (pattern ! p = input ! i \<or> pattern ! p = c_qmark)"
    and "i < length input"
  shows "globs (drop p pattern) (drop i input)"
proof (cases "pattern ! p = c_star")
  case True
  with assms have "\<exists>k. i \<le> k \<and> k \<le> length input \<and> globs (drop (p + 1) pattern) (drop k input)"
    by (intro exI [of _ "i + 1"]) simp
  with True assms show ?thesis by (simp only: globs_drop_star less_imp_le)
next
  case False
  with assms show ?thesis by (auto simp: globs_drop_step)
qed

text \<open>The two moves at a star: remember it, and retry from it one byte further on.\<close>

lemma loop_accepts_star:
  assumes "p < length pattern" and "pattern ! p = c_star" and "i \<le> length input"
  shows "loop_accepts pattern input (p + 1) i (Some p) i \<longleftrightarrow> globs (drop p pattern) (drop i input)"
  using assms unfolding loop_accepts_def globs_drop_star [OF assms]
  by (metis le_eq_less_or_eq option.inject)

lemma loop_accepts_retry:
  assumes "star_i < length input"
  shows "loop_accepts pattern input (sp + 1) (star_i + 1) (Some sp) (star_i + 1) \<longleftrightarrow>
         (\<exists>k. star_i < k \<and> k \<le> length input \<and> globs (drop (sp + 1) pattern) (drop k input))"
    (is "?L \<longleftrightarrow> ?R")
proof
  assume ?L
  then consider "globs (drop (sp + 1) pattern) (drop (star_i + 1) input)"
    | k where "star_i + 1 < k" "k \<le> length input" "globs (drop (sp + 1) pattern) (drop k input)"
    by (auto simp: loop_accepts_def)
  then show ?R
  proof cases
    case 1
    with assms show ?thesis by (intro exI [of _ "star_i + 1"]) simp
  next
    case 2
    then show ?thesis by (intro exI [of _ k]) simp
  qed
next
  assume ?R
  then obtain k where k: "star_i < k" "k \<le> length input" "globs (drop (sp + 1) pattern) (drop k input)"
    by blast
  then show ?L by (cases "k = star_i + 1") (auto simp: loop_accepts_def)
qed

text \<open>Soundness: what the loop accepts, the state accepts.\<close>

lemma glob_loop_sound:
  "glob_loop pattern input p i star_p star_i \<Longrightarrow>
   loop_bounds pattern input p i star_p star_i \<Longrightarrow>
   loop_accepts pattern input p i star_p star_i"
proof (induction pattern input p i star_p star_i rule: glob_loop.induct)
  case (1 pattern input p i star_p star_i)
  note unfold = glob_loop.simps [of pattern input p i star_p star_i]
  show ?case
  proof (cases "i < length input")
    case False
    with 1 have "globs (drop p pattern) []" and "i = length input"
      by (auto simp: unfold loop_bounds_def glob_skip_stars_done)
    then show ?thesis by (simp add: loop_accepts_def)
  next
    case i: True
    consider (eat) "p < length pattern \<and> (pattern ! p = input ! i \<or> pattern ! p = c_qmark)"
      | (star) "\<not> (p < length pattern \<and> (pattern ! p = input ! i \<or> pattern ! p = c_qmark))"
          "p < length pattern \<and> pattern ! p = c_star"
      | (dead) "\<not> (p < length pattern \<and> (pattern ! p = input ! i \<or> pattern ! p = c_qmark))"
          "\<not> (p < length pattern \<and> pattern ! p = c_star)"
      by blast
    then show ?thesis
    proof cases
      case eat
      with 1 i have "loop_accepts pattern input (p + 1) (i + 1) star_p star_i"
        by (simp add: unfold loop_bounds_def)
      moreover have "globs (drop p pattern) (drop i input)"
        if "globs (drop (p + 1) pattern) (drop (i + 1) input)"
        using that eat i by (rule globs_drop_eat)
      ultimately show ?thesis unfolding loop_accepts_def by blast
    next
      case star
      with 1 i have "loop_accepts pattern input (p + 1) i (Some p) i"
        by (simp add: unfold loop_bounds_def)
      then have "globs (drop p pattern) (drop i input)"
        using star i loop_accepts_star [of p pattern i input] by simp
      then show ?thesis by (simp add: loop_accepts_def)
    next
      case dead
      with 1 i obtain sp where sp: "star_p = Some sp"
        and acc: "loop_accepts pattern input (sp + 1) (star_i + 1) (Some sp) (star_i + 1)"
        by (auto simp: unfold loop_bounds_def split: option.splits)
      have "star_i < length input"
        using i 1(5) by (simp add: loop_bounds_def)
      from loop_accepts_retry [OF this] acc show ?thesis
        using sp by (auto simp: loop_accepts_def)
    qed
  qed
qed

text \<open>
  Completeness rests on the greedy choice: between the last star and the current pattern
  position there is no star, and the bytes consumed since the star was tried are exactly
  that segment.  Then a match from an earlier star is also a match from the current one.
\<close>

definition loop_aligned ::
  "byte list \<Rightarrow> nat \<Rightarrow> nat \<Rightarrow> nat option \<Rightarrow> nat \<Rightarrow> bool" where
  "loop_aligned pattern p i star_p star_i \<longleftrightarrow>
     (\<forall>sp. star_p = Some sp \<longrightarrow>
        sp < p \<and> p + star_i = i + (sp + 1) \<and> (\<forall>j. sp < j \<and> j < p \<longrightarrow> pattern ! j \<noteq> c_star))"

lemma globs_segment:
  assumes "a \<le> p" and "p \<le> length pattern" and "\<And>j. a \<le> j \<Longrightarrow> j < p \<Longrightarrow> pattern ! j \<noteq> c_star"
    and "k \<le> length input" and "globs (drop a pattern) (drop k input)"
  shows "k + (p - a) \<le> length input \<and> globs (drop p pattern) (drop (k + (p - a)) input)"
  using assms
proof (induction "p - a" arbitrary: a k)
  case 0
  then show ?case by simp
next
  case (Suc n)
  then have a: "a < p" by simp
  have eq: "drop a pattern = pattern ! a # drop (a + 1) pattern"
    using a Suc.prems(2) by (simp add: Cons_nth_drop_Suc [symmetric])
  have "pattern ! a \<noteq> c_star" using a Suc.prems(3) by blast
  with Suc.prems(5) eq obtain c t where t: "drop k input = c # t" "globs (drop (a + 1) pattern) t"
    by (auto simp: globs_nonstar)
  have k: "k < length input" using t(1) by (metis drop_eq_Nil2 leI list.distinct(1))
  have "t = drop (k + 1) input" using t(1) k by (simp add: Cons_nth_drop_Suc [symmetric])
  with Suc.hyps(1) [of "a + 1" "k + 1"] Suc.hyps(2) Suc.prems t(2) k a
  have "k + 1 + (p - (a + 1)) \<le> length input \<and>
      globs (drop p pattern) (drop (k + 1 + (p - (a + 1))) input)"
    by simp
  moreover have "k + 1 + (p - (a + 1)) = k + (p - a)" using a by simp
  ultimately show ?case by metis
qed

lemma earlier_star_later_match:
  assumes "loop_bounds pattern input p i star_p star_i" and "loop_aligned pattern p i star_p star_i"
    and "star_p = Some sp" and "star_i < k" and "k \<le> length input"
    and "globs (drop (sp + 1) pattern) (drop k input)"
  shows "\<exists>m. i < m \<and> m \<le> length input \<and> globs (drop p pattern) (drop m input)"
proof -
  have "k + (p - (sp + 1)) \<le> length input \<and>
      globs (drop p pattern) (drop (k + (p - (sp + 1))) input)"
    by (rule globs_segment) (use assms in \<open>auto simp: loop_bounds_def loop_aligned_def\<close>)
  moreover have "i < k + (p - (sp + 1))"
    using assms(2,3,4) by (auto simp: loop_aligned_def)
  ultimately show ?thesis by blast
qed

lemma glob_loop_complete:
  "c_star \<notin> set input \<Longrightarrow>
   loop_bounds pattern input p i star_p star_i \<Longrightarrow>
   loop_aligned pattern p i star_p star_i \<Longrightarrow>
   loop_accepts pattern input p i star_p star_i \<Longrightarrow>
   glob_loop pattern input p i star_p star_i"
proof (induction pattern input p i star_p star_i rule: glob_loop.induct)
  case (1 pattern input p i star_p star_i)
  note unfold = glob_loop.simps [of pattern input p i star_p star_i]
    and bounds = "1.prems"(2) and aligned = "1.prems"(3)
  have later: "\<exists>m. i < m \<and> m \<le> length input \<and> globs (drop p pattern) (drop m input)"
    if "\<not> globs (drop p pattern) (drop i input)"
    using that "1.prems"(4) earlier_star_later_match [OF bounds aligned]
    by (auto simp: loop_accepts_def)
  show ?case
  proof (cases "i < length input")
    case False
    with bounds have "i = length input" by (simp add: loop_bounds_def)
    with later have "globs (drop p pattern) []" by fastforce
    with False bounds show ?thesis
      by (subst unfold) (simp add: glob_skip_stars_done loop_bounds_def)
  next
    case i: True
    have nostar: "input ! i \<noteq> c_star" using i "1.prems"(1) nth_mem by metis
    consider (eat) "p < length pattern \<and> (pattern ! p = input ! i \<or> pattern ! p = c_qmark)"
      | (star) "\<not> (p < length pattern \<and> (pattern ! p = input ! i \<or> pattern ! p = c_qmark))"
          "p < length pattern \<and> pattern ! p = c_star"
      | (dead) "\<not> (p < length pattern \<and> (pattern ! p = input ! i \<or> pattern ! p = c_qmark))"
          "\<not> (p < length pattern \<and> pattern ! p = c_star)"
      by blast
    then show ?thesis
    proof cases
      case eat
      then have "pattern ! p \<noteq> c_star" using nostar by auto
      then have "globs (drop p pattern) (drop i input) \<longleftrightarrow>
          globs (drop (p + 1) pattern) (drop (i + 1) input)"
        using eat i by (auto simp: globs_drop_step)
      then have "loop_accepts pattern input (p + 1) (i + 1) star_p star_i"
        using "1.prems"(4) by (simp add: loop_accepts_def)
      moreover have "loop_bounds pattern input (p + 1) (i + 1) star_p star_i"
        using bounds eat i by (simp add: loop_bounds_def)
      moreover have "loop_aligned pattern (p + 1) (i + 1) star_p star_i"
        using aligned \<open>pattern ! p \<noteq> c_star\<close> by (auto simp: loop_aligned_def less_Suc_eq)
      ultimately show ?thesis using "1.IH"(1) [OF i eat "1.prems"(1)] eat i by (simp add: unfold)
    next
      case star
      have "globs (drop p pattern) (drop i input)"
      proof (rule ccontr)
        assume "\<not> ?thesis"
        with later obtain m where "i < m" "m \<le> length input" "globs (drop p pattern) (drop m input)"
          by blast
        then have "globs (drop p pattern) (drop i input)"
          using star i globs_drop_star [of p pattern m input] globs_drop_star [of p pattern i input]
          by (meson le_trans less_imp_le)
        with \<open>\<not> ?thesis\<close> show False by blast
      qed
      then have "loop_accepts pattern input (p + 1) i (Some p) i"
        using star i by (simp add: loop_accepts_star [of p pattern i input, simplified])
      moreover have "loop_bounds pattern input (p + 1) i (Some p) i"
        using bounds star by (simp add: loop_bounds_def)
      moreover have "loop_aligned pattern (p + 1) i (Some p) i"
        by (auto simp: loop_aligned_def)
      ultimately show ?thesis using "1.IH"(2) [OF i star "1.prems"(1)] star i by (simp add: unfold)
    next
      case dead
      have "\<not> globs (drop p pattern) (drop i input)"
        by (rule globs_drop_dead) (use i dead bounds in \<open>auto simp: loop_bounds_def\<close>)
      with "1.prems"(4) obtain sp where sp: "star_p = Some sp"
        and ex: "\<exists>k. star_i < k \<and> k \<le> length input \<and> globs (drop (sp + 1) pattern) (drop k input)"
        by (auto simp: loop_accepts_def)
      have lt: "star_i < length input" using i bounds by (simp add: loop_bounds_def)
      have "loop_accepts pattern input (sp + 1) (star_i + 1) (Some sp) (star_i + 1)"
        using ex loop_accepts_retry [OF lt] by blast
      moreover have "loop_bounds pattern input (sp + 1) (star_i + 1) (Some sp) (star_i + 1)"
        using bounds sp lt by (auto simp: loop_bounds_def)
      moreover have "loop_aligned pattern (sp + 1) (star_i + 1) (Some sp) (star_i + 1)"
        by (auto simp: loop_aligned_def)
      ultimately show ?thesis
        using "1.IH"(3) [OF i dead sp "1.prems"(1)] dead i sp by (subst unfold) auto
    qed
  qed
qed

lemma loop_init [simp]:
  "loop_bounds pattern input 0 0 None 0" "loop_aligned pattern 0 0 None 0"
  "loop_accepts pattern input 0 0 None 0 \<longleftrightarrow> globs pattern input"
  by (simp_all add: loop_bounds_def loop_aligned_def loop_accepts_def)

lemma glob_match_inner_sound: "glob_match_inner pattern input \<Longrightarrow> globs pattern input"
  unfolding glob_match_inner_def by (drule glob_loop_sound) simp_all

lemma glob_match_inner_complete:
  "c_star \<notin> set input \<Longrightarrow> globs pattern input \<Longrightarrow> glob_match_inner pattern input"
  unfolding glob_match_inner_def by (rule glob_loop_complete) simp_all

section \<open>Patterns on text\<close>

text \<open>A byte below 128 in the encoding of a text is one of its chars.\<close>

lemma utf8_char_ascii_byte: "b \<in> set (utf8_char c) \<Longrightarrow> b < 128 \<Longrightarrow> b = c"
  by (auto simp: utf8_char_def split: if_splits)

lemma as_bytes_ascii_byte: "b < 128 \<Longrightarrow> b \<in> set (as_bytes s) \<longleftrightarrow> b \<in> set s"
proof (induction s)
  case (Cons c s)
  have "b \<in> set (utf8_char c) \<longleftrightarrow> b = c"
    using utf8_char_ascii_byte [of b c] Cons.prems by (auto simp: utf8_char_def)
  with Cons show ?case by auto
qed simp

lemma as_bytes_snoc_star: "as_bytes (p @ [c_star]) = as_bytes p @ [c_star]"
  by (simp add: utf8_char_def)

text \<open>C8. Every input the matcher accepts is an input the pattern means: the two-pointer loop
  with a single backtracking point never accepts too much.\<close>

theorem glob_match_sound:
  "glob_match pattern input \<Longrightarrow> globs (as_bytes pattern) (as_bytes input)"
  unfolding glob_match_def by (rule glob_match_inner_sound)

theorem glob_match_sound_witness:
  "glob_match (lit ''git ?ush*'') (lit ''git push origin'') \<and>
   globs (as_bytes (lit ''git ?ush*'')) (as_bytes (lit ''git push origin''))"
proof -
  have m: "glob_match (lit ''git ?ush*'') (lit ''git push origin'')"
    by (simp add: glob_match_def glob_match_inner_def glob_loop.simps glob_skip_stars.simps text_simps)
  with glob_match_sound [OF m] show ?thesis by simp
qed

text \<open>On an input without a \<open>*\<close> of its own, the matcher decides the reference
  meaning of the pattern exactly: keeping only the last star is enough.\<close>

theorem glob_match_exact:
  assumes "c_star \<notin> set input"
  shows "glob_match pattern input \<longleftrightarrow> globs (as_bytes pattern) (as_bytes input)"
proof -
  have "c_star \<notin> set (as_bytes input)" using assms by (simp add: as_bytes_ascii_byte)
  then show ?thesis
    unfolding glob_match_def
    by (blast intro: glob_match_inner_sound glob_match_inner_complete)
qed

theorem glob_match_exact_witness:
  "c_star \<notin> set (lit ''rm -rf foo'') \<and> glob_match (lit ''rm *'') (lit ''rm -rf foo'') \<and>
   \<not> glob_match (lit ''rm *'') (lit ''lsof'')"
proof -
  have a: "c_star \<notin> set (lit ''rm -rf foo'')" and b: "c_star \<notin> set (lit ''lsof'')"
    by (simp_all add: text_simps)
  show ?thesis
    using a glob_match_exact [OF a, of "lit ''rm *''"] glob_match_exact [OF b, of "lit ''rm *''"]
    by (simp add: text_simps)
qed

text \<open>A pattern without wildcards accepts exactly the equal text, for text in any
  script and also when the input contains wildcard characters.\<close>

theorem glob_match_literal:
  assumes "wf_str pattern" and "wf_str input"
    and "c_star \<notin> set pattern" and "c_qmark \<notin> set pattern"
  shows "glob_match pattern input \<longleftrightarrow> input = pattern"
proof
  have lit: "c_star \<notin> set (as_bytes pattern)" "c_qmark \<notin> set (as_bytes pattern)"
    using assms(3,4) by (simp_all add: as_bytes_ascii_byte)
  assume "glob_match pattern input"
  then have "as_bytes pattern = as_bytes input"
    unfolding glob_match_def using globs_literal [OF lit] glob_match_inner_sound by blast
  with assms(1,2) show "input = pattern" by (metis as_bytes_inj)
next
  assume "input = pattern"
  moreover from this assms have "c_star \<notin> set (as_bytes input)" by (simp add: as_bytes_ascii_byte)
  moreover have "globs (as_bytes pattern) (as_bytes pattern)"
    using assms(3,4) by (simp add: globs_literal as_bytes_ascii_byte)
  ultimately show "glob_match pattern input"
    by (simp add: glob_match_def glob_match_inner_complete)
qed

theorem glob_match_literal_witness:
  "wf_str (lit ''shutdown'') \<and> \<not> glob_match (lit ''shutdown'') (lit ''shutdown now'')"
proof -
  have a: "wf_str (lit ''shutdown'')" "wf_str (lit ''shutdown now'')"
      "c_star \<notin> set (lit ''shutdown'')" "c_qmark \<notin> set (lit ''shutdown'')"
    by (simp_all add: text_simps)
  from glob_match_literal [OF a] a show ?thesis by (simp add: text_simps)
qed

text \<open>
  The greedy loop takes an input \<open>*\<close> that stands against a pattern \<open>*\<close> as a literal byte,
  and then has no star to come back to.
\<close>

lemma glob_match_input_star:
  "glob_match (lit ''rm *'') (lit ''rm *.log'') = False"
  "globs (as_bytes (lit ''rm *'')) (as_bytes (lit ''rm *.log''))"
  by (simp_all add: glob_match_def glob_match_inner_def glob_loop.simps text_simps)

end
