(* ===== verification/Shell_Words.thy ===== *)
theory Shell_Words
  imports Prelude
begin

text \<open>
  Shell-word normalisation (\<^verbatim>\<open>policy/normalize.rs\<close>) and the search for the command word
  (\<^verbatim>\<open>policy/matching.rs\<close>: \<open>command_word_index\<close> and its helpers).  The scanner state is the
  record \<open>nstate\<close>, its loop \<open>normalize_loop\<close> consumes the chars left to right, and the
  decoders of \<open>$'...'\<close> return what they decode together with the chars they leave.
  The lemmas show that every spelling of a word by quoting, escaping or ANSI-C quoting
  normalises to the word itself, and that such a spelling is flagged as constructed.
\<close>

section \<open>Words\<close>

record normalized_shell_word =
  w_text :: rstr
  w_constructed :: bool
  w_assignment_operator_index :: "nat option"
  w_assignment_name_constructed :: bool
  w_redirection_operator_end :: "nat option"

record normalized_shell_words =
  n_text :: rstr
  n_command_text :: "rstr option"
  n_command_word_constructed :: bool

subsection \<open>The command word\<close>

definition redirection_operator_end :: "rstr \<Rightarrow> bool \<Rightarrow> nat option" where
  "redirection_operator_end word operator_prefix =
     (if \<not> operator_prefix then None
      else case split_find (\<lambda>c. c = c_lt \<or> c = c_gt) word of
          None \<Rightarrow> None
        | Some (before, operator) \<Rightarrow>
            let start = str_len before;
                operator_len =
                  (if prefix (lit ''<<-'') operator \<or> prefix (lit ''<<<'') operator then 3
                   else if prefix (lit ''>>'') operator \<or> prefix (lit ''<>'') operator \<or>
                           prefix (lit ''<&'') operator \<or> prefix (lit ''>&'') operator \<or>
                           prefix (lit ''>|'') operator \<or> prefix (lit ''<<'') operator then 2
                   else 1)
            in Some (start + operator_len))"

definition is_shell_assignment_word :: "normalized_shell_word \<Rightarrow> bool" where
  "is_shell_assignment_word word =
     (if w_assignment_name_constructed word then False
      else case w_assignment_operator_index word of
          None \<Rightarrow> False
        | Some operator_index \<Rightarrow>
            (case take_bytes operator_index (w_text word) of
               [] \<Rightarrow> False
             | first # chars \<Rightarrow>
                 (first = c_underscore \<or> is_ascii_alphabetic first) \<and>
                 list_all (\<lambda>ch. ch = c_underscore \<or> is_ascii_alphanumeric ch) chars))"

definition get_word :: "'a list \<Rightarrow> nat \<Rightarrow> 'a option" where
  "get_word xs i = (if i < length xs then Some (xs ! i) else None)"

definition redirection_prefix_width :: "normalized_shell_word list \<Rightarrow> nat \<Rightarrow> nat option" where
  "redirection_prefix_width words index =
     (case get_word words index of
        None \<Rightarrow> None
      | Some word \<Rightarrow>
          (case w_redirection_operator_end word of
             None \<Rightarrow> None
           | Some operator_end \<Rightarrow>
               if str_len (w_text word) = operator_end \<and> get_word words (index + 1) \<noteq> None
               then Some 2 else Some 1))"

function time_prefix_width :: "normalized_shell_word list \<Rightarrow> nat \<Rightarrow> nat \<Rightarrow> nat" where
  "time_prefix_width words index width =
     (if index + width < length words \<and> w_text (words ! (index + width)) = lit ''-p''
      then time_prefix_width words index (width + 1) else width)"
  by pat_completeness auto
termination
  by (relation "measure (\<lambda>(words, index, width). length words - (index + width))") auto

declare time_prefix_width.simps [simp del]

definition shell_pipeline_prefix_width :: "normalized_shell_word list \<Rightarrow> nat \<Rightarrow> nat option" where
  "shell_pipeline_prefix_width words index =
     (case get_word words index of
        None \<Rightarrow> None
      | Some word \<Rightarrow>
          if w_text word = lit ''!'' then Some 1
          else if w_text word \<noteq> lit ''time'' then None
          else Some (time_prefix_width words index 1))"

lemma redirection_prefix_width_pos: "redirection_prefix_width words index = Some w \<Longrightarrow> 0 < w"
  by (auto simp: redirection_prefix_width_def split: option.splits if_splits)

lemma time_prefix_width_ge: "width \<le> time_prefix_width words index width"
proof (induction words index width rule: time_prefix_width.induct)
  case (1 words index width)
  then show ?case by (subst time_prefix_width.simps) auto
qed

lemma shell_pipeline_prefix_width_pos:
  "shell_pipeline_prefix_width words index = Some w \<Longrightarrow> 0 < w"
  using time_prefix_width_ge [of 1 words index]
  by (auto simp: shell_pipeline_prefix_width_def split: option.splits if_splits)

function command_word_index_from :: "normalized_shell_word list \<Rightarrow> nat \<Rightarrow> nat option" where
  "command_word_index_from words index =
     (if index < length words then
        if is_shell_assignment_word (words ! index) then command_word_index_from words (index + 1)
        else case redirection_prefix_width words index of
            Some width \<Rightarrow> command_word_index_from words (index + width)
          | None \<Rightarrow>
              (case shell_pipeline_prefix_width words index of
                 Some width \<Rightarrow> command_word_index_from words (index + width)
               | None \<Rightarrow> Some index)
      else None)"
  by pat_completeness auto
termination
  by (relation "measure (\<lambda>(words, index). length words - index)")
    (auto dest: redirection_prefix_width_pos shell_pipeline_prefix_width_pos)

declare command_word_index_from.simps [simp del]

definition command_word_index :: "normalized_shell_word list \<Rightarrow> nat option" where
  "command_word_index words = command_word_index_from words 0"

lemma command_word_index_from_bound:
  "command_word_index_from words index = Some k \<Longrightarrow> index \<le> k \<and> k < length words"
proof (induction words index rule: command_word_index_from.induct)
  case (1 words index)
  from "1.prems" have i: "index < length words"
    by (subst (asm) command_word_index_from.simps) (auto split: if_splits)
  from "1.prems" i "1.IH" show ?case
    by (subst (asm) command_word_index_from.simps)
      (force split: if_splits option.splits)
qed

section \<open>ANSI-C quoting\<close>

text \<open>The \<^verbatim>\<open>peek\<close> loops of the escape decoders: at most \<open>n\<close> digits.\<close>

fun take_digits :: "(rchar \<Rightarrow> bool) \<Rightarrow> nat \<Rightarrow> rstr \<Rightarrow> rstr \<times> rstr" where
  "take_digits p 0 chars = ([], chars)"
| "take_digits p (Suc n) [] = ([], [])"
| "take_digits p (Suc n) (c # chars) =
     (if p c then (let (digits, rest) = take_digits p n chars in (c # digits, rest))
      else ([], c # chars))"

definition is_octal_digit :: "rchar \<Rightarrow> bool" where
  [text_simps]: "is_octal_digit c \<longleftrightarrow> 48 \<le> c \<and> c \<le> 55"

text \<open>\<open>None\<close> as the decoded text stands for an escaped NUL, which ends the string.\<close>

definition decode_scalar :: "nat \<Rightarrow> rstr option" where
  "decode_scalar value =
     (case from_u32 value of
        None \<Rightarrow> Some []
      | Some c \<Rightarrow> if c = c_nul then None else Some [c])"

definition decode_octal_escape :: "rstr \<Rightarrow> rchar \<Rightarrow> rstr option \<times> rstr" where
  "decode_octal_escape chars first =
     (let (digits, rest) = take_digits is_octal_digit 2 chars
      in (decode_scalar (digits_value 8 (first # digits)), rest))"

definition decode_hex_escape :: "rstr \<Rightarrow> nat \<Rightarrow> rstr option \<times> rstr" where
  "decode_hex_escape chars max_digits =
     (let (digits, rest) = take_digits is_ascii_hexdigit max_digits chars
      in if digits = [] then (Some [], rest) else (decode_scalar (digits_value 16 digits), rest))"

fun decode_ansi_c_escape :: "rstr \<Rightarrow> rstr option \<times> rstr" where
  "decode_ansi_c_escape [] = (Some [c_backslash], [])"
| "decode_ansi_c_escape (ch # chars) =
     (if ch = 97 then (Some [7], chars)
      else if ch = 98 then (Some [8], chars)
      else if ch = 101 \<or> ch = 69 then (Some [27], chars)
      else if ch = 102 then (Some [12], chars)
      else if ch = 110 then (Some [10], chars)
      else if ch = 114 then (Some [13], chars)
      else if ch = 116 then (Some [9], chars)
      else if ch = 118 then (Some [11], chars)
      else if ch = 120 then decode_hex_escape chars 2
      else if ch = 117 then decode_hex_escape chars 4
      else if ch = 85 then decode_hex_escape chars 8
      else if is_octal_digit ch then decode_octal_escape chars ch
      else (Some [ch], chars))"

fun drain_ansi_c_quoted :: "rstr \<Rightarrow> rstr" where
  "drain_ansi_c_quoted [] = []"
| "drain_ansi_c_quoted (ch # chars) = (if ch = c_squote then chars else drain_ansi_c_quoted chars)"

lemma take_digits_length: "take_digits p n chars = (digits, rest) \<Longrightarrow> length rest \<le> length chars"
  by (induction p n chars arbitrary: digits rest rule: take_digits.induct)
    (auto split: if_splits prod.splits intro: le_SucI)

lemma decode_ansi_c_escape_length:
  "decode_ansi_c_escape chars = (d, rest) \<Longrightarrow> length rest \<le> length chars"
  by (cases chars)
    (auto simp: decode_hex_escape_def decode_octal_escape_def
      split: if_splits prod.splits intro: le_SucI dest!: take_digits_length)

function consume_ansi_c_quoted :: "rstr \<Rightarrow> rstr \<times> rstr" where
  "consume_ansi_c_quoted [] = ([], [])"
| "consume_ansi_c_quoted (ch # chars) =
     (if ch = c_squote then ([], chars)
      else if ch = c_backslash then
        (case decode_ansi_c_escape chars of
           (None, rest) \<Rightarrow> ([], drain_ansi_c_quoted rest)
         | (Some decoded, rest) \<Rightarrow>
             (let (out, rest') = consume_ansi_c_quoted rest in (decoded @ out, rest')))
      else if ch = c_nul then ([], drain_ansi_c_quoted chars)
      else (let (out, rest') = consume_ansi_c_quoted chars in (ch # out, rest')))"
  by pat_completeness auto
termination
  by (relation "measure length") (auto dest: decode_ansi_c_escape_length [OF sym])

lemma drain_ansi_c_quoted_length: "length (drain_ansi_c_quoted chars) \<le> length chars"
  by (induction chars) auto

lemma consume_ansi_c_quoted_length:
  "consume_ansi_c_quoted chars = (out, rest) \<Longrightarrow> length rest \<le> length chars"
proof (induction chars arbitrary: out rest rule: consume_ansi_c_quoted.induct)
  case (2 ch chars)
  then show ?case
    using drain_ansi_c_quoted_length [of chars]
    by (auto split: if_splits prod.splits option.splits intro: le_SucI
        dest!: decode_ansi_c_escape_length
        intro: order_trans [OF drain_ansi_c_quoted_length] order_trans)
      (meson le_SucI order_trans)
qed simp

section \<open>The scanner\<close>

record nstate =
  words :: "normalized_shell_word list"
  current :: rstr
  in_single :: bool
  in_double :: bool
  word_constructed :: bool
  assignment_operator_index :: "nat option"
  assignment_name_constructed :: bool
  redirection_operator_prefix :: bool

definition init_nstate :: nstate where
  "init_nstate = \<lparr>words = [], current = [], in_single = False, in_double = False,
     word_constructed = False, assignment_operator_index = None,
     assignment_name_constructed = False, redirection_operator_prefix = False\<rparr>"

text \<open>Every quoting branch of the loop opens with these two assignments.\<close>

definition mark_constructed :: "nstate \<Rightarrow> nstate" where
  "mark_constructed st =
     st\<lparr>word_constructed := True,
        assignment_name_constructed :=
          (if assignment_operator_index st = None then True else assignment_name_constructed st)\<rparr>"

definition push_char :: "rchar \<Rightarrow> nstate \<Rightarrow> nstate" where
  "push_char c st = st\<lparr>current := current st @ [c]\<rparr>"

definition push_normalized_word :: "nstate \<Rightarrow> nstate" where
  "push_normalized_word st =
     (let st' = (if current st \<noteq> [] \<or> word_constructed st then
            st\<lparr>words := words st @
                 [\<lparr>w_text = current st,
                   w_constructed = word_constructed st,
                   w_assignment_operator_index = assignment_operator_index st,
                   w_assignment_name_constructed = assignment_name_constructed st,
                   w_redirection_operator_end =
                     redirection_operator_end (current st) (redirection_operator_prefix st)\<rparr>],
               current := []\<rparr>
          else st)
      in st'\<lparr>word_constructed := False, assignment_operator_index := None,
             assignment_name_constructed := False, redirection_operator_prefix := False\<rparr>)"

text \<open>The loop body once the quoting branches have not applied.\<close>

definition normalize_char :: "nstate \<Rightarrow> rchar \<Rightarrow> nstate" where
  "normalize_char st0 ch =
     (let st1 = (if ch = c_dollar \<and> \<not> in_single st0 then mark_constructed st0 else st0);
          st2 = (if \<not> in_single st1 \<and> \<not> in_double st1 \<and>
                    (ch \<in> {c_star, c_qmark, c_lbrace, c_rbrace} \<or>
                     (ch \<in> {c_lbracket, c_rbracket} \<and> current st1 \<noteq> []))
                 then mark_constructed st1 else st1)
      in if is_whitespace ch \<and> \<not> in_single st2 \<and> \<not> in_double st2 then push_normalized_word st2
         else
           let st3 = (if \<not> in_single st2 \<and> \<not> in_double st2 \<and> ch \<in> {c_lt, c_gt} \<and>
                         assignment_operator_index st2 = None \<and>
                         \<not> assignment_name_constructed st2 \<and>
                         (current st2 = [] \<or> list_all is_ascii_digit (current st2))
                      then st2\<lparr>redirection_operator_prefix := True\<rparr> else st2);
               st4 = (if ch = c_eq \<and> \<not> in_single st3 \<and> \<not> in_double st3 \<and>
                         assignment_operator_index st3 = None
                      then st3\<lparr>assignment_operator_index := Some (str_len (current st3))\<rparr> else st3)
           in push_char ch st4)"

function normalize_loop :: "nstate \<Rightarrow> rstr \<Rightarrow> nstate" where
  "normalize_loop st [] = st"
| "normalize_loop st (ch # chars) =
     (if ch = c_backslash \<and> \<not> in_single st then
        (case chars of
           next # rest \<Rightarrow>
             normalize_loop
               (if next \<noteq> c_newline then push_char next (mark_constructed st) else mark_constructed st)
               rest
         | [] \<Rightarrow> push_char ch (mark_constructed st))
      else if ch = c_squote \<and> \<not> in_double st then
        normalize_loop ((mark_constructed st)\<lparr>in_single := \<not> in_single st\<rparr>) chars
      else if ch = c_dquote \<and> \<not> in_single st then
        normalize_loop ((mark_constructed st)\<lparr>in_double := \<not> in_double st\<rparr>) chars
      else if ch = c_dollar \<and> \<not> in_single st \<and> \<not> in_double st \<and>
              chars \<noteq> [] \<and> hd chars \<in> {c_squote, c_dquote} then
        (if hd chars = c_squote then
           (let (quoted, rest) = consume_ansi_c_quoted (tl chars);
                marked = mark_constructed st
            in normalize_loop (marked\<lparr>current := current marked @ quoted\<rparr>) rest)
         else normalize_loop ((mark_constructed st)\<lparr>in_double := \<not> in_double st\<rparr>) (tl chars))
      else normalize_loop (normalize_char st ch) chars)"
  by pat_completeness auto
termination
proof (relation "measure (\<lambda>(st, chars). length chars)", goal_cases)
  case (5 st ch chars x quoted rest marked)
  then have "length rest \<le> length (tl chars)"
    using consume_ansi_c_quoted_length [of "tl chars" quoted rest] by simp
  with 5 show ?case by (cases chars) auto
qed auto

definition join_words :: "normalized_shell_word list \<Rightarrow> rstr" where
  "join_words ws = join_with [c_space] (map w_text ws)"

definition normalize_shell_words :: "rstr \<Rightarrow> normalized_shell_words" where
  "normalize_shell_words input =
     (let ws = words (push_normalized_word (normalize_loop init_nstate (trim input)));
          command_index = command_word_index ws
      in \<lparr>n_text = join_words ws,
          n_command_text =
            (case command_index of
               Some index \<Rightarrow> if 0 < index then Some (join_words (drop index ws)) else None
             | None \<Rightarrow> None),
          n_command_word_constructed =
            (case command_index of Some index \<Rightarrow> w_constructed (ws ! index) | None \<Rightarrow> False)\<rparr>)"

definition push_normalized_shell_words ::
  "rstr list \<Rightarrow> rstr \<Rightarrow> normalized_shell_words \<Rightarrow> rstr list" where
  "push_normalized_shell_words candidates input normalized =
     (let candidates1 = (if n_text normalized \<noteq> input then candidates @ [n_text normalized]
                         else candidates)
      in case n_command_text normalized of
           Some command_text \<Rightarrow>
             if command_text \<noteq> input \<and> command_text \<noteq> n_text normalized
             then candidates1 @ [command_text] else candidates1
         | None \<Rightarrow> candidates1)"

definition push_normalized_candidates :: "rstr list \<Rightarrow> rstr \<Rightarrow> rstr list" where
  "push_normalized_candidates candidates input =
     push_normalized_shell_words candidates input (normalize_shell_words input)"

section \<open>Spellings of a word\<close>

text \<open>
  \<open>spells w u\<close>: the shell text \<open>u\<close> is a way to write the word \<open>w\<close>, with any mix of plain
  chars, backslash escapes, line continuations, single and double quotes, and ANSI-C
  quotes.  The plain chars leave out white space, the quotes, the backslash and \<open>$\<close>.
\<close>

inductive spells :: "rstr \<Rightarrow> rstr \<Rightarrow> bool" where
  spells_Nil: "spells [] []"
| spells_plain: "spells w u \<Longrightarrow> \<not> is_whitespace c \<Longrightarrow>
    c \<notin> {c_backslash, c_squote, c_dquote, c_dollar} \<Longrightarrow> spells (c # w) (c # u)"
| spells_escape: "spells w u \<Longrightarrow> c \<noteq> c_newline \<Longrightarrow> spells (c # w) (c_backslash # c # u)"
| spells_continuation: "spells w u \<Longrightarrow> spells w (c_backslash # c_newline # u)"
| spells_single: "spells w u \<Longrightarrow> c_squote \<notin> set q \<Longrightarrow>
    spells (q @ w) (c_squote # q @ c_squote # u)"
| spells_double: "spells w u \<Longrightarrow> c_dquote \<notin> set q \<Longrightarrow> c_backslash \<notin> set q \<Longrightarrow>
    spells (q @ w) (c_dquote # q @ c_dquote # u)"
| spells_ansi: "spells w u \<Longrightarrow> c_squote \<notin> set q \<Longrightarrow> c_backslash \<notin> set q \<Longrightarrow> c_nul \<notin> set q \<Longrightarrow>
    spells (q @ w) (c_dollar # c_squote # q @ c_squote # u)"

definition unquoted :: "nstate \<Rightarrow> bool" where
  "unquoted st \<longleftrightarrow> \<not> in_single st \<and> \<not> in_double st"

text \<open>The scanner has read the chars of \<open>w\<close> into the current word and nothing else.\<close>

definition extends :: "nstate \<Rightarrow> rstr \<Rightarrow> nstate \<Rightarrow> bool" where
  "extends st w st' \<longleftrightarrow>
     words st' = words st \<and> current st' = current st @ w \<and>
     in_single st' = in_single st \<and> in_double st' = in_double st \<and>
     (word_constructed st \<longrightarrow> word_constructed st') \<and>
     (c_eq \<notin> set w \<longrightarrow> assignment_operator_index st' = assignment_operator_index st) \<and>
     (c_lt \<notin> set w \<and> c_gt \<notin> set w \<longrightarrow>
        redirection_operator_prefix st' = redirection_operator_prefix st)"

lemma extends_refl: "extends st [] st"
  by (simp add: extends_def)

lemma extends_trans: "extends st v st' \<Longrightarrow> extends st' w st'' \<Longrightarrow> extends st (v @ w) st''"
  by (simp add: extends_def)

lemma mark_constructed_simps [simp]:
  "words (mark_constructed st) = words st" "current (mark_constructed st) = current st"
  "in_single (mark_constructed st) = in_single st" "in_double (mark_constructed st) = in_double st"
  "word_constructed (mark_constructed st)"
  "assignment_operator_index (mark_constructed st) = assignment_operator_index st"
  "redirection_operator_prefix (mark_constructed st) = redirection_operator_prefix st"
  by (simp_all add: mark_constructed_def)

lemma normalize_char_in_single: "in_single st \<Longrightarrow> normalize_char st c = push_char c st"
  by (simp add: normalize_char_def)

lemma normalize_char_in_double:
  "in_double st \<Longrightarrow> extends st [c] (normalize_char st c)"
  by (simp add: normalize_char_def Let_def push_char_def extends_def)

lemma normalize_char_plain:
  "unquoted st \<Longrightarrow> \<not> is_whitespace c \<Longrightarrow> extends st [c] (normalize_char st c)"
  by (simp add: unquoted_def normalize_char_def Let_def push_char_def extends_def)

lemma normalize_loop_in_single:
  "in_single st \<Longrightarrow> c_squote \<notin> set q \<Longrightarrow>
   normalize_loop st (q @ rest) = normalize_loop (st\<lparr>current := current st @ q\<rparr>) rest"
  by (induction q arbitrary: st) (auto simp: normalize_char_in_single push_char_def)

lemma normalize_loop_in_double:
  "in_double st \<Longrightarrow> \<not> in_single st \<Longrightarrow> c_dquote \<notin> set q \<Longrightarrow> c_backslash \<notin> set q \<Longrightarrow>
   \<exists>st'. normalize_loop st (q @ rest) = normalize_loop st' rest \<and> extends st q st'"
proof (induction q arbitrary: st)
  case Nil
  then show ?case using extends_refl by auto
next
  case (Cons c q)
  let ?st = "normalize_char st c"
  have ext: "extends st [c] ?st" using Cons.prems by (simp add: normalize_char_in_double)
  then have "in_double ?st" "\<not> in_single ?st" using Cons.prems by (auto simp: extends_def)
  with Cons.IH [of ?st] Cons.prems obtain st' where
    st': "normalize_loop ?st (q @ rest) = normalize_loop st' rest" "extends ?st q st'"
    by auto
  from Cons.prems st'(1) have "normalize_loop st ((c # q) @ rest) = normalize_loop st' rest"
    by simp
  with extends_trans [OF ext st'(2)] show ?case by auto
qed

lemma consume_ansi_c_quoted_plain:
  "c_squote \<notin> set q \<Longrightarrow> c_backslash \<notin> set q \<Longrightarrow> c_nul \<notin> set q \<Longrightarrow>
   consume_ansi_c_quoted (q @ c_squote # rest) = (q, rest)"
  by (induction q) auto

lemma normalize_loop_spells:
  "spells w u \<Longrightarrow> unquoted st \<Longrightarrow>
   \<exists>st'. normalize_loop st (u @ rest) = normalize_loop st' rest \<and> extends st w st' \<and>
         (u \<noteq> w \<longrightarrow> word_constructed st')"
proof (induction w u arbitrary: st rule: spells.induct)
  case spells_Nil
  then show ?case using extends_refl by auto
next
  case (spells_plain w u c)
  let ?st = "normalize_char st c"
  have ext: "extends st [c] ?st" using spells_plain by (simp add: normalize_char_plain)
  then have "unquoted ?st" using spells_plain.prems by (simp add: extends_def unquoted_def)
  from spells_plain.IH [OF this] obtain st' where
    st': "normalize_loop ?st (u @ rest) = normalize_loop st' rest" "extends ?st w st'"
      "u \<noteq> w \<longrightarrow> word_constructed st'" by blast
  from spells_plain st'(1) have "normalize_loop st ((c # u) @ rest) = normalize_loop st' rest"
    by simp
  with extends_trans [OF ext st'(2)] st'(3) show ?case by auto
next
  case (spells_escape w u c)
  let ?st = "push_char c (mark_constructed st)"
  have ext: "extends st [c] ?st" "word_constructed ?st" "unquoted ?st"
    using spells_escape.prems by (auto simp: extends_def push_char_def unquoted_def)
  from spells_escape.IH [OF ext(3)] obtain st' where
    st': "normalize_loop ?st (u @ rest) = normalize_loop st' rest" "extends ?st w st'" by blast
  then have "word_constructed st'" using ext(2) by (simp add: extends_def)
  with spells_escape st'(1) extends_trans [OF ext(1) st'(2)] show ?case
    by (auto simp: unquoted_def)
next
  case (spells_continuation w u)
  let ?st = "mark_constructed st"
  have ext: "extends st [] ?st" "word_constructed ?st" "unquoted ?st"
    using spells_continuation.prems by (auto simp: extends_def unquoted_def)
  from spells_continuation.IH [OF ext(3)] obtain st' where
    st': "normalize_loop ?st (u @ rest) = normalize_loop st' rest" "extends ?st w st'" by blast
  then have "word_constructed st'" using ext(2) by (simp add: extends_def)
  with spells_continuation st'(1) extends_trans [OF ext(1) st'(2)] show ?case
    by (auto simp: unquoted_def)
next
  case (spells_single w u q)
  let ?open = "(mark_constructed st)\<lparr>in_single := True\<rparr>"
  let ?in = "?open\<lparr>current := current ?open @ q\<rparr>"
  let ?st = "(mark_constructed ?in)\<lparr>in_single := False\<rparr>"
  have ext: "extends st q ?st" "word_constructed ?st" "unquoted ?st"
    using spells_single.prems by (auto simp: extends_def unquoted_def)
  have "normalize_loop st (c_squote # q @ c_squote # u @ rest) = normalize_loop ?st (u @ rest)"
    using spells_single.prems spells_single.hyps(2)
    by (simp add: unquoted_def normalize_loop_in_single)
  moreover from spells_single.IH [OF ext(3)] obtain st' where
    st': "normalize_loop ?st (u @ rest) = normalize_loop st' rest" "extends ?st w st'" by blast
  moreover from st'(2) have "word_constructed st'" using ext(2) by (simp add: extends_def)
  ultimately show ?case using extends_trans [OF ext(1) st'(2)] by auto
next
  case (spells_double w u q)
  let ?open = "(mark_constructed st)\<lparr>in_double := True\<rparr>"
  obtain mid where mid: "normalize_loop ?open (q @ c_dquote # u @ rest) =
      normalize_loop mid (c_dquote # u @ rest)" "extends ?open q mid"
    using normalize_loop_in_double [of ?open q "c_dquote # u @ rest"]
      spells_double.prems spells_double.hyps by (auto simp: unquoted_def)
  let ?st = "(mark_constructed mid)\<lparr>in_double := False\<rparr>"
  have ext: "extends st q ?st" "word_constructed ?st" "unquoted ?st"
    using spells_double.prems mid(2) by (auto simp: extends_def unquoted_def)
  have "normalize_loop st (c_dquote # q @ c_dquote # u @ rest) = normalize_loop ?st (u @ rest)"
    using spells_double.prems mid by (simp add: unquoted_def extends_def)
  moreover from spells_double.IH [OF ext(3)] obtain st' where
    st': "normalize_loop ?st (u @ rest) = normalize_loop st' rest" "extends ?st w st'" by blast
  moreover from st'(2) have "word_constructed st'" using ext(2) by (simp add: extends_def)
  ultimately show ?case using extends_trans [OF ext(1) st'(2)] by auto
next
  case (spells_ansi w u q)
  let ?st = "(mark_constructed st)\<lparr>current := current st @ q\<rparr>"
  have ext: "extends st q ?st" "word_constructed ?st" "unquoted ?st"
    using spells_ansi.prems by (auto simp: extends_def unquoted_def)
  have "normalize_loop st (c_dollar # c_squote # q @ c_squote # u @ rest) =
      normalize_loop ?st (u @ rest)"
    using spells_ansi.prems spells_ansi.hyps
    by (simp add: unquoted_def consume_ansi_c_quoted_plain)
  moreover from spells_ansi.IH [OF ext(3)] obtain st' where
    st': "normalize_loop ?st (u @ rest) = normalize_loop st' rest" "extends ?st w st'" by blast
  moreover from st'(2) have "word_constructed st'" using ext(2) by (simp add: extends_def)
  ultimately show ?case using extends_trans [OF ext(1) st'(2)] by auto
qed

text \<open>A command written as spelled words with single spaces between them.\<close>

lemma push_normalized_word_read:
  assumes "extends st w st'" and "current st = []" and "w \<noteq> []"
  shows "\<exists>word. words (push_normalized_word st') = words st @ [word] \<and> w_text word = w \<and>
     w_constructed word = word_constructed st' \<and>
     w_assignment_operator_index word = assignment_operator_index st' \<and>
     w_redirection_operator_end word = redirection_operator_end w (redirection_operator_prefix st')"
  using assms by (simp add: extends_def push_normalized_word_def Let_def)

lemma push_normalized_word_reset [simp]:
  "current (push_normalized_word st) = []"
  "in_single (push_normalized_word st) = in_single st"
  "in_double (push_normalized_word st) = in_double st"
  "word_constructed (push_normalized_word st) = False"
  "assignment_operator_index (push_normalized_word st) = None"
  "redirection_operator_prefix (push_normalized_word st) = False"
  by (simp_all add: push_normalized_word_def Let_def)

lemma normalize_char_space: "unquoted st \<Longrightarrow> normalize_char st c_space = push_normalized_word st"
  by (simp add: unquoted_def normalize_char_def is_whitespace_def)

definition word_reads :: "rstr \<Rightarrow> rstr \<Rightarrow> normalized_shell_word \<Rightarrow> bool" where
  "word_reads w u word \<longleftrightarrow> w_text word = w \<and> (u \<noteq> w \<longrightarrow> w_constructed word) \<and>
     (c_eq \<notin> set w \<longrightarrow> w_assignment_operator_index word = None) \<and>
     (c_lt \<notin> set w \<and> c_gt \<notin> set w \<longrightarrow> w_redirection_operator_end word = None)"

lemma normalize_loop_word:
  assumes "spells w u" and "w \<noteq> []" and "unquoted st" and "current st = []"
    and "assignment_operator_index st = None" and "\<not> redirection_operator_prefix st"
  shows "\<exists>st' word. normalize_loop st (u @ rest) = normalize_loop st' rest \<and> unquoted st' \<and>
     words (push_normalized_word st') = words st @ [word] \<and> word_reads w u word"
proof -
  obtain st' where st': "normalize_loop st (u @ rest) = normalize_loop st' rest" "extends st w st'"
    "u \<noteq> w \<longrightarrow> word_constructed st'"
    using normalize_loop_spells [OF assms(1,3), of rest] by blast
  from push_normalized_word_read [OF st'(2) assms(4,2)] obtain word where
    word: "words (push_normalized_word st') = words st @ [word]" "w_text word = w"
      "w_constructed word = word_constructed st'"
      "w_assignment_operator_index word = assignment_operator_index st'"
      "w_redirection_operator_end word = redirection_operator_end w (redirection_operator_prefix st')"
    by blast
  have "word_reads w u word"
    using st'(2,3) word assms(5,6)
    by (auto simp: word_reads_def extends_def redirection_operator_end_def)
  moreover have "unquoted st'" using st'(2) assms(3) by (simp add: extends_def unquoted_def)
  ultimately show ?thesis using st'(1) word(1) by blast
qed

lemma normalize_loop_words:
  assumes "list_all2 spells ws us" and "list_all (\<lambda>w. w \<noteq> []) ws" and "ws \<noteq> []"
    and "unquoted st" and "current st = []"
    and "assignment_operator_index st = None" and "\<not> redirection_operator_prefix st"
  shows "\<exists>ns. words (push_normalized_word (normalize_loop st (join_with [c_space] us))) =
      words st @ ns \<and> length ns = length ws \<and> (\<forall>i<length ws. word_reads (ws ! i) (us ! i) (ns ! i))"
  using assms
proof (induction ws us arbitrary: st rule: list_all2_induct)
  case Nil
  then show ?case by simp
next
  case (Cons w ws u us)
  have w: "w \<noteq> []" using Cons.prems(1) by simp
  show ?case
  proof (cases "us = []")
    case True
    then have "ws = []" using Cons.hyps(2) by simp
    obtain st' word where "normalize_loop st (u @ []) = normalize_loop st' []"
      "words (push_normalized_word st') = words st @ [word]" "word_reads w u word"
      using normalize_loop_word [OF Cons.hyps(1) w Cons.prems(3-6), of "[]"] by blast
    then show ?thesis using True \<open>ws = []\<close> by (intro exI [of _ "[word]"]) simp
  next
    case False
    then have ws: "ws \<noteq> []" using Cons.hyps(2) by auto
    obtain st' word where st': "normalize_loop st (u @ c_space # join_with [c_space] us) =
        normalize_loop st' (c_space # join_with [c_space] us)" "unquoted st'"
      and word: "words (push_normalized_word st') = words st @ [word]" "word_reads w u word"
      using normalize_loop_word [OF Cons.hyps(1) w Cons.prems(3-6), of "c_space # join_with [c_space] us"]
      by blast
    let ?st = "push_normalized_word st'"
    have step: "normalize_loop st (join_with [c_space] (u # us)) =
        normalize_loop ?st (join_with [c_space] us)"
      using st' False by (simp add: join_with_Cons normalize_char_space)
    have "unquoted ?st" using st'(2) by (simp add: unquoted_def)
    with Cons.IH [of ?st] Cons.prems(1) ws obtain ns where
      ns: "words (push_normalized_word (normalize_loop ?st (join_with [c_space] us))) = words ?st @ ns"
        "length ns = length ws" "\<forall>i<length ws. word_reads (ws ! i) (us ! i) (ns ! i)"
      by auto
    show ?thesis
    proof (intro exI [of _ "word # ns"] conjI allI impI)
      show "words (push_normalized_word (normalize_loop st (join_with [c_space] (u # us)))) =
          words st @ word # ns"
        using step ns(1) word(1) by simp
    next
      fix i assume "i < length (w # ws)"
      then show "word_reads ((w # ws) ! i) ((u # us) ! i) ((word # ns) ! i)"
        using ns(3) word(2) by (cases i) auto
    qed (simp add: ns(2))
  qed
qed

text \<open>The words the scanner reads from a command that is spelled word by word.\<close>

lemma normalize_spelled_words:
  assumes "list_all2 spells ws us" and "list_all (\<lambda>w. w \<noteq> []) ws" and "ws \<noteq> []"
    and "trim (join_with [c_space] us) = join_with [c_space] us"
  obtains ns where
    "words (push_normalized_word (normalize_loop init_nstate (trim (join_with [c_space] us)))) = ns"
    "length ns = length ws" "\<forall>i<length ws. word_reads (ws ! i) (us ! i) (ns ! i)"
  using normalize_loop_words [OF assms(1-3), of init_nstate] assms(4)
  by (auto simp: init_nstate_def unquoted_def)

lemma normalize_spelled_text:
  assumes "list_all2 spells ws us" and "list_all (\<lambda>w. w \<noteq> []) ws" and "ws \<noteq> []"
    and "trim (join_with [c_space] us) = join_with [c_space] us"
  shows "n_text (normalize_shell_words (join_with [c_space] us)) = join_with [c_space] ws"
proof -
  obtain ns where ns:
    "words (push_normalized_word (normalize_loop init_nstate (trim (join_with [c_space] us)))) = ns"
    "length ns = length ws" "\<forall>i<length ws. word_reads (ws ! i) (us ! i) (ns ! i)"
    using normalize_spelled_words [OF assms] by blast
  have "map w_text ns = ws"
    using ns(2,3) by (intro nth_equalityI) (auto simp: word_reads_def)
  with ns(1) show ?thesis by (simp add: normalize_shell_words_def Let_def join_words_def)
qed

lemma command_word_index_first:
  assumes "ns \<noteq> []" and "w_assignment_operator_index (hd ns) = None"
    and "w_redirection_operator_end (hd ns) = None"
    and "w_text (hd ns) \<notin> {lit ''!'', lit ''time''}"
  shows "command_word_index ns = Some 0"
proof -
  obtain n ns' where "ns = n # ns'" using assms(1) by (cases ns) auto
  with assms show ?thesis
    unfolding command_word_index_def
    by (subst command_word_index_from.simps)
      (simp add: is_shell_assignment_word_def redirection_prefix_width_def
        shell_pipeline_prefix_width_def get_word_def)
qed

lemma normalize_spelled_constructed:
  assumes "list_all2 spells ws us" and "list_all (\<lambda>w. w \<noteq> []) ws" and "ws \<noteq> []"
    and "trim (join_with [c_space] us) = join_with [c_space] us"
    and "{c_eq, c_lt, c_gt} \<inter> set (hd ws) = {}" and "hd ws \<notin> {lit ''!'', lit ''time''}"
    and "hd us \<noteq> hd ws"
  shows "n_command_word_constructed (normalize_shell_words (join_with [c_space] us))"
proof -
  obtain ns where ns:
    "words (push_normalized_word (normalize_loop init_nstate (trim (join_with [c_space] us)))) = ns"
    "length ns = length ws" "\<forall>i<length ws. word_reads (ws ! i) (us ! i) (ns ! i)"
    using normalize_spelled_words [OF assms(1-4)] by blast
  have ne: "ns \<noteq> []" "us \<noteq> []" using ns(2) assms(1,3) by auto
  have first: "word_reads (hd ws) (hd us) (hd ns)"
    using ns(3) assms(3) ne by (metis hd_conv_nth length_greater_0_conv)
  have "command_word_index ns = Some 0"
    by (rule command_word_index_first [OF ne(1)]) (use first assms(5,6) in \<open>auto simp: word_reads_def\<close>)
  moreover have "w_constructed (ns ! 0)"
    using first assms(7) ne(1) by (simp add: word_reads_def hd_conv_nth)
  ultimately show ?thesis using ns(1) by (simp add: normalize_shell_words_def Let_def)
qed

end
