(* ===== verification/Shell_Analysis.thy ===== *)
theory Shell_Analysis
  imports Shell_Words
begin

text \<open>
  The segmentation of a command line (\<^verbatim>\<open>policy/substitution.rs\<close>): the scanner
  \<open>analyze_loop\<close> splits at the control operators, descends into command and process
  substitutions, and keeps for every simple command its raw and its normalised text.  The
  three substitution parsers return the text inside and the chars that follow.  The lemmas
  show that the scanner splits text exactly at its unquoted operators and that what is
  inside a substitution is analysed as a command of its own.
\<close>

section \<open>Substitutions\<close>

record pstate =
  p_single :: bool
  p_double :: bool
  p_escaped :: bool

fun parse_dollar_loop :: "nat \<Rightarrow> pstate \<Rightarrow> rstr \<Rightarrow> rstr \<Rightarrow> (rstr \<times> rstr) option" where
  "parse_dollar_loop depth q content [] = None"
| "parse_dollar_loop depth q content (ch # chars) =
     (if p_escaped q then parse_dollar_loop depth (q\<lparr>p_escaped := False\<rparr>) (content @ [ch]) chars
      else if ch = c_backslash \<and> \<not> p_single q then
        parse_dollar_loop depth (q\<lparr>p_escaped := True\<rparr>) (content @ [ch]) chars
      else if ch = c_squote \<and> \<not> p_double q then
        parse_dollar_loop depth (q\<lparr>p_single := \<not> p_single q\<rparr>) (content @ [ch]) chars
      else if ch = c_dquote \<and> \<not> p_single q then
        parse_dollar_loop depth (q\<lparr>p_double := \<not> p_double q\<rparr>) (content @ [ch]) chars
      else if \<not> p_single q \<and> \<not> p_double q \<and> ch = c_dollar \<and> (chars \<noteq> [] \<and> hd chars = c_lparen) then
        (case chars of
           c # rest \<Rightarrow> parse_dollar_loop (depth + 1) q (content @ [ch, c_lparen]) rest
         | [] \<Rightarrow> None)
      else if \<not> p_single q \<and> \<not> p_double q \<and> ch = c_rparen then
        (if depth - 1 = 0 then Some (content, chars)
         else parse_dollar_loop (depth - 1) q (content @ [ch]) chars)
      else parse_dollar_loop depth q (content @ [ch]) chars)"

fun parse_paren_loop :: "nat \<Rightarrow> pstate \<Rightarrow> rstr \<Rightarrow> rstr \<Rightarrow> (rstr \<times> rstr) option" where
  "parse_paren_loop depth q content [] = None"
| "parse_paren_loop depth q content (ch # chars) =
     (if p_escaped q then parse_paren_loop depth (q\<lparr>p_escaped := False\<rparr>) (content @ [ch]) chars
      else if ch = c_backslash \<and> \<not> p_single q then
        parse_paren_loop depth (q\<lparr>p_escaped := True\<rparr>) (content @ [ch]) chars
      else if ch = c_squote \<and> \<not> p_double q then
        parse_paren_loop depth (q\<lparr>p_single := \<not> p_single q\<rparr>) (content @ [ch]) chars
      else if ch = c_dquote \<and> \<not> p_single q then
        parse_paren_loop depth (q\<lparr>p_double := \<not> p_double q\<rparr>) (content @ [ch]) chars
      else if \<not> p_single q \<and> \<not> p_double q \<and> ch = c_lparen then
        parse_paren_loop (depth + 1) q (content @ [ch]) chars
      else if \<not> p_single q \<and> \<not> p_double q \<and> ch = c_rparen then
        (if depth - 1 = 0 then Some (content, chars)
         else parse_paren_loop (depth - 1) q (content @ [ch]) chars)
      else parse_paren_loop depth q (content @ [ch]) chars)"

fun parse_backtick_loop :: "bool \<Rightarrow> rstr \<Rightarrow> rstr \<Rightarrow> (rstr \<times> rstr) option" where
  "parse_backtick_loop escaped content [] = None"
| "parse_backtick_loop escaped content (ch # chars) =
     (if escaped then parse_backtick_loop False (content @ [ch]) chars
      else if ch = c_backslash then parse_backtick_loop True (content @ [ch]) chars
      else if ch = c_backtick then Some (content, chars)
      else parse_backtick_loop False (content @ [ch]) chars)"

definition init_pstate :: pstate where
  "init_pstate = \<lparr>p_single = False, p_double = False, p_escaped = False\<rparr>"

definition parse_dollar_command_substitution :: "rstr \<Rightarrow> (rstr \<times> rstr) option" where
  "parse_dollar_command_substitution chars = parse_dollar_loop 1 init_pstate [] chars"

definition parse_parenthesized_shell_content :: "rstr \<Rightarrow> (rstr \<times> rstr) option" where
  "parse_parenthesized_shell_content chars = parse_paren_loop 1 init_pstate [] chars"

definition parse_process_substitution :: "rstr \<Rightarrow> (rstr \<times> rstr) option" where
  "parse_process_substitution chars = parse_parenthesized_shell_content chars"

definition parse_backtick_command_substitution :: "rstr \<Rightarrow> (rstr \<times> rstr) option" where
  "parse_backtick_command_substitution chars = parse_backtick_loop False [] chars"

text \<open>A parser returns the text up to its closing char, and what follows that char.\<close>

lemma parse_dollar_loop_Some:
  "parse_dollar_loop depth q content chars = Some (text, rest) \<Longrightarrow>
   \<exists>inner. text = content @ inner \<and> chars = inner @ c_rparen # rest"
proof (induction depth q content chars rule: parse_dollar_loop.induct)
  case (2 depth q content ch chars)
  then show ?case
    by (cases chars) (auto split: if_splits)
qed simp

lemma parse_paren_loop_Some:
  "parse_paren_loop depth q content chars = Some (text, rest) \<Longrightarrow>
   \<exists>inner. text = content @ inner \<and> chars = inner @ c_rparen # rest"
  by (induction depth q content chars rule: parse_paren_loop.induct) (auto split: if_splits)

lemma parse_backtick_loop_Some:
  "parse_backtick_loop escaped content chars = Some (text, rest) \<Longrightarrow>
   \<exists>inner. text = content @ inner \<and> chars = inner @ c_backtick # rest"
  by (induction escaped content chars rule: parse_backtick_loop.induct) (auto split: if_splits)

section \<open>The scanner\<close>

record astate =
  segments :: "rstr list"
  normalized_segments :: "rstr list"
  a_current :: rstr
  a_single :: bool
  a_double :: bool
  a_escaped :: bool
  composed :: bool
  a_command_word_constructed :: bool

definition init_astate :: astate where
  "init_astate = \<lparr>segments = [], normalized_segments = [], a_current = [], a_single = False,
     a_double = False, a_escaped = False, composed = False, a_command_word_constructed = False\<rparr>"

definition is_shell_separator :: "rchar \<Rightarrow> bool" where
  [text_simps]: "is_shell_separator ch \<longleftrightarrow> ch \<in> {c_semi, c_amp, c_pipe, c_newline}"

definition push_segment :: "astate \<Rightarrow> astate" where
  "push_segment st =
     (let segment = trim (a_current st) in
      if segment \<noteq> [] then
        (let normalized = normalize_shell_words segment in
         st\<lparr>segments := segments st @ [segment],
            normalized_segments :=
              push_normalized_shell_words (normalized_segments st) segment normalized,
            a_command_word_constructed :=
              (a_command_word_constructed st \<or> n_command_word_constructed normalized),
            a_current := []\<rparr>)
      else st\<lparr>a_current := []\<rparr>)"

text \<open>The segments a substitution contributes, given the analysis of its text.\<close>

definition push_substitution_segments :: "astate \<Rightarrow> rstr \<Rightarrow> astate \<Rightarrow> astate" where
  "push_substitution_segments st substitution analysis =
     (if segments analysis = [] then
        (let trimmed = trim substitution in
         if trimmed \<noteq> [] then
           st\<lparr>segments := segments st @ [trimmed],
              normalized_segments := push_normalized_candidates (normalized_segments st) trimmed\<rparr>
         else st)
      else st\<lparr>segments := segments st @ segments analysis,
              normalized_segments := normalized_segments st @ normalized_segments analysis\<rparr>)"

definition or_else :: "'a option \<Rightarrow> 'a option \<Rightarrow> 'a option" where
  "or_else a b = (case a of Some x \<Rightarrow> Some x | None \<Rightarrow> b)"

text \<open>
  The three substitution branches, tried in the order of the loop, share one body; this is
  the parse that the first applicable branch yields for the char \<open>ch\<close> and the chars after it.
\<close>

definition substitution_at :: "astate \<Rightarrow> rchar \<Rightarrow> rstr \<Rightarrow> (rstr \<times> rstr) option" where
  "substitution_at st ch chars =
     or_else
       (if \<not> a_single st \<and> ch = c_dollar \<and> get_word chars 0 = Some c_lparen \<and>
           get_word chars 1 \<noteq> Some c_lparen
        then parse_dollar_command_substitution (tl chars) else None)
       (or_else
         (if \<not> a_single st \<and> \<not> a_double st \<and> ch \<in> {c_lt, c_gt} \<and> get_word chars 0 = Some c_lparen
          then parse_process_substitution (tl chars) else None)
         (if \<not> a_single st \<and> ch = c_backtick
          then parse_backtick_command_substitution chars else None))"

lemma substitution_at_Some:
  assumes "substitution_at st ch chars = Some (substitution, rest)"
  shows "\<exists>pre c. chars = pre @ substitution @ c # rest \<and> length pre \<le> 1"
proof -
  have tl: "\<exists>c. chars = c # tl chars" if "get_word chars 0 = Some c_lparen"
    using that by (cases chars) (auto simp: get_word_def)
  consider "get_word chars 0 = Some c_lparen"
      "parse_dollar_command_substitution (tl chars) = Some (substitution, rest)"
    | "get_word chars 0 = Some c_lparen"
      "parse_process_substitution (tl chars) = Some (substitution, rest)"
    | "parse_backtick_command_substitution chars = Some (substitution, rest)"
    using assms by (auto simp: substitution_at_def or_else_def split: option.splits if_splits)
  then show ?thesis
  proof cases
    case 1
    with tl parse_dollar_loop_Some obtain c where "chars = [c] @ substitution @ c_rparen # rest"
      by (fastforce simp: parse_dollar_command_substitution_def)
    then show ?thesis by fastforce
  next
    case 2
    with tl parse_paren_loop_Some obtain c where "chars = [c] @ substitution @ c_rparen # rest"
      by (fastforce simp: parse_process_substitution_def parse_parenthesized_shell_content_def)
    then show ?thesis by fastforce
  next
    case 3
    with parse_backtick_loop_Some have "chars = [] @ substitution @ c_backtick # rest"
      by (fastforce simp: parse_backtick_command_substitution_def)
    then show ?thesis by fastforce
  qed
qed

lemma substitution_at_length:
  "substitution_at st ch chars = Some (substitution, rest) \<Longrightarrow>
   length substitution < length (ch # chars) \<and> length rest < length (ch # chars)"
  by (drule substitution_at_Some) auto

definition a_push :: "rstr \<Rightarrow> astate \<Rightarrow> astate" where
  "a_push s st = st\<lparr>a_current := a_current st @ s\<rparr>"

function analyze_loop :: "astate \<Rightarrow> rstr \<Rightarrow> astate" where
  "analyze_loop st [] = st"
| "analyze_loop st (ch # chars) =
     (if a_escaped st then analyze_loop ((a_push [ch] st)\<lparr>a_escaped := False\<rparr>) chars
      else if ch = c_backslash \<and> \<not> a_single st then
        analyze_loop ((a_push [ch] st)\<lparr>a_escaped := True\<rparr>) chars
      else if ch = c_squote \<and> \<not> a_double st then
        analyze_loop ((a_push [ch] st)\<lparr>a_single := \<not> a_single st\<rparr>) chars
      else if ch = c_dquote \<and> \<not> a_single st then
        analyze_loop ((a_push [ch] st)\<lparr>a_double := \<not> a_double st\<rparr>) chars
      else case substitution_at st ch chars of
          Some (substitution, rest) \<Rightarrow>
            (let analysis = push_segment (analyze_loop init_astate substitution);
                 st' = push_substitution_segments (st\<lparr>composed := True\<rparr>) substitution analysis
             in analyze_loop
                  (a_push (take (length (ch # chars) - length rest) (ch # chars)) st') rest)
        | None \<Rightarrow>
            if \<not> a_single st \<and> \<not> a_double st \<and> is_shell_separator ch then
              (let st' = push_segment (st\<lparr>composed := True\<rparr>)
               in if ch \<in> {c_amp, c_pipe} \<and> get_word chars 0 = Some ch
                  then analyze_loop st' (tl chars) else analyze_loop st' chars)
            else analyze_loop (a_push [ch] st) chars)"
  by pat_completeness auto
termination
  by (relation "measure (\<lambda>(st, chars). length chars)")
    (auto dest!: substitution_at_length simp: get_word_def split: if_splits)

definition analyze_shell_command :: "rstr \<Rightarrow> astate" where
  "analyze_shell_command command = push_segment (analyze_loop init_astate command)"

section \<open>Splitting at the control operators\<close>

text \<open>
  Shell text whose quoting is closed: plain chars that satisfy \<open>ok\<close>, a \<open>$\<close>, \<open><\<close> or \<open>>\<close> that
  does not open a substitution, escapes, and quoted chunks.
\<close>

inductive shell_text :: "(rchar \<Rightarrow> bool) \<Rightarrow> rstr \<Rightarrow> bool" for ok :: "rchar \<Rightarrow> bool" where
  text_Nil: "shell_text ok []"
| text_plain: "shell_text ok s \<Longrightarrow> ok c \<Longrightarrow>
    c \<notin> {c_backslash, c_squote, c_dquote, c_dollar, c_lt, c_gt, c_backtick} \<Longrightarrow> shell_text ok (c # s)"
| text_operator: "shell_text ok s \<Longrightarrow> ok d \<Longrightarrow> c \<in> {c_dollar, c_lt, c_gt} \<Longrightarrow>
    d \<notin> {c_backslash, c_squote, c_dquote, c_dollar, c_lt, c_gt, c_backtick, c_lparen} \<Longrightarrow>
    shell_text ok (c # d # s)"
| text_escape: "shell_text ok s \<Longrightarrow> shell_text ok (c_backslash # c # s)"
| text_single: "shell_text ok s \<Longrightarrow> c_squote \<notin> set q \<Longrightarrow>
    shell_text ok (c_squote # q @ c_squote # s)"
| text_double: "shell_text ok s \<Longrightarrow> set q \<inter> {c_dquote, c_backslash, c_dollar, c_backtick} = {} \<Longrightarrow>
    shell_text ok (c_dquote # q @ c_dquote # s)"

text \<open>A simple command: no unquoted control operator.\<close>

abbreviation simple_text :: "rstr \<Rightarrow> bool" where
  "simple_text \<equiv> shell_text (\<lambda>c. \<not> is_shell_separator c)"

definition a_unquoted :: "astate \<Rightarrow> bool" where
  "a_unquoted st \<longleftrightarrow> \<not> a_single st \<and> \<not> a_double st \<and> \<not> a_escaped st"

lemma a_push_simps [simp]:
  "a_push [] st = st" "a_push t (a_push s st) = a_push (s @ t) st"
  "a_unquoted (a_push s st) = a_unquoted st" "segments (a_push s st) = segments st"
  "normalized_segments (a_push s st) = normalized_segments st" "composed (a_push s st) = composed st"
  "a_current (a_push s st) = a_current st @ s"
  "a_command_word_constructed (a_push s st) = a_command_word_constructed st"
  "a_single (a_push s st) = a_single st" "a_double (a_push s st) = a_double st"
  "a_escaped (a_push s st) = a_escaped st"
  by (simp_all add: a_push_def a_unquoted_def)

lemma a_unquoted_composed [simp]: "a_unquoted (st\<lparr>composed := b\<rparr>) = a_unquoted st"
  by (simp add: a_unquoted_def)

lemma substitution_at_None:
  "ch \<notin> {c_dollar, c_lt, c_gt, c_backtick} \<Longrightarrow> substitution_at st ch chars = None"
  "ch \<in> {c_dollar, c_lt, c_gt} \<Longrightarrow> get_word chars 0 \<noteq> Some c_lparen \<Longrightarrow>
   substitution_at st ch chars = None"
  "a_single st \<Longrightarrow> substitution_at st ch chars = None"
  by (auto simp: substitution_at_def or_else_def)

declare analyze_loop.simps(2) [simp del]

text \<open>The steps of the loop, one for each branch.\<close>

lemma analyze_escaped:
  "a_escaped st \<Longrightarrow>
   analyze_loop st (c # rest) = analyze_loop ((a_push [c] st)\<lparr>a_escaped := False\<rparr>) rest"
  by (simp add: analyze_loop.simps(2))

lemma analyze_backslash:
  "\<not> a_escaped st \<Longrightarrow> \<not> a_single st \<Longrightarrow>
   analyze_loop st (c_backslash # rest) =
   analyze_loop ((a_push [c_backslash] st)\<lparr>a_escaped := True\<rparr>) rest"
  by (simp add: analyze_loop.simps(2))

lemma analyze_squote:
  "\<not> a_escaped st \<Longrightarrow> \<not> a_double st \<Longrightarrow>
   analyze_loop st (c_squote # rest) =
   analyze_loop ((a_push [c_squote] st)\<lparr>a_single := \<not> a_single st\<rparr>) rest"
  by (simp add: analyze_loop.simps(2))

lemma analyze_dquote:
  "\<not> a_escaped st \<Longrightarrow> \<not> a_single st \<Longrightarrow>
   analyze_loop st (c_dquote # rest) =
   analyze_loop ((a_push [c_dquote] st)\<lparr>a_double := \<not> a_double st\<rparr>) rest"
  by (simp add: analyze_loop.simps(2))

lemma analyze_other:
  "\<not> a_escaped st \<Longrightarrow> substitution_at st c rest = None \<Longrightarrow>
   a_single st \<or> a_double st \<or> \<not> is_shell_separator c \<Longrightarrow>
   c = c_backslash \<longrightarrow> a_single st \<Longrightarrow> c = c_squote \<longrightarrow> a_double st \<Longrightarrow> c = c_dquote \<longrightarrow> a_single st \<Longrightarrow>
   analyze_loop st (c # rest) = analyze_loop (a_push [c] st) rest"
  by (subst analyze_loop.simps(2)) auto

lemma analyze_loop_single:
  "a_single st \<Longrightarrow> \<not> a_double st \<Longrightarrow> \<not> a_escaped st \<Longrightarrow> c_squote \<notin> set q \<Longrightarrow>
   analyze_loop st (q @ rest) = analyze_loop (a_push q st) rest"
  by (induction q arbitrary: st) (auto simp: substitution_at_None analyze_other)

lemma analyze_loop_double:
  "a_double st \<Longrightarrow> \<not> a_single st \<Longrightarrow> \<not> a_escaped st \<Longrightarrow>
   set q \<inter> {c_dquote, c_backslash, c_dollar, c_backtick} = {} \<Longrightarrow>
   analyze_loop st (q @ rest) = analyze_loop (a_push q st) rest"
proof (induction q arbitrary: st)
  case (Cons c q)
  have "substitution_at st c (q @ rest) = None"
    using Cons.prems by (auto simp: substitution_at_def or_else_def)
  then have "analyze_loop st ((c # q) @ rest) = analyze_loop (a_push [c] st) (q @ rest)"
    using Cons.prems by (simp add: analyze_other)
  with Cons show ?case by simp
qed simp

lemma analyze_loop_plain:
  "a_unquoted st \<Longrightarrow> \<not> is_shell_separator c \<Longrightarrow>
   c \<notin> {c_backslash, c_squote, c_dquote} \<Longrightarrow> substitution_at st c rest = None \<Longrightarrow>
   analyze_loop st (c # rest) = analyze_loop (a_push [c] st) rest"
  by (rule analyze_other) (auto simp: a_unquoted_def)

lemma a_push_quotes:
  "\<not> a_single st \<Longrightarrow>
   (a_push t ((a_push s st)\<lparr>a_single := True\<rparr>))\<lparr>a_single := False\<rparr> = a_push (s @ t) st"
  "\<not> a_double st \<Longrightarrow>
   (a_push t ((a_push s st)\<lparr>a_double := True\<rparr>))\<lparr>a_double := False\<rparr> = a_push (s @ t) st"
  "\<not> a_escaped st \<Longrightarrow>
   (a_push t ((a_push s st)\<lparr>a_escaped := True\<rparr>))\<lparr>a_escaped := False\<rparr> = a_push (s @ t) st"
  by (cases st, simp add: a_push_def)+

lemma analyze_loop_simple:
  "simple_text s \<Longrightarrow> a_unquoted st \<Longrightarrow> analyze_loop st (s @ rest) = analyze_loop (a_push s st) rest"
proof (induction s arbitrary: st rule: shell_text.induct)
  case (text_plain s c)
  then have "analyze_loop st ((c # s) @ rest) = analyze_loop (a_push [c] st) (s @ rest)"
    using analyze_loop_plain [of st c "s @ rest"] by (simp add: substitution_at_None)
  with text_plain show ?case by simp
next
  case (text_operator s d c)
  have "substitution_at st c (d # s @ rest) = None"
    using text_operator by (intro substitution_at_None(2)) (auto simp: get_word_def)
  moreover have "\<not> is_shell_separator c" using text_operator.hyps by (auto simp: is_shell_separator_def)
  ultimately have "analyze_loop st (c # d # s @ rest) = analyze_loop (a_push [c] st) (d # s @ rest)"
    using text_operator.hyps text_operator.prems by (intro analyze_loop_plain) auto
  also have "\<dots> = analyze_loop (a_push [c, d] st) (s @ rest)"
    using text_operator.hyps text_operator.prems analyze_loop_plain [of "a_push [c] st" d "s @ rest"]
    by (simp add: substitution_at_None)
  finally show ?case using text_operator by simp
next
  case (text_escape s c)
  then have st: "\<not> a_escaped st" "\<not> a_single st" by (simp_all add: a_unquoted_def)
  have "analyze_loop st (c_backslash # c # s @ rest) = analyze_loop (a_push [c_backslash, c] st) (s @ rest)"
    using st by (simp add: analyze_backslash analyze_escaped a_push_quotes)
  then show ?case using text_escape by simp
next
  case (text_single s q)
  then have st: "\<not> a_escaped st" "\<not> a_single st" "\<not> a_double st" by (simp_all add: a_unquoted_def)
  let ?in = "(a_push [c_squote] st)\<lparr>a_single := True\<rparr>"
  have "analyze_loop st (c_squote # q @ c_squote # s @ rest) =
      analyze_loop (a_push q ?in) (c_squote # s @ rest)"
    using st text_single.hyps by (simp add: analyze_squote analyze_loop_single)
  also have "\<dots> = analyze_loop (a_push (c_squote # q @ [c_squote]) st) (s @ rest)"
    using st by (simp add: analyze_squote a_push_quotes)
  finally show ?case using text_single by simp
next
  case (text_double s q)
  then have st: "\<not> a_escaped st" "\<not> a_single st" "\<not> a_double st" by (simp_all add: a_unquoted_def)
  let ?in = "(a_push [c_dquote] st)\<lparr>a_double := True\<rparr>"
  have "analyze_loop st (c_dquote # q @ c_dquote # s @ rest) =
      analyze_loop (a_push q ?in) (c_dquote # s @ rest)"
    using st text_double.hyps by (simp add: analyze_dquote analyze_loop_double)
  also have "\<dots> = analyze_loop (a_push (c_dquote # q @ [c_dquote]) st) (s @ rest)"
    using st by (simp add: analyze_dquote a_push_quotes)
  finally show ?case using text_double by simp
qed simp

text \<open>A command list: simple commands with control operators between them.\<close>

definition control_operator :: "rstr \<Rightarrow> bool" where
  "control_operator s \<longleftrightarrow>
     s \<in> {lit '';'', lit ''&'', lit ''|'', lit ''&&'', lit ''||'', [c_newline]}"

fun command_list :: "rstr \<Rightarrow> (rstr \<times> rstr) list \<Rightarrow> rstr" where
  "command_list first [] = first"
| "command_list first ((operator, next_command) # rest) =
     first @ operator @ command_list next_command rest"

definition wf_command_list :: "rstr \<Rightarrow> (rstr \<times> rstr) list \<Rightarrow> bool" where
  "wf_command_list first rest \<longleftrightarrow> simple_text first \<and>
     (\<forall>(operator, command) \<in> set rest. control_operator operator \<and> simple_text command \<and> command \<noteq> [])"

lemma simple_text_hd: "simple_text s \<Longrightarrow> s \<noteq> [] \<Longrightarrow> \<not> is_shell_separator (hd s)"
  by (induction rule: shell_text.cases) (auto simp: is_shell_separator_def)

lemma command_list_hd:
  "wf_command_list first rest \<Longrightarrow> first \<noteq> [] \<Longrightarrow>
   \<exists>c cs. command_list first rest = c # cs \<and> \<not> is_shell_separator c"
  by (cases first; cases rest)
    (auto simp: wf_command_list_def dest: simple_text_hd)

lemma analyze_separator:
  assumes "a_unquoted st" and "is_shell_separator c"
    and "\<not> (c \<in> {c_amp, c_pipe} \<and> get_word rest 0 = Some c)"
  shows "analyze_loop st (c # rest) = analyze_loop (push_segment (st\<lparr>composed := True\<rparr>)) rest"
  using assms
  by (subst analyze_loop.simps(2)) (auto simp: a_unquoted_def is_shell_separator_def substitution_at_None)

lemma analyze_double_separator:
  assumes "a_unquoted st" and "c \<in> {c_amp, c_pipe}"
  shows "analyze_loop st (c # c # rest) = analyze_loop (push_segment (st\<lparr>composed := True\<rparr>)) rest"
  using assms
  by (subst analyze_loop.simps(2))
    (auto simp: a_unquoted_def is_shell_separator_def substitution_at_None get_word_def)

lemma analyze_control_operator:
  assumes "control_operator operator" and "a_unquoted st"
    and "rest = c # cs" and "\<not> is_shell_separator c"
  shows "analyze_loop st (operator @ rest) = analyze_loop (push_segment (st\<lparr>composed := True\<rparr>)) rest"
proof -
  have no: "\<not> (d \<in> {c_amp, c_pipe} \<and> get_word rest 0 = Some d)" for d
    using assms(3,4) by (auto simp: get_word_def is_shell_separator_def)
  consider d where "operator = [d]" "is_shell_separator d"
    | d where "operator = [d, d]" "d \<in> {c_amp, c_pipe}"
    using assms(1) by (auto simp: control_operator_def lit_def is_shell_separator_def)
  then show ?thesis
  proof cases
    case (1 d)
    with analyze_separator [OF assms(2) 1(2) no] show ?thesis by simp
  next
    case (2 d)
    with analyze_double_separator [OF assms(2) 2(2)] show ?thesis by simp
  qed
qed

lemma push_segment_simps:
  "a_current (push_segment st) = []" "composed (push_segment st) = composed st"
  "a_unquoted (push_segment st) = a_unquoted st"
  "segments (push_segment st) =
     segments st @ (if trim (a_current st) = [] then [] else [trim (a_current st)])"
  by (auto simp: push_segment_def Let_def a_unquoted_def)

lemma analyze_command_list:
  "wf_command_list first rest \<Longrightarrow> a_unquoted st \<Longrightarrow> a_current st = [] \<Longrightarrow>
   segments (push_segment (analyze_loop st (command_list first rest))) =
     segments st @ filter (\<lambda>s. s \<noteq> []) (map trim (first # map snd rest)) \<and>
   composed (analyze_loop st (command_list first rest)) = (composed st \<or> rest \<noteq> [])"
proof (induction first rest arbitrary: st rule: command_list.induct)
  case (1 first)
  then have "analyze_loop st first = a_push first st"
    using analyze_loop_simple [of first st "[]"] by (simp add: wf_command_list_def)
  with 1 show ?case by (simp add: push_segment_simps)
next
  case (2 first operator command rest)
  have wf: "simple_text first" "control_operator operator" "command \<noteq> []"
    "wf_command_list command rest"
    using "2.prems"(1) by (auto simp: wf_command_list_def)
  obtain c cs where hd: "command_list command rest = c # cs" "\<not> is_shell_separator c"
    using command_list_hd [OF wf(4,3)] by blast
  let ?st = "push_segment ((a_push first st)\<lparr>composed := True\<rparr>)"
  have "analyze_loop st (command_list first ((operator, command) # rest)) =
      analyze_loop (a_push first st) (operator @ command_list command rest)"
    using wf(1) "2.prems"(2) by (simp add: analyze_loop_simple)
  also have "\<dots> = analyze_loop ?st (command_list command rest)"
    using analyze_control_operator [OF wf(2) _ hd] "2.prems"(2) by simp
  finally have step: "analyze_loop st (command_list first ((operator, command) # rest)) =
      analyze_loop ?st (command_list command rest)" .
  have "a_unquoted ?st" "a_current ?st = []" "composed ?st"
    and segs: "segments ?st = segments st @ filter (\<lambda>s. s \<noteq> []) [trim first]"
    using "2.prems"(2,3) by (auto simp: push_segment_simps)
  with "2.IH" [OF wf(4), of ?st] show ?case unfolding step by auto
qed

section \<open>Descending into substitutions\<close>

text \<open>The scanner only ever adds segments, and its two flags only ever rise.\<close>

definition grows :: "astate \<Rightarrow> astate \<Rightarrow> bool" where
  "grows st st' \<longleftrightarrow> set (segments st) \<subseteq> set (segments st') \<and>
     set (normalized_segments st) \<subseteq> set (normalized_segments st') \<and>
     (composed st \<longrightarrow> composed st') \<and>
     (a_command_word_constructed st \<longrightarrow> a_command_word_constructed st')"

lemma grows_refl: "grows st st"
  by (simp add: grows_def)

lemma grows_trans [trans]: "grows a b \<Longrightarrow> grows b c \<Longrightarrow> grows a c"
  by (auto simp: grows_def)

lemma grows_update:
  "grows st (a_push s st)" "grows st ((a_push s st)\<lparr>a_escaped := b\<rparr>)"
  "grows st ((a_push s st)\<lparr>a_single := b\<rparr>)" "grows st ((a_push s st)\<lparr>a_double := b\<rparr>)"
  "grows st (st\<lparr>composed := True\<rparr>)"
  by (simp_all add: grows_def)

lemma set_push_normalized: "set cs \<subseteq> set (push_normalized_shell_words cs s n)"
  by (auto simp: push_normalized_shell_words_def Let_def split: option.splits)

lemma grows_push_segment: "grows st (push_segment st)"
  using set_push_normalized by (auto simp: grows_def push_segment_def Let_def)

lemma grows_push_substitution: "grows st (push_substitution_segments st s analysis)"
  using set_push_normalized
  by (fastforce simp: grows_def push_substitution_segments_def push_normalized_candidates_def Let_def)

lemma grows_branches:
  "(b \<Longrightarrow> grows st x) \<Longrightarrow> (\<not> b \<Longrightarrow> grows st y) \<Longrightarrow> grows st (if b then x else y)"
  "(\<And>u v. s = Some (u, v) \<Longrightarrow> grows st (f u v)) \<Longrightarrow> (s = None \<Longrightarrow> grows st y) \<Longrightarrow>
   grows st (case s of Some (u, v) \<Rightarrow> f u v | None \<Rightarrow> y)"
  by (simp_all split: option.split prod.split)

lemma analyze_loop_grows: "grows st (analyze_loop st chars)"
proof (induction chars arbitrary: st rule: length_induct)
  case (1 chars)
  have IH: "length rest < length chars \<Longrightarrow> grows st (analyze_loop st rest)" for st rest
    using "1.IH" by blast
  note push = grows_update(1) [THEN grows_trans, OF IH] grows_update(2) [THEN grows_trans, OF IH]
      grows_update(3) [THEN grows_trans, OF IH] grows_update(4) [THEN grows_trans, OF IH]
    and split = grows_trans [OF grows_trans [OF grows_update(5) grows_push_segment] IH]
    and sub = grows_trans [OF grows_trans [OF grows_trans
        [OF grows_update(5) grows_push_substitution] grows_update(1)] IH]
  show ?case
  proof (cases chars)
    case Nil
    then show ?thesis by (simp add: grows_refl)
  next
    case (Cons ch rest)
    show ?thesis
      unfolding Cons analyze_loop.simps(2) Let_def
      by (intro grows_branches push split sub) (auto simp: Cons dest: substitution_at_length)
  qed
qed

lemma analyze_substitution:
  assumes "a_unquoted st" and "substitution_at st c rest = Some (inner, rest')"
    and "c \<notin> {c_backslash, c_squote, c_dquote}"
  shows "grows (push_substitution_segments (st\<lparr>composed := True\<rparr>) inner (analyze_shell_command inner))
    (analyze_loop st (c # rest))"
  using assms
  by (subst analyze_loop.simps(2))
    (auto simp: a_unquoted_def Let_def analyze_shell_command_def
      intro!: grows_trans [OF grows_update(1) analyze_loop_grows])

lemma push_substitution_segments_contains:
  "segments analysis \<noteq> [] \<Longrightarrow>
   set (segments analysis) \<subseteq> set (segments (push_substitution_segments st inner analysis))"
  "segments analysis \<noteq> [] \<Longrightarrow>
   set (normalized_segments analysis) \<subseteq>
   set (normalized_segments (push_substitution_segments st inner analysis))"
  by (auto simp: push_substitution_segments_def)

text \<open>The body of a substitution: any text without unquoted parentheses.\<close>

abbreviation body_text :: "rstr \<Rightarrow> bool" where
  "body_text \<equiv> shell_text (\<lambda>c. c \<notin> {c_lparen, c_rparen})"

lemma parse_dollar_in_single:
  "p_single q \<Longrightarrow> \<not> p_double q \<Longrightarrow> \<not> p_escaped q \<Longrightarrow> c_squote \<notin> set s \<Longrightarrow>
   parse_dollar_loop depth q content (s @ rest) = parse_dollar_loop depth q (content @ s) rest"
  by (induction s arbitrary: content) auto

lemma parse_dollar_in_double:
  "p_double q \<Longrightarrow> \<not> p_single q \<Longrightarrow> \<not> p_escaped q \<Longrightarrow>
   set s \<inter> {c_dquote, c_backslash, c_dollar, c_backtick} = {} \<Longrightarrow>
   parse_dollar_loop depth q content (s @ rest) = parse_dollar_loop depth q (content @ s) rest"
  by (induction s arbitrary: content) auto

lemma parse_dollar_body:
  "body_text s \<Longrightarrow>
   parse_dollar_loop depth init_pstate content (s @ rest) =
   parse_dollar_loop depth init_pstate (content @ s) rest"
proof (induction s arbitrary: content rule: shell_text.induct)
  case (text_single s q)
  then show ?case
    using parse_dollar_in_single [of "\<lparr>p_single = True, p_double = False, p_escaped = False\<rparr>" q]
    by (simp add: init_pstate_def)
next
  case (text_double s q)
  then show ?case
    using parse_dollar_in_double [of "\<lparr>p_single = False, p_double = True, p_escaped = False\<rparr>" q]
    by (simp add: init_pstate_def)
qed (auto simp: init_pstate_def)

lemma body_text_no_paren: "body_text s \<Longrightarrow> get_word (s @ c_rparen # rest) 0 \<noteq> Some c_lparen"
  by (induction rule: shell_text.cases) (auto simp: get_word_def)

lemma substitution_at_dollar:
  assumes "body_text body" and "\<not> a_single st"
  shows "substitution_at st c_dollar (c_lparen # body @ c_rparen # rest) = Some (body, rest)"
proof -
  have "parse_dollar_command_substitution (body @ c_rparen # rest) = Some (body, rest)"
    using parse_dollar_body [OF assms(1), of 1 "[]" "c_rparen # rest"]
    by (simp add: parse_dollar_command_substitution_def init_pstate_def)
  moreover have "get_word (c_lparen # body @ c_rparen # rest) 1 \<noteq> Some c_lparen"
    using body_text_no_paren [OF assms(1), of rest] by (simp add: get_word_def)
  ultimately show ?thesis
    using assms(2) by (simp add: substitution_at_def or_else_def get_word_def [of _ 0])
qed

lemma analyze_dollar_substitution:
  assumes "simple_text before" and "body_text body"
    and whole_def: "whole = analyze_shell_command (before @ lit ''$('' @ body @ lit '')'' @ after)"
  shows "composed whole" and
    "set (segments (analyze_shell_command body)) \<subseteq> set (segments whole)" and
    "segments (analyze_shell_command body) \<noteq> [] \<Longrightarrow>
       set (normalized_segments (analyze_shell_command body)) \<subseteq> set (normalized_segments whole)"
proof -
  let ?st = "a_push before init_astate"
  let ?mid = "push_substitution_segments (?st\<lparr>composed := True\<rparr>) body (analyze_shell_command body)"
  have st: "a_unquoted ?st" "\<not> a_single ?st" "a_unquoted init_astate"
    by (simp_all add: a_unquoted_def init_astate_def)
  have "analyze_loop init_astate (before @ lit ''$('' @ body @ lit '')'' @ after) =
      analyze_loop ?st (c_dollar # c_lparen # body @ c_rparen # after)"
    using analyze_loop_simple [OF assms(1) st(3)] by (simp add: lit_def)
  then have "grows ?mid (analyze_loop init_astate (before @ lit ''$('' @ body @ lit '')'' @ after))"
    using analyze_substitution [OF st(1) substitution_at_dollar [OF assms(2) st(2), of after]] by simp
  then have grows: "grows ?mid whole"
    unfolding whole_def analyze_shell_command_def using grows_push_segment grows_trans by blast
  have "composed ?mid" by (simp add: push_substitution_segments_def Let_def)
  with grows show "composed whole" by (simp add: grows_def)
  have sub: "set (segments ?mid) \<subseteq> set (segments whole)"
    "set (normalized_segments ?mid) \<subseteq> set (normalized_segments whole)"
    using grows by (simp_all add: grows_def)
  show "set (segments (analyze_shell_command body)) \<subseteq> set (segments whole)"
  proof (cases "segments (analyze_shell_command body) = []")
    case False
    from push_substitution_segments_contains(1) [OF this] sub(1) show ?thesis
      by (rule order_trans)
  qed simp
  show "set (normalized_segments (analyze_shell_command body)) \<subseteq> set (normalized_segments whole)"
    if "segments (analyze_shell_command body) \<noteq> []"
    using push_substitution_segments_contains(2) [OF that] sub(2) by (rule order_trans)
qed

end
