(* ===== verification/Durations.thy ===== *)
theory Durations
  imports Stack_Error
begin

text \<open>
  Duration-valued fields: the parser and the validators of
  \<^verbatim>\<open>src/config/validate/primitives.rs\<close>, and the span parsers and the backoff of
  \<^verbatim>\<open>src/time_util.rs\<close>.

  A \<^verbatim>\<open>std::time::Duration\<close> of a config field is a whole number of milliseconds, and \<open>duration\<close>
  counts them.  The clock is a parameter: \<open>now\<close> is the time since the Unix epoch.
\<close>

type_synonym duration = nat

definition from_millis :: "nat \<Rightarrow> duration" where
  [text_simps]: "from_millis n = n"

definition from_secs :: "nat \<Rightarrow> duration" where
  [text_simps]: "from_secs n = n * 1000"

definition as_secs :: "duration \<Rightarrow> nat" where
  [text_simps]: "as_secs d = d div 1000"

definition checked_mul_u64 :: "nat \<Rightarrow> nat \<Rightarrow> nat option" where
  [text_simps]: "checked_mul_u64 a b = (if a * b < 2 ^ 64 then Some (a * b) else None)"

section \<open>Parsing a duration\<close>

definition parse_duration_string :: "rstr \<Rightarrow> duration option" where
  "parse_duration_string input =
     (let trimmed = trim input in
      if trimmed = [] then None
      else Option.bind (split_find (\<lambda>c. \<not> is_ascii_digit c) trimmed) (\<lambda>(number_part, unit_part).
        if number_part = [] then None
        else Option.bind (parse_unsigned 64 number_part) (\<lambda>value.
          if unit_part = lit ''ms'' then Some (from_millis value)
          else if unit_part = lit ''s'' then Some (from_secs value)
          else if unit_part = lit ''m'' then map_option from_secs (checked_mul_u64 value 60)
          else if unit_part = lit ''h'' then map_option from_secs (checked_mul_u64 value 3600)
          else if unit_part = lit ''d'' then map_option from_secs (checked_mul_u64 value 86400)
          else if unit_part = lit ''w'' then map_option from_secs (checked_mul_u64 value 604800)
          else None)))"

datatype duration_unit = Millisecond | Second | Minute | Hour | Day | Week | Month

text \<open>The derived order: the variants in the order of their declaration, \<^verbatim>\<open>unit as u8\<close>.\<close>

fun unit_rank :: "duration_unit \<Rightarrow> nat" where
  "unit_rank Millisecond = 0"
| "unit_rank Second = 1"
| "unit_rank Minute = 2"
| "unit_rank Hour = 3"
| "unit_rank Day = 4"
| "unit_rank Week = 5"
| "unit_rank Month = 6"

instantiation duration_unit :: linorder
begin

definition less_eq_duration_unit :: "duration_unit \<Rightarrow> duration_unit \<Rightarrow> bool" where
  "a \<le> b \<longleftrightarrow> unit_rank a \<le> unit_rank b"

definition less_duration_unit :: "duration_unit \<Rightarrow> duration_unit \<Rightarrow> bool" where
  "a < b \<longleftrightarrow> unit_rank a < unit_rank b"

instance
proof
  fix a b :: duration_unit
  show "a \<le> b \<Longrightarrow> b \<le> a \<Longrightarrow> a = b"
    by (cases a; cases b) (simp_all add: less_eq_duration_unit_def)
qed (auto simp: less_eq_duration_unit_def less_duration_unit_def)

end

definition unit_from_suffix :: "rstr \<Rightarrow> duration_unit option" where
  "unit_from_suffix s =
     (if s = lit ''ms'' then Some Millisecond
      else if s = lit ''s'' then Some Second
      else if s = lit ''m'' then Some Minute
      else if s = lit ''h'' then Some Hour
      else if s = lit ''d'' then Some Day
      else if s = lit ''w'' then Some Week
      else if s = lit ''mo'' then Some Month
      else None)"

fun unit_suffix :: "duration_unit \<Rightarrow> rstr" where
  "unit_suffix Millisecond = lit ''ms''"
| "unit_suffix Second = lit ''s''"
| "unit_suffix Minute = lit ''m''"
| "unit_suffix Hour = lit ''h''"
| "unit_suffix Day = lit ''d''"
| "unit_suffix Week = lit ''w''"
| "unit_suffix Month = lit ''mo''"

fun unit_name :: "duration_unit \<Rightarrow> rstr" where
  "unit_name Millisecond = lit ''millisecond''"
| "unit_name Second = lit ''second''"
| "unit_name Minute = lit ''minute''"
| "unit_name Hour = lit ''hour''"
| "unit_name Day = lit ''day''"
| "unit_name Week = lit ''week''"
| "unit_name Month = lit ''month''"

definition indefinite_name :: "duration_unit \<Rightarrow> rstr" where
  "indefinite_name u = (if u = Hour then lit ''an'' else lit ''a'') @ lit '' '' @ unit_name u"

fun unit_length :: "duration_unit \<Rightarrow> duration" where
  "unit_length Millisecond = from_millis 1"
| "unit_length Second = from_secs 1"
| "unit_length Minute = from_secs 60"
| "unit_length Hour = from_secs 3600"
| "unit_length Day = from_secs 86400"
| "unit_length Week = from_secs (7 * 86400)"
| "unit_length Month = from_secs (30 * 86400)"

definition checked_duration :: "duration_unit \<Rightarrow> nat \<Rightarrow> duration option" where
  "checked_duration u count =
     (if u = Millisecond then Some (from_millis count)
      else map_option from_secs (checked_mul_u64 (as_secs (unit_length u)) count))"

section \<open>Limits of a field\<close>

record duration_limits =
  accepted_units :: "duration_unit list"
  minimum :: duration

fun finest_first :: "duration_unit list \<Rightarrow> bool" where
  "finest_first (a # b # units) \<longleftrightarrow> a \<le> b \<and> finest_first (b # units)"
| "finest_first units \<longleftrightarrow> True"

text \<open>The three asserts of the constructor; a failing one is a compile-time panic.\<close>

definition new_limits :: "duration_unit list \<Rightarrow> duration \<Rightarrow> duration_limits outcome" where
  "new_limits units floor =
     (if units = [] then Panic
      else if \<not> finest_first units then Panic
      else if list_ex (\<lambda>u. u = Minute) units \<and> list_ex (\<lambda>u. u = Month) units then Panic
      else Return \<lparr>accepted_units = units, minimum = floor\<rparr>)"

definition smallest_unit :: "duration_limits \<Rightarrow> duration_unit" where
  "smallest_unit limits = accepted_units limits ! 0"

definition limit_examples :: "duration_limits \<Rightarrow> rstr" where
  "limit_examples limits =
     lit ''1'' @ unit_suffix (smallest_unit limits) @ lit '', 3'' @
     unit_suffix (accepted_units limits ! (length (accepted_units limits) - 1))"

fun render_prose_from :: "duration_unit list \<Rightarrow> duration \<Rightarrow> rstr" where
  "render_prose_from [] d = show_nat d @ lit '' milliseconds''"
| "render_prose_from (u # units) d =
     (let unit_secs = as_secs (unit_length u) in
      if unit_secs \<le> as_secs d \<and> as_secs d mod unit_secs = 0 then
        (let count = as_secs d div unit_secs;
             plural = (if count = 1 then [] else lit ''s'')
         in show_nat count @ lit '' '' @ unit_name u @ plural)
      else render_prose_from units d)"

definition render_duration_prose :: "duration \<Rightarrow> rstr" where
  "render_duration_prose d = render_prose_from [Month, Week, Day, Hour, Minute, Second] d"

definition render_minimum :: "duration_limits \<Rightarrow> rstr" where
  "render_minimum limits = render_duration_prose (minimum limits)"

definition render_accepted_units :: "duration_limits \<Rightarrow> rstr" where
  "render_accepted_units limits =
     (let parts = map (\<lambda>u. unit_name u @ lit '' ('' @ unit_suffix u @ lit '')'') (accepted_units limits);
          article = (if smallest_unit limits = Hour then lit ''an'' else lit ''a'');
          last = length parts
      in if last = 1 then article @ lit '' '' @ parts ! 0 @ lit '' unit''
         else if last = 2 then article @ lit '' '' @ parts ! 0 @ lit '' or '' @ parts ! 1 @ lit '' unit''
         else article @ lit '' '' @ join_with (lit '', '') (take (last - 1) parts) @ lit '', or ''
           @ parts ! (last - 1) @ lit '' unit'')"

section \<open>Validating a field\<close>

definition hardstop_reason :: "rstr \<Rightarrow> rstr" where
  "hardstop_reason raw =
     [c_backtick] @ raw @ [c_backtick] @
     lit '' exceeds the maximum interval (the time since 1970-01-01); a longer span would place a '' @
     [c_backtick] @ lit ''now - '' @ raw @ [c_backtick] @ lit '' cutoff before the Unix epoch''"

definition validate_duration_epoch_hardstop ::
  "duration \<Rightarrow> rstr \<Rightarrow> rstr \<Rightarrow> duration \<Rightarrow> unit result" where
  "validate_duration_epoch_hardstop now field raw d =
     (if now < d then Err (InvalidParam field (hardstop_reason raw)) else Ok ())"

definition validate_duration_field :: "duration \<Rightarrow> rstr \<Rightarrow> rstr \<Rightarrow> duration result" where
  "validate_duration_field now field raw =
     and_then (ok_or (InvalidDurationField field) (parse_duration_string raw)) (\<lambda>d.
     and_then (validate_duration_epoch_hardstop now field raw d) (\<lambda>_.
     Ok d))"

definition normalize_duration ::
  "duration \<Rightarrow> rstr \<Rightarrow> rstr \<Rightarrow> duration_limits \<Rightarrow> rstr result" where
  "normalize_duration now field raw limits =
     (let value = trim raw in
      and_then (ok_or
        (InvalidParam field (lit ''expected a count and a unit (e.g. '' @ limit_examples limits @
           lit ''), got '' @ [c_backtick] @ value @ [c_backtick]))
        (split_find (\<lambda>c. \<not> is_ascii_digit c) value)) (\<lambda>(digits, suffix).
      and_then (ok_or
        (InvalidParam field (lit ''use '' @ render_accepted_units limits @
           lit ''; the minimum granularity is '' @ indefinite_name (smallest_unit limits) @
           lit '', got '' @ [c_backtick] @ value @ [c_backtick]))
        (Option.bind (unit_from_suffix suffix)
           (\<lambda>u. if u \<in> set (accepted_units limits) then Some u else None))) (\<lambda>u.
      and_then (ok_or
        (InvalidParam field ([c_backtick] @ value @ [c_backtick] @ lit '' is not a valid count + unit''))
        (parse_unsigned 64 digits)) (\<lambda>count.
      and_then (ok_or (InvalidDurationField field) (checked_duration u count)) (\<lambda>d.
      and_then (validate_duration_epoch_hardstop now field value d) (\<lambda>_.
      if d < minimum limits
      then Err (InvalidParam field (lit ''must be at least '' @ render_minimum limits))
      else Ok value))))))"

section \<open>Backoff and time spans\<close>

text \<open>
  Here a duration counts nanoseconds, as \<^verbatim>\<open>Duration\<close> does, so that its overflow is visible.
\<close>

definition duration_max_ns :: nat where
  "duration_max_ns = (2 ^ 64 - 1) * 1000000000 + 999999999"

definition exponential_backoff_delay :: "nat \<Rightarrow> nat \<Rightarrow> nat \<Rightarrow> nat \<Rightarrow> nat" where
  "exponential_backoff_delay attempt base max_delay max_exponent =
     (let exponent = min (min (attempt - 1) max_exponent) 31;
          product = base * 2 ^ exponent
      in min (if product \<le> duration_max_ns then product else max_delay) max_delay)"

text \<open>\<^verbatim>\<open>parse::<i64>()\<close>: an optional sign and decimal digits.\<close>

definition parse_i64 :: "rstr \<Rightarrow> int option" where
  [text_simps]: "parse_i64 s =
     (let (negative, body) =
        (case s of c # t \<Rightarrow> if c = 43 then (False, t) else if c = 45 then (True, t) else (False, s)
         | [] \<Rightarrow> (False, s))
      in if body = [] \<or> \<not> list_all is_ascii_digit body then None
         else let n = int (digits_value 10 body);
                  v = (if negative then - n else n)
              in if - (2 ^ 63) \<le> v \<and> v < 2 ^ 63 then Some v else None)"

text \<open>\<^verbatim>\<open>str::split_at\<close>: panics when the byte index is not a char boundary.\<close>

definition split_at :: "rstr \<Rightarrow> nat \<Rightarrow> (rstr \<times> rstr) outcome" where
  [text_simps]: "split_at s i =
     (if is_char_boundary s i then Return (take_bytes i s, drop_bytes i s) else Panic)"

text \<open>
  The constructors of \<^verbatim>\<open>chrono::Duration\<close> (a crate) are the parameter \<open>chrono\<close>: the unit in
  seconds and a count, with \<open>Panic\<close> for a count that is out of its range.
\<close>

definition parse_duration_suffix :: "(nat \<Rightarrow> int \<Rightarrow> 'd outcome) \<Rightarrow> rstr \<Rightarrow> 'd option outcome" where
  "parse_duration_suffix chrono input =
     (let trimmed = trim input in
      if trimmed = [] then Return None
      else case split_at trimmed (str_len trimmed - 1) of
        Panic \<Rightarrow> Panic
      | Return (number_part, u) \<Rightarrow>
          (case parse_i64 number_part of
             None \<Rightarrow> Return None
           | Some value \<Rightarrow>
               if value < 0 then Return None
               else if u = lit ''s'' then map_outcome Some (chrono 1 value)
               else if u = lit ''m'' then map_outcome Some (chrono 60 value)
               else if u = lit ''h'' then map_outcome Some (chrono 3600 value)
               else if u = lit ''d'' then map_outcome Some (chrono 86400 value)
               else if u = lit ''w'' then map_outcome Some (chrono 604800 value)
               else Return None))"

section \<open>Lemmas\<close>

lemmas suffix_simps = unit_from_suffix_def lit_def

lemma unit_from_suffix_suffix [simp]: "unit_from_suffix (unit_suffix u) = Some u"
  by (cases u) (simp_all add: suffix_simps)

lemma unit_from_suffix_Some: "unit_from_suffix s = Some u \<longleftrightarrow> s = unit_suffix u"
  by (cases u) (auto simp: suffix_simps split: if_splits)

lemma parse_unsigned_bound: "parse_unsigned bits s = Some n \<Longrightarrow> n < 2 ^ bits"
  by (auto simp: parse_unsigned_def Let_def split: if_splits)

lemma parse_duration_unit:
  assumes "list_all is_ascii_digit digits" and "digits \<noteq> []" and "trim raw = digits @ unit_part"
    and "unit_from_suffix unit_part = Some u" and "u \<noteq> Month"
  shows "parse_duration_string raw =
    Option.bind (parse_unsigned 64 digits) (checked_duration u)"
proof -
  have s: "unit_part = unit_suffix u" using assms(4) by (simp add: unit_from_suffix_Some)
  obtain c t where ct: "unit_part = c # t" "\<not> is_ascii_digit c"
    unfolding s by (cases u) (auto simp: lit_def is_ascii_digit_def)
  have split: "split_find (\<lambda>c. \<not> is_ascii_digit c) (trim raw) = Some (digits, unit_part)"
    using split_find_append [of "\<lambda>c. \<not> is_ascii_digit c" digits c t] assms(1,3) ct by simp
  have "parse_duration_string raw = Option.bind (parse_unsigned 64 digits) (\<lambda>v.
      if unit_part = lit ''ms'' then Some (from_millis v)
      else if unit_part = lit ''s'' then Some (from_secs v)
      else if unit_part = lit ''m'' then map_option from_secs (checked_mul_u64 v 60)
      else if unit_part = lit ''h'' then map_option from_secs (checked_mul_u64 v 3600)
      else if unit_part = lit ''d'' then map_option from_secs (checked_mul_u64 v 86400)
      else if unit_part = lit ''w'' then map_option from_secs (checked_mul_u64 v 604800)
      else None)"
    using assms(2,3) by (simp add: parse_duration_string_def Let_def split [unfolded assms(3)])
  then show ?thesis
    using assms(5) parse_unsigned_bound [of 64 digits]
    by (cases u; cases "parse_unsigned 64 digits")
      (simp_all add: s lit_def checked_duration_def checked_mul_u64_def from_secs_def from_millis_def
        as_secs_def mult.commute)
qed

lemma split_duration:
  assumes "split_find (\<lambda>c. \<not> is_ascii_digit c) value = Some (digits, unit_part)"
  shows "list_all is_ascii_digit digits" "value = digits @ unit_part"
  using split_find_Some [OF assms] by simp_all

lemma parse_unsigned_empty [simp]: "parse_unsigned bits [] = None"
  by (simp add: parse_unsigned_def)


lemma is_char_boundary_append: "is_char_boundary (a @ b) (str_len a + n) = is_char_boundary b n"
proof (induction a)
  case (Cons c a)
  then show ?case using len_utf8_pos [of c] by (auto simp add: str_len_simps simp del: len_utf8_pos)
qed simp

lemma split_at_last:
  "split_at (s @ [c]) (str_len (s @ [c]) - 1) = (if len_utf8 c = 1 then Return (s, [c]) else Panic)"
proof -
  have n: "str_len (s @ [c]) - 1 = str_len s + (len_utf8 c - 1)"
    using len_utf8_pos [of c] by (simp add: str_len_simps del: len_utf8_pos)
  show ?thesis
    unfolding split_at_def n is_char_boundary_append
    using len_utf8_pos [of c] by (auto simp del: len_utf8_pos)
qed

section \<open>Properties\<close>

text \<open>
  A field accepted by \<open>normalize_duration\<close>, with limits that leave out months, is stored
  trimmed, and the runtime's own parser reads the stored text back to a duration that is at least
  the field's minimum and not longer than the time since the epoch.
\<close>

theorem normalize_duration_reparse:
  assumes "normalize_duration now field raw limits = Ok value"
    and "Month \<notin> set (accepted_units limits)"
  shows "value = trim raw \<and>
    (\<exists>d. parse_duration_string value = Some d \<and> minimum limits \<le> d \<and> d \<le> now)"
proof -
  obtain digits unit_part u count d where
    split: "split_find (\<lambda>c. \<not> is_ascii_digit c) (trim raw) = Some (digits, unit_part)"
    and u: "unit_from_suffix unit_part = Some u" "u \<in> set (accepted_units limits)"
    and count: "parse_unsigned 64 digits = Some count"
    and d: "checked_duration u count = Some d" "minimum limits \<le> d" "d \<le> now"
    and stored: "value = trim raw"
    using assms(1)
    by (auto simp: normalize_duration_def Let_def and_then_Ok validate_duration_epoch_hardstop_def
        bind_eq_Some_conv split: if_splits prod.splits)
  have "digits \<noteq> []" using count by auto
  moreover have "u \<noteq> Month" using u(2) assms(2) by auto
  ultimately have "parse_duration_string value = Some d"
    using parse_duration_unit [of digits "value" unit_part u] split_duration [OF split] u(1) count d(1)
    by (metis bind.bind_lunit stored trim_trim)
  with d stored show ?thesis by blast
qed

theorem normalize_duration_reparse_witness:
  "normalize_duration (from_secs 1700000000) (lit ''f'') (lit '' 3w '')
     \<lparr>accepted_units = [Hour, Day, Week], minimum = from_secs 3600\<rparr> = Ok (lit ''3w'') \<and>
   (\<exists>d. parse_duration_string (lit ''3w'') = Some d \<and> from_secs 3600 \<le> d)"
proof -
  let ?limits = "\<lparr>accepted_units = [Hour, Day, Week], minimum = from_secs 3600\<rparr>"
  have "normalize_duration (from_secs 1700000000) (lit ''f'') (lit '' 3w '') ?limits = Ok (lit ''3w'')"
    by (simp add: normalize_duration_def validate_duration_epoch_hardstop_def unit_from_suffix_def
        checked_duration_def text_simps Let_def)
  with normalize_duration_reparse [OF this] show ?thesis by auto
qed

text \<open>
  A printed duration parses back: a count and a unit suffix denote the count times the
  length of the unit, and the text is rejected exactly when that does not fit 64 bits of seconds.
\<close>

theorem parse_duration_print:
  assumes "u \<noteq> Month" and "n < 2 ^ 64"
  shows "parse_duration_string (show_nat n @ unit_suffix u) =
    (if u = Millisecond \<or> as_secs (n * unit_length u) < 2 ^ 64 then Some (n * unit_length u) else None)"
proof -
  have trim: "trim (show_nat n @ unit_suffix u) = show_nat n @ unit_suffix u"
    using show_nat_digits [of n]
    by (cases u; cases "show_nat n")
      (auto intro!: trim_id simp: lit_def is_whitespace_def is_ascii_digit_def)
  have "parse_duration_string (show_nat n @ unit_suffix u) = checked_duration u n"
    using parse_duration_unit [OF _ _ trim unit_from_suffix_suffix assms(1)] show_nat_digits [of n]
      assms(2)
    by (simp add: parse_show_nat)
  also have "\<dots> = (if u = Millisecond \<or> as_secs (n * unit_length u) < 2 ^ 64
      then Some (n * unit_length u) else None)"
    using assms
    by (cases u)
      (simp_all add: checked_duration_def checked_mul_u64_def from_secs_def from_millis_def as_secs_def
        mult.commute)
  finally show ?thesis .
qed

theorem parse_duration_print_witness:
  "parse_duration_string (show_nat 90 @ unit_suffix Minute) = Some (from_secs 5400) \<and>
   parse_duration_string (show_nat 307445734561825861 @ unit_suffix Minute) = None"
  using parse_duration_print [of Minute 90] parse_duration_print [of Minute 307445734561825861]
  by (simp add: from_secs_def as_secs_def)

text \<open>
  The backoff doubles the base once per earlier attempt, up to the exponent cap, and never
  exceeds the maximum; it does not decrease as attempts fail.
\<close>

theorem exponential_backoff_delay_spec:
  "exponential_backoff_delay attempt base max_delay max_exponent \<le> max_delay \<and>
   exponential_backoff_delay attempt base max_delay max_exponent \<le>
     exponential_backoff_delay (Suc attempt) base max_delay max_exponent \<and>
   (if max_delay \<le> duration_max_ns then
      exponential_backoff_delay attempt base max_delay max_exponent =
        min max_delay (base * 2 ^ min (min (attempt - 1) max_exponent) 31)
    else True)"
proof -
  let ?p = "\<lambda>n. base * 2 ^ min (min (n - 1) max_exponent) 31"
  have le: "?p attempt \<le> ?p (Suc attempt)"
    by (intro mult_le_mono2 power_increasing) auto
  have mono: "a \<le> b \<Longrightarrow> min (if a \<le> top then a else m) m \<le> min (if b \<le> top then b else m) m"
    and eq: "m \<le> top \<Longrightarrow> min (if a \<le> top then a else m) m = min m a" for a b top m :: nat
    by auto
  show ?thesis
    unfolding exponential_backoff_delay_def Let_def
  proof (intro conjI)
    show "if max_delay \<le> duration_max_ns
      then min (if ?p attempt \<le> duration_max_ns then ?p attempt else max_delay) max_delay =
        min max_delay (?p attempt) else True"
      using eq [of max_delay duration_max_ns "?p attempt"] by presburger
  qed (rule min.cobounded2, rule mono [OF le])
qed

text \<open>A span that ends in a char of more than one byte makes \<^verbatim>\<open>split_at\<close> panic.\<close>

lemma parse_duration_suffix_multibyte:
  assumes "trim s = t @ [c]" and "len_utf8 c \<noteq> 1"
  shows "parse_duration_suffix chrono s = Panic"
  using assms split_at_last [of t c] by (simp add: parse_duration_suffix_def Let_def)

lemma parse_duration_suffix_ascii:
  assumes "trim s = t @ [c]" and "len_utf8 c = 1" and "\<And>secs n. chrono secs n \<noteq> Panic"
  shows "parse_duration_suffix chrono s \<noteq> Panic"
proof -
  have map: "map_outcome Some (chrono secs n) \<noteq> Panic" for secs n
    using assms(3) [of secs n] by (cases "chrono secs n") simp_all
  then show ?thesis
    using assms(1,2) split_at_last [of t c]
    by (simp add: parse_duration_suffix_def Let_def split: option.split)
qed

end
