(* ===== verification/Permissions_Config.thy ===== *)
theory Permissions_Config
  imports Durations
begin

text \<open>
  The \<^verbatim>\<open>[permissions]\<close> section of the config: its record and effective values
  (\<^verbatim>\<open>src/config/schema/runtime.rs\<close>) and its validator (\<^verbatim>\<open>src/config/validate/permissions.rs\<close>).
\<close>

record permissions_config =
  mode :: rstr
  review :: "rstr list"
  deny :: "rstr list"
  request_timeout :: "rstr option"
  timeout_action :: "rstr option"
  acp_prompt_action :: "rstr option"

datatype acp_prompt_action = Ask | AcpApprove

datatype permission_timeout_action = TimeoutDeny | TimeoutApprove

definition default_permission_request_timeout :: rstr where
  [text_simps]: "default_permission_request_timeout = lit ''5m''"

definition effective_request_timeout :: "permissions_config \<Rightarrow> duration" where
  "effective_request_timeout c =
     (let raw = (case request_timeout c of Some raw \<Rightarrow> raw | None \<Rightarrow> default_permission_request_timeout)
      in case parse_duration_string raw of
           Some d \<Rightarrow> d
         | None \<Rightarrow>
             (case parse_duration_string default_permission_request_timeout of
                Some d \<Rightarrow> d
              | None \<Rightarrow> from_secs 300))"

definition effective_timeout_action :: "permissions_config \<Rightarrow> permission_timeout_action" where
  "effective_timeout_action c =
     (if timeout_action c = Some (lit ''approve'') then TimeoutApprove else TimeoutDeny)"

definition effective_acp_prompt_action :: "permissions_config \<Rightarrow> acp_prompt_action" where
  "effective_acp_prompt_action c =
     (if acp_prompt_action c = Some (lit ''approve'') then AcpApprove else Ask)"

definition default_permissions_config :: permissions_config where
  "default_permissions_config = \<lparr>mode = lit ''auto'', review = [], deny = [], request_timeout = None,
     timeout_action = None, acp_prompt_action = None\<rparr>"

definition validate_permissions :: "duration \<Rightarrow> permissions_config \<Rightarrow> unit result" where
  "validate_permissions now c =
     and_then (if mode c \<in> {lit ''auto'', lit ''supervised'', lit ''locked''} then Ok ()
               else Err InvalidPermissionsMode) (\<lambda>_.
     and_then (case request_timeout c of
         Some raw \<Rightarrow>
           and_then (validate_duration_field now (lit ''permissions.request_timeout'') raw) (\<lambda>parsed.
             if parsed = 0 then Err (NonZeroRequired (lit ''permissions.request_timeout'')) else Ok ())
       | None \<Rightarrow> Ok ()) (\<lambda>_.
     and_then (case timeout_action c of
         Some action \<Rightarrow> if action \<in> {lit ''deny'', lit ''approve''} then Ok () else Err InvalidTimeoutAction
       | None \<Rightarrow> Ok ()) (\<lambda>_.
     case acp_prompt_action c of
       Some action \<Rightarrow> if action \<in> {lit ''ask'', lit ''approve''} then Ok () else Err InvalidAcpPromptAction
     | None \<Rightarrow> Ok ())))"

lemma validated_request_timeout:
  assumes "validate_permissions now c = Ok ()"
  shows "0 < effective_request_timeout c"
proof (cases "request_timeout c")
  case None
  then show ?thesis
    by (simp add: effective_request_timeout_def parse_duration_string_def text_simps Let_def)
next
  case (Some raw)
  with assms obtain d where "parse_duration_string raw = Some d" "0 < d"
    by (auto simp: validate_permissions_def and_then_Ok validate_duration_field_def split: if_splits)
  with Some show ?thesis by (simp add: effective_request_timeout_def)
qed

text \<open>
  A validated \<^verbatim>\<open>[permissions]\<close> section is read at run time exactly as it is written: the
  request timeout in effect is the configured one, positive and no longer than the time since the
  epoch, and an action other than the default is in effect only when it is spelled out.
\<close>

theorem validated_permissions_effective:
  assumes "validate_permissions now c = Ok ()"
  shows "0 < effective_request_timeout c \<and>
    (\<forall>raw. request_timeout c = Some raw \<longrightarrow>
       parse_duration_string raw = Some (effective_request_timeout c) \<and>
       effective_request_timeout c \<le> now) \<and>
    timeout_action c \<in> {None, Some (lit ''deny''), Some (lit ''approve'')} \<and>
    (effective_timeout_action c = TimeoutApprove \<longleftrightarrow> timeout_action c = Some (lit ''approve'')) \<and>
    acp_prompt_action c \<in> {None, Some (lit ''ask''), Some (lit ''approve'')} \<and>
    (effective_acp_prompt_action c = AcpApprove \<longleftrightarrow> acp_prompt_action c = Some (lit ''approve''))"
  using assms validated_request_timeout [OF assms]
  by (auto simp: validate_permissions_def and_then_Ok validate_duration_field_def
      validate_duration_epoch_hardstop_def effective_request_timeout_def effective_timeout_action_def
      effective_acp_prompt_action_def split: if_splits option.splits)

theorem validated_permissions_effective_witness:
  "effective_request_timeout (default_permissions_config\<lparr>request_timeout := Some (lit ''90s'')\<rparr>) =
     from_secs 90"
proof -
  let ?c = "default_permissions_config\<lparr>request_timeout := Some (lit ''90s'')\<rparr>"
  have "validate_permissions (from_secs 1700000000) ?c = Ok ()"
    by (simp add: validate_permissions_def default_permissions_config_def validate_duration_field_def
        validate_duration_epoch_hardstop_def parse_duration_string_def text_simps Let_def)
  from validated_permissions_effective [OF this] show ?thesis
    by (simp add: parse_duration_string_def text_simps Let_def)
qed

end
