(* ===== verification/Command_Policy.thy ===== *)
theory Command_Policy
  imports Glob Shell_Analysis Permissions_Config
begin

text \<open>
  The policy decision of the command gateway (\<^verbatim>\<open>policy.rs\<close>: \<open>evaluate_policy\<close>).
  \<open>policy_screen\<close> is what the gateway relies on: which commands the screen denies, and what
  it guarantees about a command it allows.  It is interpreted by \<open>evaluate_policy\<close>.
\<close>

datatype policy_decision = Allow | Review | ReviewRequired | Deny

definition policy_candidates :: "rstr \<Rightarrow> astate \<Rightarrow> normalized_shell_words \<Rightarrow> rstr list" where
  "policy_candidates command analysis normalized_command =
     [trim command]
     @ (if n_text normalized_command \<noteq> trim command then [n_text normalized_command] else [])
     @ (case n_command_text normalized_command of
          Some command_text \<Rightarrow>
            if command_text \<noteq> trim command \<and> command_text \<noteq> n_text normalized_command
            then [command_text] else []
        | None \<Rightarrow> [])
     @ segments analysis @ normalized_segments analysis"

definition evaluate_policy :: "rstr \<Rightarrow> permissions_config \<Rightarrow> policy_decision" where
  "evaluate_policy command permissions =
     (let analysis = analyze_shell_command command;
          normalized_command = normalize_shell_words command;
          candidates = policy_candidates command analysis normalized_command
      in if list_ex (\<lambda>pattern. list_ex (glob_match pattern) candidates) (deny permissions) then Deny
         else if list_ex (\<lambda>pattern. list_ex (glob_match pattern) candidates) (review permissions)
         then Review
         else if composed analysis then ReviewRequired
         else if n_command_word_constructed normalized_command \<or> a_command_word_constructed analysis
         then ReviewRequired
         else Allow)"


section \<open>What the candidates contain\<close>

lemma normalize_empty: "n_text (normalize_shell_words []) = []"
  by (simp add: normalize_shell_words_def init_nstate_def text_simps push_normalized_word_def
      join_words_def Let_def)

lemma plain_shell_text:
  "list_all (\<lambda>c. ok c \<and>
     c \<notin> {c_backslash, c_squote, c_dquote, c_dollar, c_lt, c_gt, c_backtick}) s \<Longrightarrow> shell_text ok s"
  by (induction s) (auto intro: shell_text.intros)

lemma plain_spells:
  "list_all (\<lambda>c. \<not> is_whitespace c \<and> c \<notin> {c_backslash, c_squote, c_dquote, c_dollar}) w \<Longrightarrow>
   spells w w"
  by (induction w) (auto intro: spells.intros)

text \<open>Every segment the scanner collects is accompanied by its two normalised readings.\<close>

definition readings :: "rstr \<Rightarrow> rstr set" where
  "readings s = {s, n_text (normalize_shell_words s)} \<union>
     set_option (n_command_text (normalize_shell_words s))"

definition covered :: "astate \<Rightarrow> bool" where
  "covered st \<longleftrightarrow>
     (\<forall>s \<in> set (segments st). readings s \<subseteq> set (segments st) \<union> set (normalized_segments st))"

lemma push_normalized_readings:
  "readings s \<subseteq> insert s (set (push_normalized_shell_words cs s (normalize_shell_words s)))"
  by (auto simp: readings_def push_normalized_shell_words_def Let_def split: option.splits)

lemma covered_flags [simp]:
  "covered (st\<lparr>composed := b\<rparr>) = covered st" "covered (a_push s st) = covered st"
  "covered (st\<lparr>a_escaped := b\<rparr>) = covered st" "covered (st\<lparr>a_single := b\<rparr>) = covered st"
  "covered (st\<lparr>a_double := b\<rparr>) = covered st" "covered (st\<lparr>a_current := s\<rparr>) = covered st"
  by (simp_all add: covered_def a_push_def)

lemma covered_push_segment: "covered st \<Longrightarrow> covered (push_segment st)"
  using push_normalized_readings set_push_normalized
  unfolding covered_def push_segment_def Let_def
  by (fastforce simp: subset_iff)

lemma covered_push_substitution:
  assumes "covered st" and "covered analysis"
  shows "covered (push_substitution_segments st s analysis)"
proof (cases "segments analysis = []")
  case True
  with assms(1) push_normalized_readings set_push_normalized show ?thesis
    unfolding covered_def push_substitution_segments_def push_normalized_candidates_def Let_def
    by (fastforce simp: subset_iff)
next
  case False
  with assms show ?thesis
    by (fastforce simp: covered_def push_substitution_segments_def subset_iff)
qed

lemma covered_init: "covered init_astate"
  by (simp add: covered_def init_astate_def)

lemma covered_branches:
  "(b \<Longrightarrow> covered x) \<Longrightarrow> (\<not> b \<Longrightarrow> covered y) \<Longrightarrow> covered (if b then x else y)"
  "(\<And>u v. s = Some (u, v) \<Longrightarrow> covered (f u v)) \<Longrightarrow> (s = None \<Longrightarrow> covered y) \<Longrightarrow>
   covered (case s of Some (u, v) \<Rightarrow> f u v | None \<Rightarrow> y)"
  by (simp_all split: option.split prod.split)

lemma covered_analyze_loop: "covered st \<Longrightarrow> covered (analyze_loop st chars)"
proof (induction chars arbitrary: st rule: length_induct)
  case (1 chars)
  have IH: "length rest < length chars \<Longrightarrow> covered st \<Longrightarrow> covered (analyze_loop st rest)" for st rest
    using "1.IH" by blast
  show ?case
  proof (cases chars)
    case Nil
    with "1.prems" show ?thesis by simp
  next
    case (Cons ch rest)
    show ?thesis
      unfolding Cons analyze_loop.simps(2) Let_def
      by (intro covered_branches IH)
        (auto simp: Cons "1.prems" dest!: substitution_at_length
          intro!: covered_push_segment covered_push_substitution IH covered_init)
  qed
qed

lemma covered_analyze: "covered (analyze_shell_command command)"
  by (simp add: analyze_shell_command_def covered_push_segment covered_analyze_loop covered_init)

definition candidate_set :: "rstr \<Rightarrow> rstr set" where
  "candidate_set command = set (policy_candidates command (analyze_shell_command command)
     (normalize_shell_words command))"

definition flagged :: "rstr \<Rightarrow> bool" where
  "flagged command \<longleftrightarrow> composed (analyze_shell_command command) \<or>
     n_command_word_constructed (normalize_shell_words command) \<or>
     a_command_word_constructed (analyze_shell_command command)"


lemma candidate_segment:
  assumes "s \<in> set (segments (analyze_shell_command command))"
  shows "readings s \<subseteq> candidate_set command"
  using covered_analyze [of command] assms
  by (fastforce simp: covered_def candidate_set_def policy_candidates_def)

lemma candidate_list_segment:
  assumes "wf_command_list first rest" and "c \<in> set (first # map snd rest)" and "trim c \<noteq> []"
  shows "readings (trim c) \<subseteq> candidate_set (command_list first rest)"
  using analyze_command_list [OF assms(1), of init_astate] assms(2,3)
  by (intro candidate_segment) (auto simp: analyze_shell_command_def a_unquoted_def init_astate_def)


lemma evaluate_policy_unfold:
  "evaluate_policy command permissions =
     (if \<exists>p \<in> set (deny permissions). \<exists>c \<in> candidate_set command. glob_match p c then Deny
      else if \<exists>p \<in> set (review permissions). \<exists>c \<in> candidate_set command. glob_match p c then Review
      else if flagged command then ReviewRequired else Allow)"
  by (auto simp: evaluate_policy_def Let_def candidate_set_def flagged_def list_ex_iff)

section \<open>The contract of the screen\<close>

text \<open>
  What a client of the policy relies on: the decision is a function of pattern hits on a set of
  candidate texts and of one flag, with deny before review before the flag.
\<close>

locale policy_screen =
  fixes evaluate :: "rstr \<Rightarrow> permissions_config \<Rightarrow> policy_decision"
    and candidates :: "rstr \<Rightarrow> rstr set"
    and matches :: "rstr \<Rightarrow> rstr \<Rightarrow> bool"
    and flag :: "rstr \<Rightarrow> bool"
  assumes deny_law: "evaluate command perms = Deny \<longleftrightarrow>
      (\<exists>p \<in> set (deny perms). \<exists>c \<in> candidates command. matches p c)"
    and review_law: "evaluate command perms = Review \<longleftrightarrow>
      evaluate command perms \<noteq> Deny \<and>
      (\<exists>p \<in> set (review perms). \<exists>c \<in> candidates command. matches p c)"
    and flag_law: "evaluate command perms = ReviewRequired \<longleftrightarrow>
      evaluate command perms \<noteq> Deny \<and> evaluate command perms \<noteq> Review \<and> flag command"
begin

lemma denies:
  "p \<in> set (deny perms) \<Longrightarrow> c \<in> candidates command \<Longrightarrow> matches p c \<Longrightarrow>
   evaluate command perms = Deny"
  using deny_law by blast

lemma allow_iff:
  "evaluate command perms = Allow \<longleftrightarrow> \<not> flag command \<and>
     (\<forall>p \<in> set (deny perms) \<union> set (review perms). \<forall>c \<in> candidates command. \<not> matches p c)"
  using deny_law [of command perms] review_law [of command perms] flag_law [of command perms]
  by (cases "evaluate command perms") auto

lemma deny_extend:
  "set (deny perms) \<subseteq> set (deny perms') \<Longrightarrow> evaluate command perms = Deny \<Longrightarrow>
   evaluate command perms' = Deny"
  unfolding deny_law by blast

lemma allow_restrict:
  "set (deny perms') \<subseteq> set (deny perms) \<Longrightarrow> set (review perms') \<subseteq> set (review perms) \<Longrightarrow>
   evaluate command perms = Allow \<Longrightarrow> evaluate command perms' = Allow"
  unfolding allow_iff by blast

end

interpretation gp: policy_screen evaluate_policy candidate_set glob_match flagged
  by unfold_locales (auto simp: evaluate_policy_unfold)

section \<open>Properties\<close>

lemmas policy_eval = evaluate_policy_def policy_candidates_def analyze_shell_command_def
  init_astate_def analyze_loop.simps a_push_def push_segment_def push_normalized_shell_words_def
  substitution_at_def or_else_def get_word_def is_shell_separator_def
  normalize_shell_words_def init_nstate_def normalize_loop.simps normalize_char_def
  push_normalized_word_def push_char_def mark_constructed_def join_words_def
  redirection_operator_end_def command_word_index_def command_word_index_from.simps
  shell_pipeline_prefix_width_def redirection_prefix_width_def is_shell_assignment_word_def
  glob_match_def glob_match_inner_def glob_loop.simps glob_skip_stars.simps

abbreviation deny_rm :: permissions_config where
  "deny_rm \<equiv> \<lparr>mode = lit ''auto'', review = [], deny = [lit ''rm *''],
     request_timeout = None, timeout_action = None, acp_prompt_action = None\<rparr>"



text \<open>
  C10. A deny pattern reaches every command of a command list, whatever the operators between
  the commands (\<^verbatim>\<open>; & | && ||\<close> and newline) and however quoted their operands are.
\<close>

theorem deny_every_listed_command:
  assumes "wf_command_list first rest" and "command \<in> set (first # map snd rest)"
    and "trim command \<noteq> []"
    and "p \<in> set (deny permissions)" and "glob_match p (trim command)"
  shows "evaluate_policy (command_list first rest) permissions = Deny"
  using candidate_list_segment [OF assms(1-3)] assms(4,5)
  by (auto simp: readings_def intro: gp.denies)

theorem deny_every_listed_command_witness:
  "evaluate_policy (command_list (lit ''ls'') [(lit ''&&'', lit '' rm -rf t'')]) deny_rm = Deny"
proof (rule deny_every_listed_command [where command = "lit '' rm -rf t''" and p = "lit ''rm *''"])
  show "wf_command_list (lit ''ls'') [(lit ''&&'', lit '' rm -rf t'')]"
    by (auto simp: wf_command_list_def control_operator_def is_shell_separator_def text_simps
        intro!: plain_shell_text)
qed (simp_all add: text_simps glob_match_def glob_match_inner_def glob_loop.simps glob_skip_stars.simps)

text \<open>
  C11. Quoting does not hide a command from a deny pattern: if a command of a command list is any
  spelling (escapes, single, double or ANSI-C quotes, line continuations) of the words \<open>ws\<close>, a
  deny pattern that matches the plain words denies the whole list.
\<close>

theorem deny_every_spelling:
  assumes "wf_command_list first rest" and "command \<in> set (first # map snd rest)"
    and "trim command = join_with [c_space] us" and "list_all2 spells ws us"
    and "list_all (\<lambda>w. w \<noteq> []) ws" and "ws \<noteq> []"
    and "p \<in> set (deny permissions)" and "glob_match p (join_with [c_space] ws)"
  shows "evaluate_policy (command_list first rest) permissions = Deny"
proof -
  have trimmed: "trim (join_with [c_space] us) = join_with [c_space] us"
    using assms(3) trim_trim by metis
  have plain: "n_text (normalize_shell_words (trim command)) = join_with [c_space] ws"
    using normalize_spelled_text [OF assms(4-6) trimmed] assms(3) by simp
  have "trim command \<noteq> []"
    using plain assms(5,6) normalize_empty by (cases ws) (auto dest: join_with_Nil)
  with candidate_list_segment [OF assms(1,2)] plain
  have "join_with [c_space] ws \<in> candidate_set (command_list first rest)"
    by (auto simp: readings_def)
  with assms(7,8) show ?thesis by (auto intro: gp.denies)
qed

theorem deny_every_spelling_witness:
  "evaluate_policy (command_list (lit ''ls'') [(lit '';'', lit ''r'' @ c_squote # lit ''m'' @ c_squote # lit '' x'')])
     deny_rm = Deny"
proof (rule deny_every_spelling [where command = "lit ''r'' @ c_squote # lit ''m'' @ c_squote # lit '' x''"
      and us = "[lit ''r'' @ c_squote # lit ''m'' @ [c_squote], lit ''x'']" and ws = "[lit ''rm'', lit ''x'']"
      and p = "lit ''rm *''"])
  have "simple_text (lit ''r'' @ c_squote # lit ''m'' @ c_squote # lit '' x'')"
    using plain_shell_text [of "\<lambda>c. \<not> is_shell_separator c" "lit '' x''"]
    by (auto simp: is_shell_separator_def lit_def intro!: shell_text.intros(2) shell_text.intros(5) [of _ _ "[109]", simplified])
  then show "wf_command_list (lit ''ls'')
      [(lit '';'', lit ''r'' @ c_squote # lit ''m'' @ c_squote # lit '' x'')]"
    by (auto simp: wf_command_list_def control_operator_def is_shell_separator_def text_simps
        intro!: plain_shell_text)
  have "spells (lit ''rm'') (lit ''r'' @ c_squote # lit ''m'' @ [c_squote])"
    using spells_single [OF spells_Nil, of "[109]"]
    by (auto simp: text_simps intro!: spells_plain)
  then show "list_all2 spells [lit ''rm'', lit ''x''] [lit ''r'' @ c_squote # lit ''m'' @ [c_squote], lit ''x'']"
    by (auto simp: text_simps intro!: plain_spells)
qed (simp_all add: text_simps glob_match_def glob_match_inner_def glob_loop.simps glob_skip_stars.simps)



text \<open>
  A command whose command word is written with any quoting is never allowed outright: a
  person reviews it, or it is denied.
\<close>

theorem quoted_command_word_not_allowed:
  assumes "list_all2 spells ws us" and "list_all (\<lambda>w. w \<noteq> []) ws" and "ws \<noteq> []"
    and "trim (join_with [c_space] us) = join_with [c_space] us"
    and "{c_eq, c_lt, c_gt} \<inter> set (hd ws) = {}" and "hd ws \<notin> {lit ''!'', lit ''time''}"
    and "hd us \<noteq> hd ws"
  shows "evaluate_policy (join_with [c_space] us) permissions \<noteq> Allow"
  using normalize_spelled_constructed [OF assms] by (auto simp: gp.allow_iff flagged_def)

theorem quoted_command_word_not_allowed_witness:
  "evaluate_policy (join_with [c_space] [c_dquote # lit ''ls'' @ [c_dquote], lit ''x'']) deny_rm \<noteq> Allow"
proof (rule quoted_command_word_not_allowed [where ws = "[lit ''ls'', lit ''x'']"])
  show "list_all2 spells [lit ''ls'', lit ''x''] [c_dquote # lit ''ls'' @ [c_dquote], lit ''x'']"
    using spells_double [OF spells_Nil, of "lit ''ls''"] by (auto simp: text_simps intro!: plain_spells)
qed (simp_all add: text_simps)

section \<open>Commands the patterns do not reach\<close>

text \<open>A \<^verbatim>\<open>*\<close> in the command consumes the pattern's wildcard as a literal char.\<close>

lemma deny_star_operand_missed:
  "evaluate_policy (lit ''rm -rf t'') deny_rm = Deny"
  "evaluate_policy (lit ''rm *.log'') deny_rm = Allow"
  by (simp_all add: policy_eval text_simps Let_def)

text \<open>A subshell is neither split into segments nor treated as composition.\<close>

lemma deny_subshell_missed: "evaluate_policy (lit ''(rm -rf t)'') deny_rm = Allow"
  by (simp add: policy_eval text_simps Let_def)

text \<open>
  The segment scanner reads \<^verbatim>\<open>$'\''\<close> as the plain quotes \<^verbatim>\<open>'\'\<close> and a quote that stays open, so
  it does not see the control operator that follows.
\<close>

lemma deny_after_ansi_quote_missed:
  "evaluate_policy (lit ''echo $'' @ [c_squote, c_backslash, c_squote, c_squote] @ lit '';rm -rf t'')
     deny_rm = Allow"
  by (simp add: policy_eval text_simps Let_def consume_ansi_c_quoted.simps)

end
