(* ===== verification/Permission_Service.thy ===== *)
theory Permission_Service
  imports Permission_Store Permissions_Config
begin

text \<open>
  The permission pipeline (\<^verbatim>\<open>src/runtime/mediation/permissions.rs\<close>): each request has a durable row and
  an in-memory waiter, and operators, the session-cancel sweep and the expiry timer race to
  settle it.

  Every place where the service awaits is a point where other callers run, so the state holds the
  continuations as tasks (what a suspended call does next), and a step runs one of them.  The
  functions of the source are the compositions of these steps without interleaving.
  The event log and the live events are not part of the state.
\<close>

section \<open>Outcomes\<close>

datatype permission_outcome =
    Approved "rstr option" "rstr option"
  | Denied "rstr option"
  | Canceled rstr
  | Expired

fun as_status :: "permission_outcome \<Rightarrow> permission_status" where
  "as_status (Approved option_id reason) = PApproved"
| "as_status (Denied reason) = PDenied"
| "as_status (Canceled reason) = PCanceled"
| "as_status Expired = PExpired"

definition raced_decision_reason :: rstr where
  "raced_decision_reason = lit ''decided before the waiter was registered''"

text \<open>The answer to a waiter whose request was settled before the waiter existed.\<close>

fun raced_outcome :: "permission_status \<Rightarrow> permission_outcome option" where
  "raced_outcome PPending = None"
| "raced_outcome PApproved = Some (Canceled raced_decision_reason)"
| "raced_outcome PCanceled = Some (Canceled raced_decision_reason)"
| "raced_outcome PDenied = Some (Denied (Some raced_decision_reason))"
| "raced_outcome PExpired = Some Expired"

fun timeout_outcome :: "permission_timeout_action \<Rightarrow> permission_outcome" where
  "timeout_outcome TimeoutDeny = Expired"
| "timeout_outcome TimeoutApprove = Approved None (Some (lit ''auto-approved on timeout''))"

section \<open>State\<close>

text \<open>
  What a suspended call does next: register the waiter, read the row again, answer the waiter with
  the outcome of that read, wait for the timeout, answer the waiter after a committed decision,
  answer it after the timer failed.
\<close>

datatype task =
    Register rstr
  | Recheck rstr
  | Settle rstr permission_outcome
  | Timer rstr
  | Fire rstr permission_outcome
  | Rescue rstr

record service =
  sv_store :: pstore
  sv_pending :: "rstr set"
  sv_answers :: "rstr \<rightharpoonup> permission_outcome"
  sv_tasks :: "task list"

definition answer_waiter :: "rstr \<Rightarrow> permission_outcome \<Rightarrow> service \<Rightarrow> service" where
  "answer_waiter key outcome sv =
     (if key \<in> sv_pending sv
      then sv\<lparr>sv_pending := sv_pending sv - {key}, sv_answers := (sv_answers sv)(key \<mapsto> outcome)\<rparr>
      else sv)"

definition spawn :: "task \<Rightarrow> service \<Rightarrow> service" where
  "spawn t sv = sv\<lparr>sv_tasks := sv_tasks sv @ [t]\<rparr>"

definition finish :: "task \<Rightarrow> service \<Rightarrow> service" where
  "finish t sv = sv\<lparr>sv_tasks := remove1 t (sv_tasks sv)\<rparr>"

section \<open>The pieces of the operations\<close>

text \<open>What one transaction is given: whether the database accepts it, fresh keys, the clock.\<close>

record tx_env =
  tx_ok :: bool
  tx_key :: rstr
  tx_now :: rstr
  tx_decided_at :: rstr

definition insert_request ::
  "(rstr \<Rightarrow> bool) \<Rightarrow> tx_env \<Rightarrow> new_permission_request \<Rightarrow> service \<Rightarrow> permission_request result \<times> service" where
  "insert_request json_valid e input sv =
     (case append_permission_request json_valid (tx_ok e) (tx_key e) (tx_now e) input (sv_store sv) of
        (Inl err, _) \<Rightarrow> (Inl err, sv)
      | (Inr r, st) \<Rightarrow> (Inr r, spawn (Register (pr_id r)) (sv\<lparr>sv_store := st\<rparr>)))"

definition register_waiter :: "rstr \<Rightarrow> service \<Rightarrow> service" where
  "register_waiter key sv =
     spawn (Recheck key) (finish (Register key) (sv\<lparr>sv_pending := insert key (sv_pending sv)\<rparr>))"

text \<open>\<open>read_ok\<close> is whether the read succeeds.\<close>

definition recheck_request :: "bool \<Rightarrow> rstr \<Rightarrow> service \<Rightarrow> service" where
  "recheck_request read_ok key sv =
     (let sv' = finish (Recheck key) sv in
      case (if read_ok then find_request key (sv_store sv) else None) of
        None \<Rightarrow> spawn (Settle key Expired) sv'
      | Some r \<Rightarrow>
          (case raced_outcome (from_wire (pr_status r)) of
             None \<Rightarrow> spawn (Timer key) sv'
           | Some outcome \<Rightarrow> spawn (Settle key outcome) sv'))"

definition settle_waiter :: "rstr \<Rightarrow> permission_outcome \<Rightarrow> service \<Rightarrow> service" where
  "settle_waiter key outcome sv =
     spawn (Timer key) (answer_waiter key outcome (finish (Settle key outcome) sv))"

definition decide_commit ::
  "tx_env \<Rightarrow> rstr \<Rightarrow> permission_outcome \<Rightarrow> rstr \<Rightarrow> rstr option \<Rightarrow> service \<Rightarrow> permission_decision result \<times> service" where
  "decide_commit e key outcome deciding_principal reason sv =
     (case decide_permission (tx_ok e) (tx_key e) (tx_now e) (tx_decided_at e) key (as_status outcome)
             (Some deciding_principal) reason (sv_store sv) of
        (Inl err, _) \<Rightarrow> (Inl err, sv)
      | (Inr d, st) \<Rightarrow> (Inr d, spawn (Fire key outcome) (sv\<lparr>sv_store := st\<rparr>)))"

definition fire_waiter :: "rstr \<Rightarrow> permission_outcome \<Rightarrow> service \<Rightarrow> service" where
  "fire_waiter key outcome sv = answer_waiter key outcome (finish (Fire key outcome) sv)"

definition timer_elapsed :: "permission_timeout_action \<Rightarrow> tx_env \<Rightarrow> rstr \<Rightarrow> service \<Rightarrow> service" where
  "timer_elapsed action e key sv =
     (let sv' = finish (Timer key) sv in
      case decide_commit e key (timeout_outcome action) (lit ''system'') (Some (lit ''timeout'')) sv' of
        (Inr _, sv'') \<Rightarrow> sv''
      | (Inl (InvalidPermissionTransition _ _ _), _) \<Rightarrow> sv'
      | (Inl _, _) \<Rightarrow> spawn (Rescue key) sv')"

definition rescue_waiter :: "rstr \<Rightarrow> service \<Rightarrow> service" where
  "rescue_waiter key sv = answer_waiter key Expired (finish (Rescue key) sv)"

section \<open>The operations without interleaving\<close>

definition request_permission ::
  "(rstr \<Rightarrow> bool) \<Rightarrow> tx_env \<Rightarrow> bool \<Rightarrow> new_permission_request \<Rightarrow> service \<Rightarrow> permission_request result \<times> service" where
  "request_permission json_valid e read_ok input sv =
     (case insert_request json_valid e input sv of
        (Inl err, sv') \<Rightarrow> (Inl err, sv')
      | (Inr r, sv') \<Rightarrow> (Inr r, recheck_request read_ok (pr_id r) (register_waiter (pr_id r) sv')))"

definition decide_and_publish ::
  "tx_env \<Rightarrow> rstr \<Rightarrow> permission_outcome \<Rightarrow> rstr \<Rightarrow> rstr option \<Rightarrow> service \<Rightarrow> permission_decision result \<times> service" where
  "decide_and_publish e key outcome deciding_principal reason sv =
     (case decide_commit e key outcome deciding_principal reason sv of
        (Inl err, sv') \<Rightarrow> (Inl err, sv')
      | (Inr d, sv') \<Rightarrow> (Inr d, fire_waiter key outcome sv'))"

definition approve :: "tx_env \<Rightarrow> rstr \<Rightarrow> rstr option \<Rightarrow> rstr option \<Rightarrow> rstr \<Rightarrow> service \<Rightarrow> permission_decision result \<times> service" where
  "approve e key option_id reason deciding_principal sv =
     decide_and_publish e key (Approved option_id reason) deciding_principal reason sv"

definition deny_request :: "tx_env \<Rightarrow> rstr \<Rightarrow> rstr option \<Rightarrow> rstr \<Rightarrow> service \<Rightarrow> permission_decision result \<times> service" where
  "deny_request e key reason deciding_principal sv =
     decide_and_publish e key (Denied reason) deciding_principal reason sv"

definition cancel_request :: "tx_env \<Rightarrow> rstr \<Rightarrow> rstr \<Rightarrow> service \<Rightarrow> unit result \<times> service" where
  "cancel_request e key reason sv =
     (case decide_and_publish e key (Canceled reason) (lit ''system'') (Some reason) sv of
        (Inl err, sv') \<Rightarrow> (Inl err, sv')
      | (Inr _, sv') \<Rightarrow> (Inr (), sv'))"

definition cancel_if_pending :: "tx_env \<Rightarrow> rstr \<Rightarrow> rstr \<Rightarrow> service \<Rightarrow> bool result \<times> service" where
  "cancel_if_pending e key reason sv =
     (case cancel_request e key reason sv of
        (Inr _, sv') \<Rightarrow> (Inr True, sv')
      | (Inl (InvalidPermissionTransition _ _ _), sv') \<Rightarrow> (Inr False, sv')
      | (Inl err, sv') \<Rightarrow> (Inl err, sv'))"

fun cancel_rows ::
  "(nat \<Rightarrow> tx_env) \<Rightarrow> nat \<Rightarrow> rstr \<Rightarrow> nat \<Rightarrow> permission_request list \<Rightarrow> service \<Rightarrow> nat result \<times> service" where
  "cancel_rows envs n reason settled_rows [] sv = (Inr settled_rows, sv)"
| "cancel_rows envs n reason settled_rows (row # rows) sv =
     (case cancel_if_pending (envs n) (pr_id row) reason sv of
        (Inl err, sv') \<Rightarrow> (Inl err, sv')
      | (Inr won, sv') \<Rightarrow> cancel_rows envs (Suc n) reason (if won then settled_rows + 1 else settled_rows) rows sv')"

definition cancel_pending_for_session ::
  "(nat \<Rightarrow> tx_env) \<Rightarrow> rstr \<Rightarrow> rstr \<Rightarrow> service \<Rightarrow> nat result \<times> service" where
  "cancel_pending_for_session envs session_id reason sv =
     cancel_rows envs 0 reason 0
       (query_pending_permissions_for_subject (lit ''acp'') session_id 1000 (sv_store sv)) sv"

definition approve_by_policy ::
  "(rstr \<Rightarrow> bool) \<Rightarrow> tx_env \<Rightarrow> rstr \<Rightarrow> new_permission_request \<Rightarrow> service
     \<Rightarrow> (permission_request \<times> permission_decision) result \<times> service" where
  "approve_by_policy json_valid e decision_key input sv =
     (case append_approved_permission_request json_valid (tx_ok e) (tx_key e) decision_key (tx_now e)
             (input\<lparr>np_expires_at := None\<rparr>) (Some (lit ''policy'')) (Some (lit ''auto-approved by policy'')) (sv_store sv) of
        (res, st) \<Rightarrow> (res, sv\<lparr>sv_store := st\<rparr>))"

section \<open>Interleaving\<close>

inductive service_step ::
  "(rstr \<Rightarrow> bool) \<Rightarrow> permission_timeout_action \<Rightarrow> service \<Rightarrow> service \<Rightarrow> bool" for json_valid action where
  step_insert: "np_source input \<in> {lit ''acp'', lit ''command''} \<Longrightarrow>
     service_step json_valid action sv (snd (insert_request json_valid e input sv))"
| step_register: "Register key \<in> set (sv_tasks sv) \<Longrightarrow> service_step json_valid action sv (register_waiter key sv)"
| step_recheck: "Recheck key \<in> set (sv_tasks sv) \<Longrightarrow>
     service_step json_valid action sv (recheck_request read_ok key sv)"
| step_settle: "Settle key outcome \<in> set (sv_tasks sv) \<Longrightarrow>
     service_step json_valid action sv (settle_waiter key outcome sv)"
| step_decide: "service_step json_valid action sv (snd (decide_commit e key outcome who reason sv))"
| step_fire: "Fire key outcome \<in> set (sv_tasks sv) \<Longrightarrow>
     service_step json_valid action sv (fire_waiter key outcome sv)"
| step_timer: "Timer key \<in> set (sv_tasks sv) \<Longrightarrow>
     service_step json_valid action sv (timer_elapsed action e key sv)"
| step_rescue: "Rescue key \<in> set (sv_tasks sv) \<Longrightarrow> service_step json_valid action sv (rescue_waiter key sv)"
| step_policy: "np_source input \<in> {lit ''acp'', lit ''command''} \<Longrightarrow>
     service_step json_valid action sv (snd (approve_by_policy json_valid e decision_key input sv))"
| step_other: "service_step json_valid action sv
     (sv\<lparr>sv_store := (sv_store sv)\<lparr>ps_sessions := ss, ps_change_seq := n, ps_outbox := ob\<rparr>\<rparr>)"
| step_restart: "service_step json_valid action sv
     \<lparr>sv_store = snd (reconcile_orphaned_permissions db next_id now (sv_store sv)),
      sv_pending = {}, sv_answers = Map.empty, sv_tasks = []\<rparr>"

definition service_init :: "service \<Rightarrow> bool" where
  "service_init sv \<longleftrightarrow> store_init (sv_store sv) \<and> sv_pending sv = {} \<and> sv_answers sv = Map.empty \<and> sv_tasks sv = []"

section \<open>The store under the service\<close>

lemma decide_ok:
  assumes "decide_permission db dk now decided_at key s who reason st = (Inr d, st')"
  obtains r where "find_request key st = Some r" "\<not> is_terminal (from_wire (pr_status r))"
    "\<And>k. find_request k st' = (if k = key then Some (r\<lparr>pr_status := as_str s, pr_updated_at := now\<rparr>) else find_request k st)"
proof (cases "find_request key st")
  case None
  then show ?thesis using assms by (auto simp: decide_permission_def split: if_splits)
next
  case (Some r)
  then have "\<not> is_terminal (from_wire (pr_status r))" "ps_requests st' = ps_requests (set_status key s now st)"
    using assms by (auto simp: decide_permission_def Let_def split: if_splits)
  moreover have "find_request k st' = (if k = key then Some (r\<lparr>pr_status := as_str s, pr_updated_at := now\<rparr>) else find_request k st)" for k
    using Some find_request_rows [OF calculation(2), of k] by (simp add: option.map_ident)
  ultimately show ?thesis using that Some by blast
qed

lemma append_rows:
  "find_request k st = Some r \<Longrightarrow>
   find_request k (snd (append_permission_request json_valid db key now input st)) = Some r"
  "find_request k st = Some r \<Longrightarrow>
   find_request k (snd (append_approved_permission_request json_valid db key dk now input who reason st)) = Some r"
  by (simp_all add: append_permission_request_def append_approved_permission_request_def Let_def
      find_request_def find_append)

lemma as_status_settled [simp]: "as_status outcome \<noteq> PPending"
  by (cases outcome) simp_all

text \<open>Every step of the service is a transaction of the store, or leaves the store alone.\<close>

lemma service_step_store:
  "service_step json_valid action sv sv' \<Longrightarrow> (store_step json_valid)\<^sup>*\<^sup>* (sv_store sv) (sv_store sv')"
proof (induction rule: service_step.induct)
  case (step_insert input sv e)
  then show ?case
    using store_step.append [of input json_valid "sv_store sv" "tx_ok e" "tx_key e" "tx_now e"]
    by (cases "append_permission_request json_valid (tx_ok e) (tx_key e) (tx_now e) input (sv_store sv)")
      (auto simp: insert_request_def spawn_def split: sum.split)
next
  case (step_decide sv e key outcome who reason)
  then show ?case
    using store_step.decide [OF as_status_settled, of json_valid "sv_store sv" "tx_ok e" "tx_key e" "tx_now e" "tx_decided_at e" key outcome "Some who" reason]
    by (cases "decide_permission (tx_ok e) (tx_key e) (tx_now e) (tx_decided_at e) key (as_status outcome) (Some who) reason (sv_store sv)")
      (auto simp: decide_commit_def spawn_def split: sum.split)
next
  case (step_timer key sv e)
  then show ?case
    using store_step.decide [OF as_status_settled, of json_valid "sv_store sv" "tx_ok e" "tx_key e" "tx_now e" "tx_decided_at e" key "timeout_outcome action" "Some (lit ''system'')" "Some (lit ''timeout'')"]
    by (cases "decide_permission (tx_ok e) (tx_key e) (tx_now e) (tx_decided_at e) key (as_status (timeout_outcome action)) (Some (lit ''system'')) (Some (lit ''timeout'')) (sv_store sv)")
      (auto simp: timer_elapsed_def decide_commit_def spawn_def finish_def Let_def split: sum.split stack_error.split)
next
  case (step_policy input sv e decision_key)
  then show ?case
    using store_step.append_approved [of "input\<lparr>np_expires_at := None\<rparr>" json_valid "sv_store sv" "tx_ok e" "tx_key e" decision_key "tx_now e"
        "Some (lit ''policy'')" "Some (lit ''auto-approved by policy'')"]
    by (auto simp: approve_by_policy_def split: prod.split)
next
  case (step_other sv ob n ss)
  show ?case by (rule r_into_rtranclp) (simp add: store_step.other_tables)
next
  case (step_restart sv db next_id now)
  show ?case by (rule r_into_rtranclp) (simp add: store_step.reconcile)
qed (auto simp: register_waiter_def recheck_request_def settle_waiter_def fire_waiter_def rescue_waiter_def
    answer_waiter_def spawn_def finish_def Let_def split: option.split)

section \<open>The invariant\<close>

definition responsible :: "pstore \<Rightarrow> task set \<Rightarrow> rstr \<Rightarrow> bool" where
  "responsible st ts key \<longleftrightarrow> Recheck key \<in> ts \<or> Rescue key \<in> ts \<or> (\<exists>outcome. Settle key outcome \<in> ts) \<or>
     (\<exists>outcome. Fire key outcome \<in> ts) \<or> Timer key \<in> ts \<and> pending_in st key"

fun task_key :: "task \<Rightarrow> rstr" where
  "task_key (Register key) = key"
| "task_key (Recheck key) = key"
| "task_key (Settle key outcome) = key"
| "task_key (Timer key) = key"
| "task_key (Fire key outcome) = key"
| "task_key (Rescue key) = key"

lemma responsible_mono:
  assumes "responsible st ts key" and "\<And>t. t \<in> ts \<Longrightarrow> task_key t = key \<Longrightarrow> t \<in> ts'"
    and "pending_in st key \<Longrightarrow> pending_in st' key"
  shows "responsible st' ts' key"
  using assms unfolding responsible_def by fastforce

definition has_status :: "pstore \<Rightarrow> rstr \<Rightarrow> permission_status \<Rightarrow> bool" where
  "has_status st key s \<longleftrightarrow> (\<exists>r. find_request key st = Some r \<and> pr_status r = as_str s)"

definition tasks_ok :: "service \<Rightarrow> bool" where
  "tasks_ok sv \<longleftrightarrow>
     (\<forall>key \<in> sv_pending sv. responsible (sv_store sv) (set (sv_tasks sv)) key) \<and>
     (\<forall>key outcome. Fire key outcome \<in> set (sv_tasks sv) \<longrightarrow> has_status (sv_store sv) key (as_status outcome)) \<and>
     (\<forall>key outcome. Settle key outcome \<in> set (sv_tasks sv) \<longrightarrow> as_status outcome \<noteq> PApproved) \<and>
     (\<forall>key outcome. sv_answers sv key = Some outcome \<longrightarrow> as_status outcome = PApproved \<longrightarrow>
        has_status (sv_store sv) key PApproved)"

definition service_inv :: "service \<Rightarrow> bool" where
  "service_inv sv \<longleftrightarrow> audit_ok (sv_store sv) \<and> tasks_ok sv"

lemma has_status_kept:
  assumes "(store_step json_valid)\<^sup>*\<^sup>* st st'" and "audit_ok st" and "has_status st key s" and "s \<noteq> PPending"
  shows "has_status st' key s"
  using assms settled_steps [OF assms(1,2), of key] by (auto simp: has_status_def settled_def is_terminal_def)


lemma in_remove1: "t' \<noteq> t \<Longrightarrow> t' \<in> set (remove1 t ts) \<longleftrightarrow> t' \<in> set ts"
  by (simp add: in_set_remove1)

lemma service_fields [simp]:
  "sv_store (spawn t sv) = sv_store sv" "sv_pending (spawn t sv) = sv_pending sv" "sv_answers (spawn t sv) = sv_answers sv"
  "sv_tasks (spawn t sv) = sv_tasks sv @ [t]"
  "sv_store (finish t sv) = sv_store sv" "sv_pending (finish t sv) = sv_pending sv" "sv_answers (finish t sv) = sv_answers sv"
  "sv_tasks (finish t sv) = remove1 t (sv_tasks sv)"
  "sv_store (answer_waiter key outcome sv) = sv_store sv" "sv_tasks (answer_waiter key outcome sv) = sv_tasks sv"
  "sv_pending (answer_waiter key outcome sv) = sv_pending sv - {key}"
  by (simp_all add: spawn_def finish_def answer_waiter_def)

lemma answers_answer:
  "sv_answers (answer_waiter key outcome sv) k = Some o' \<Longrightarrow> sv_answers sv k = Some o' \<or> k = key \<and> o' = outcome"
  by (auto simp: answer_waiter_def split: if_splits)

text \<open>The obligations of one step, given what it does to the tasks.\<close>

lemma tasks_ok_intro:
  assumes inv: "service_inv sv" and store: "(store_step json_valid)\<^sup>*\<^sup>* (sv_store sv) (sv_store sv')"
    and pending: "\<And>key. key \<in> sv_pending sv' \<Longrightarrow> responsible (sv_store sv') (set (sv_tasks sv')) key"
    and fire: "\<And>key outcome. Fire key outcome \<in> set (sv_tasks sv') \<Longrightarrow>
      Fire key outcome \<in> set (sv_tasks sv) \<or> has_status (sv_store sv') key (as_status outcome)"
    and settle: "\<And>key outcome. Settle key outcome \<in> set (sv_tasks sv') \<Longrightarrow>
      Settle key outcome \<in> set (sv_tasks sv) \<or> as_status outcome \<noteq> PApproved"
    and ans: "\<And>key outcome. sv_answers sv' key = Some outcome \<Longrightarrow> as_status outcome = PApproved \<Longrightarrow>
      sv_answers sv key = Some outcome \<or> has_status (sv_store sv') key PApproved"
  shows "service_inv sv'"
proof -
  have audit: "audit_ok (sv_store sv)" using inv by (simp add: service_inv_def)
  have kept: "has_status (sv_store sv) key s \<Longrightarrow> s \<noteq> PPending \<Longrightarrow> has_status (sv_store sv') key s" for key s
    using has_status_kept [OF store audit] .
  have "tasks_ok sv'"
    unfolding tasks_ok_def
  proof (intro conjI ballI allI impI)
    fix key outcome
    show "key \<in> sv_pending sv' \<Longrightarrow> responsible (sv_store sv') (set (sv_tasks sv')) key" by (rule pending)
    show "Fire key outcome \<in> set (sv_tasks sv') \<Longrightarrow> has_status (sv_store sv') key (as_status outcome)"
      using fire [of key outcome] kept inv by (auto simp: service_inv_def tasks_ok_def)
    show "Settle key outcome \<in> set (sv_tasks sv') \<Longrightarrow> as_status outcome \<noteq> PApproved"
      using settle [of key outcome] inv by (auto simp: service_inv_def tasks_ok_def)
    show "sv_answers sv' key = Some outcome \<Longrightarrow> as_status outcome = PApproved \<Longrightarrow> has_status (sv_store sv') key PApproved"
      using ans [of key outcome] kept [of key PApproved] inv by (auto simp: service_inv_def tasks_ok_def)
  qed
  then show ?thesis using pst.steps_inv [OF store] audit by (simp add: service_inv_def)
qed

lemma waiting_responsible:
  "service_inv sv \<Longrightarrow> key \<in> sv_pending sv \<Longrightarrow> responsible (sv_store sv) (set (sv_tasks sv)) key"
  by (simp add: service_inv_def tasks_ok_def)

lemma raced_not_approved: "raced_outcome s = Some outcome \<Longrightarrow> as_status outcome \<noteq> PApproved"
  by (cases s) auto

lemma raced_None: "raced_outcome s = None \<longleftrightarrow> s = PPending"
  by (cases s) simp_all

lemma decide_commit_cases:
  obtains (failed) err where "decide_commit e key outcome who reason sv = (Inl err, sv)"
      "\<And>a b c. err = InvalidPermissionTransition a b c \<Longrightarrow> \<not> pending_in (sv_store sv) key"
  | (committed) d st where "decide_commit e key outcome who reason sv = (Inr d, spawn (Fire key outcome) (sv\<lparr>sv_store := st\<rparr>))"
      "has_status st key (as_status outcome)" "\<And>k. k \<noteq> key \<Longrightarrow> pending_in (sv_store sv) k \<Longrightarrow> pending_in st k"
proof (cases "decide_permission (tx_ok e) (tx_key e) (tx_now e) (tx_decided_at e) key (as_status outcome) (Some who) reason (sv_store sv)")
  case (Pair res st)
  show ?thesis
  proof (cases res)
    case (Inl err)
    have "\<not> pending_in (sv_store sv) key" if "err = InvalidPermissionTransition a b c" for a b c
      using Pair Inl that
      by (auto simp: decide_permission_def pending_in_def Let_def split: if_splits option.splits)
    then show ?thesis using failed [of err] Pair Inl by (simp add: decide_commit_def)
  next
    case (Inr d)
    then obtain r where "find_request key (sv_store sv) = Some r"
      "\<And>k. find_request k st = (if k = key then Some (r\<lparr>pr_status := as_str (as_status outcome), pr_updated_at := tx_now e\<rparr>) else find_request k (sv_store sv))"
      using decide_ok Pair by metis
    then show ?thesis using committed [of d st] Pair Inr by (simp add: decide_commit_def has_status_def pending_in_def)
  qed
qed


lemma step_decide_inv:
  assumes "service_inv sv"
  shows "service_inv (snd (decide_commit e key outcome who reason sv))"
proof (cases rule: decide_commit_cases [of e key outcome who reason sv])
  case (failed err)
  then show ?thesis using assms by simp
next
  case (committed d st)
  let ?sv = "spawn (Fire key outcome) (sv\<lparr>sv_store := st\<rparr>)"
  have "service_inv ?sv"
  proof (rule tasks_ok_intro [OF assms, where json_valid = "\<lambda>_. True"])
    show "(store_step (\<lambda>_. True))\<^sup>*\<^sup>* (sv_store sv) (sv_store ?sv)"
      using service_step_store [OF service_step.step_decide [of _ TimeoutDeny sv e key outcome who reason]] committed(1) by simp
    fix k assume "k \<in> sv_pending ?sv"
    then have "responsible (sv_store sv) (set (sv_tasks sv)) k" using waiting_responsible [OF assms] by simp
    then show "responsible (sv_store ?sv) (set (sv_tasks ?sv)) k"
      by (cases "k = key") (use committed(3) in \<open>auto simp: responsible_def\<close>)
  qed (use committed(2) in \<open>auto\<close>)
  then show ?thesis using committed(1) by simp
qed

lemma responsible_finish:
  assumes "responsible st (set ts) k" and "task_key t \<noteq> k"
  shows "responsible st (set (remove1 t ts)) k"
proof (rule responsible_mono [OF assms(1)])
  fix t' assume "t' \<in> set ts" "task_key t' = k"
  moreover from this have "t' \<noteq> t" using assms(2) by auto
  ultimately show "t' \<in> set (remove1 t ts)" by (simp add: in_set_remove1)
qed

lemma responsible_more: "responsible st ts k \<Longrightarrow> ts \<subseteq> ts' \<Longrightarrow> responsible st ts' k"
  by (erule responsible_mono) auto

lemma answer_inv:
  assumes inv: "service_inv sv" and t: "task_key t = key"
    and ok: "as_status outcome = PApproved \<Longrightarrow> has_status (sv_store sv) key PApproved"
  shows "service_inv (answer_waiter key outcome (finish t sv))"
proof (rule tasks_ok_intro [OF inv, where json_valid = "\<lambda>_. True"])
  let ?sv = "answer_waiter key outcome (finish t sv)"
  fix k assume k: "k \<in> sv_pending ?sv"
  then show "responsible (sv_store ?sv) (set (sv_tasks ?sv)) k"
    using responsible_finish [OF waiting_responsible [OF inv], of k t] t by auto
next
  fix k outcome'
  assume "sv_answers (answer_waiter key outcome (finish t sv)) k = Some outcome'" "as_status outcome' = PApproved"
  then show "sv_answers sv k = Some outcome' \<or> has_status (sv_store (answer_waiter key outcome (finish t sv))) k PApproved"
    using answers_answer ok by fastforce
qed (auto dest: set_mp [OF set_remove1_subset])

lemma spawn_timer_inv:
  assumes "service_inv sv"
  shows "service_inv (spawn (Timer key) sv)"
  by (rule tasks_ok_intro [OF assms, where json_valid = "\<lambda>_. True"])
    (use waiting_responsible [OF assms] in \<open>auto intro: responsible_more\<close>)

lemma step_recheck_inv:
  assumes "service_inv sv"
  shows "service_inv (recheck_request read_ok key sv)"
proof -
  have others: "responsible (sv_store sv) (insert t (set (remove1 (Recheck key) (sv_tasks sv)))) k"
    if "k \<in> sv_pending sv" "k \<noteq> key" for k t
    by (rule responsible_more [OF responsible_finish [OF waiting_responsible [OF assms that(1)]]]) (use that(2) in auto)
  have spawned: "service_inv (spawn t (finish (Recheck key) sv))"
    if "t = Timer key \<and> pending_in (sv_store sv) key \<or> t = Settle key outcome \<and> as_status outcome \<noteq> PApproved" for t outcome
  proof (rule tasks_ok_intro [OF assms, where json_valid = "\<lambda>_. True"])
    fix k assume "k \<in> sv_pending (spawn t (finish (Recheck key) sv))"
    then show "responsible (sv_store (spawn t (finish (Recheck key) sv))) (set (sv_tasks (spawn t (finish (Recheck key) sv)))) k"
      using others [of k t] that by (cases "k = key") (auto simp: responsible_def)
  qed (use that in \<open>auto dest: set_mp [OF set_remove1_subset]\<close>)
  show ?thesis
  proof (cases "if read_ok then find_request key (sv_store sv) else None")
    case None
    then show ?thesis using spawned [of "Settle key Expired" Expired] by (simp add: recheck_request_def Let_def)
  next
    case (Some r)
    then have f: "find_request key (sv_store sv) = Some r" by (simp split: if_splits)
    show ?thesis
    proof (cases "raced_outcome (from_wire (pr_status r))")
      case None
      then have "pending_in (sv_store sv) key" using f by (simp add: pending_in_def is_terminal_def raced_None)
      then show ?thesis using spawned [of "Timer key"] Some None by (simp add: recheck_request_def Let_def)
    next
      case (Some outcome)
      then show ?thesis
        using spawned [of "Settle key outcome" outcome] \<open>(if read_ok then _ else None) = Some r\<close> raced_not_approved [OF Some]
        by (simp add: recheck_request_def Let_def)
    qed
  qed
qed


lemma store_grows_inv:
  assumes inv: "service_inv sv" and store: "(store_step json_valid)\<^sup>*\<^sup>* (sv_store sv) st"
    and kept: "\<And>k r. find_request k (sv_store sv) = Some r \<Longrightarrow> find_request k st = Some r"
  shows "service_inv (sv\<lparr>sv_store := st\<rparr>)"
proof (rule tasks_ok_intro [OF inv])
  show "(store_step json_valid)\<^sup>*\<^sup>* (sv_store sv) (sv_store (sv\<lparr>sv_store := st\<rparr>))" using store by simp
  fix k assume "k \<in> sv_pending (sv\<lparr>sv_store := st\<rparr>)"
  then have "responsible (sv_store sv) (set (sv_tasks sv)) k" using waiting_responsible [OF inv] by simp
  then show "responsible (sv_store (sv\<lparr>sv_store := st\<rparr>)) (set (sv_tasks (sv\<lparr>sv_store := st\<rparr>))) k"
    by (rule responsible_mono) (use kept in \<open>auto simp: pending_in_def\<close>)
qed auto

lemma spawn_register_inv:
  assumes "service_inv sv"
  shows "service_inv (spawn (Register key) sv)"
  by (rule tasks_ok_intro [OF assms, where json_valid = "\<lambda>_. True"])
    (use waiting_responsible [OF assms] in \<open>auto intro: responsible_more\<close>)

lemma step_register_inv:
  assumes "service_inv sv"
  shows "service_inv (register_waiter key sv)"
proof (rule tasks_ok_intro [OF assms, where json_valid = "\<lambda>_. True"])
  fix k assume k: "k \<in> sv_pending (register_waiter key sv)"
  show "responsible (sv_store (register_waiter key sv)) (set (sv_tasks (register_waiter key sv))) k"
  proof (cases "k = key")
    case True
    then show ?thesis by (simp add: responsible_def register_waiter_def)
  next
    case False
    then have "responsible (sv_store sv) (set (remove1 (Register key) (sv_tasks sv))) k"
      using k responsible_finish [OF waiting_responsible [OF assms], of k "Register key"] by (simp add: register_waiter_def)
    then show ?thesis by (rule responsible_mono) (auto simp: register_waiter_def)
  qed
qed (auto simp: register_waiter_def dest: set_mp [OF set_remove1_subset])

lemma step_timer_inv:
  assumes inv: "service_inv sv"
  shows "service_inv (timer_elapsed action e key sv)"
proof -
  let ?sv = "finish (Timer key) sv"
  have drop: "service_inv (spawn t ?sv)" if "t = Rescue key" for t
  proof (rule tasks_ok_intro [OF inv, where json_valid = "\<lambda>_. True"])
    fix k assume "k \<in> sv_pending (spawn t ?sv)"
    then have "responsible (sv_store sv) (set (sv_tasks sv)) k" using waiting_responsible [OF inv] by simp
    then show "responsible (sv_store (spawn t ?sv)) (set (sv_tasks (spawn t ?sv))) k"
      by (cases "k = key") (use that in \<open>auto simp: responsible_def in_remove1\<close>)
  qed (use that in \<open>auto dest: set_mp [OF set_remove1_subset]\<close>)
  have quiet: "service_inv ?sv" if "\<not> pending_in (sv_store sv) key"
  proof (rule tasks_ok_intro [OF inv, where json_valid = "\<lambda>_. True"])
    fix k assume k: "k \<in> sv_pending ?sv"
    then have "responsible (sv_store sv) (set (sv_tasks sv)) k" using waiting_responsible [OF inv] by simp
    then show "responsible (sv_store ?sv) (set (sv_tasks ?sv)) k"
      using responsible_finish [of "sv_store sv" "sv_tasks sv" k "Timer key"] that
      by (cases "k = key") (auto simp: responsible_def in_remove1)
  qed (auto dest: set_mp [OF set_remove1_subset])
  show ?thesis
  proof (cases rule: decide_commit_cases [of e key "timeout_outcome action" "lit ''system''" "Some (lit ''timeout'')" ?sv])
    case (failed err)
    then show ?thesis
      using drop [of "Rescue key"] quiet by (cases err) (auto simp: timer_elapsed_def Let_def)
  next
    case (committed d st)
    have "service_inv (spawn (Fire key (timeout_outcome action)) (?sv\<lparr>sv_store := st\<rparr>))" (is "service_inv ?sv'")
    proof (rule tasks_ok_intro [OF inv, where json_valid = "\<lambda>_. True"])
      show "(store_step (\<lambda>_. True))\<^sup>*\<^sup>* (sv_store sv) (sv_store ?sv')"
        using service_step_store [OF service_step.step_decide [of _ TimeoutDeny ?sv e key "timeout_outcome action" "lit ''system''" "Some (lit ''timeout'')"]]
          committed(1) by simp
      fix k assume "k \<in> sv_pending ?sv'"
      then have "responsible (sv_store sv) (set (sv_tasks sv)) k" using waiting_responsible [OF inv] by simp
      then show "responsible (sv_store ?sv') (set (sv_tasks ?sv')) k"
        by (cases "k = key") (use committed(3) in \<open>auto simp: responsible_def in_remove1\<close>)
    qed (use committed(2) in \<open>auto dest: set_mp [OF set_remove1_subset]\<close>)
    then show ?thesis using committed(1) by (simp add: timer_elapsed_def Let_def)
  qed
qed

lemma fire_has_status:
  "service_inv sv \<Longrightarrow> Fire key outcome \<in> set (sv_tasks sv) \<Longrightarrow> has_status (sv_store sv) key (as_status outcome)"
  by (simp add: service_inv_def tasks_ok_def)

lemma settle_not_approved:
  "service_inv sv \<Longrightarrow> Settle key outcome \<in> set (sv_tasks sv) \<Longrightarrow> as_status outcome \<noteq> PApproved"
  by (simp add: service_inv_def tasks_ok_def)

lemma service_step_inv:
  "service_step json_valid action sv sv' \<Longrightarrow> service_inv sv \<Longrightarrow> service_inv sv'"
proof (induction rule: service_step.induct)
  case (step_insert input sv e)
  then have store: "(store_step json_valid)\<^sup>*\<^sup>* (sv_store sv) (sv_store (snd (insert_request json_valid e input sv)))"
    using service_step_store service_step.step_insert by blast
  show ?case
  proof (cases "append_permission_request json_valid (tx_ok e) (tx_key e) (tx_now e) input (sv_store sv)")
    case (Pair res st)
    then show ?thesis
      using store step_insert.prems store_grows_inv [of sv json_valid st] spawn_register_inv
        append_rows(1) [of _ "sv_store sv" _ json_valid "tx_ok e" "tx_key e" "tx_now e" input]
      by (cases res) (simp_all add: insert_request_def)
  qed
next
  case (step_register key sv)
  then show ?case by (intro step_register_inv)
next
  case (step_recheck key sv read_ok)
  then show ?case by (intro step_recheck_inv)
next
  case (step_settle key outcome sv)
  then show ?case
    unfolding settle_waiter_def by (intro spawn_timer_inv answer_inv) (auto dest: settle_not_approved)
next
  case (step_decide sv e key outcome who reason)
  then show ?case by (rule step_decide_inv)
next
  case (step_fire key outcome sv)
  then show ?case
    unfolding fire_waiter_def by (intro answer_inv) (auto dest: fire_has_status)
next
  case (step_timer key sv e)
  then show ?case by (intro step_timer_inv)
next
  case (step_rescue key sv)
  then show ?case unfolding rescue_waiter_def by (intro answer_inv) auto
next
  case (step_policy input sv e decision_key)
  have eq: "snd (approve_by_policy json_valid e decision_key input sv) = sv\<lparr>sv_store := snd (append_approved_permission_request
      json_valid (tx_ok e) (tx_key e) decision_key (tx_now e) (input\<lparr>np_expires_at := None\<rparr>) (Some (lit ''policy''))
      (Some (lit ''auto-approved by policy'')) (sv_store sv))\<rparr>"
    by (simp add: approve_by_policy_def case_prod_unfold)
  show ?case
    unfolding eq by (rule store_grows_inv [OF step_policy.prems, of json_valid])
      (use step_policy.hyps in \<open>auto intro!: r_into_rtranclp store_step.append_approved append_rows(2)\<close>)
next
  case (step_other sv ob n ss)
  then show ?case
    using store_grows_inv [OF step_other service_step_store [OF service_step.step_other [of json_valid action sv ob n ss]]]
    by (simp add: find_request_def)
next
  case (step_restart sv db next_id now)
  then show ?case using reconcile_audit by (simp add: service_inv_def tasks_ok_def)
qed

interpretation psv: invariant_system service_init "service_step json_valid action" service_inv for json_valid action
  by unfold_locales
    (simp add: service_init_def service_inv_def tasks_ok_def pst.init_inv, erule (1) service_step_inv [rotated])


section \<open>Cancelling a session\<close>

definition fresh_keys :: "(nat \<Rightarrow> tx_env) \<Rightarrow> nat \<Rightarrow> pstore \<Rightarrow> bool" where
  "fresh_keys envs n st \<longleftrightarrow> (\<forall>i \<ge> n. tx_ok (envs i) \<and> \<not> has_decision (tx_key (envs i)) st \<and>
     (\<forall>j \<ge> n. tx_key (envs i) = tx_key (envs j) \<longrightarrow> i = j))"

lemma cancel_if_pending_wins:
  assumes "fresh_keys envs n (sv_store sv)" and "find_request key (sv_store sv) = Some r"
    and "\<not> is_terminal (from_wire (pr_status r))"
  obtains sv' where "cancel_if_pending (envs n) key reason sv = (Inr True, sv')"
    "fresh_keys envs (Suc n) (sv_store sv')"
    "\<And>k. find_request k (sv_store sv') = (if k = key
       then Some (r\<lparr>pr_status := as_str PCanceled, pr_updated_at := tx_now (envs n)\<rparr>) else find_request k (sv_store sv))"
proof -
  let ?dec = "decide_permission (tx_ok (envs n)) (tx_key (envs n)) (tx_now (envs n)) (tx_decided_at (envs n)) key PCanceled
    (Some (lit ''system'')) (Some reason) (sv_store sv)"
  have env: "tx_ok (envs n)" "\<not> has_decision (tx_key (envs n)) (sv_store sv)"
    using assms(1) by (auto simp: fresh_keys_def)
  obtain d where d: "?dec = (Inr d, snd ?dec)" "pd_id d = tx_key (envs n)" "ps_decisions (snd ?dec) = ps_decisions (sv_store sv) @ [d]"
    using env assms(2,3) by (simp add: decide_permission_def Let_def)
  define sv' where "sv' = snd (cancel_if_pending (envs n) key reason sv)"
  have res: "cancel_if_pending (envs n) key reason sv = (Inr True, sv')" "sv_store sv' = snd ?dec"
    using d(1) unfolding sv'_def
    by (cases ?dec; simp add: cancel_if_pending_def cancel_request_def decide_and_publish_def decide_commit_def fire_waiter_def)+
  obtain r' where r': "find_request key (sv_store sv) = Some r'"
    "\<And>k. find_request k (snd ?dec) = (if k = key then Some (r'\<lparr>pr_status := as_str PCanceled, pr_updated_at := tx_now (envs n)\<rparr>)
       else find_request k (sv_store sv))"
    using decide_ok [OF d(1)] by metis
  have dec: "has_decision k (snd ?dec) \<longleftrightarrow> has_decision k (sv_store sv) \<or> k = tx_key (envs n)" for k
    unfolding has_decision_def d(3) using d(2) by auto
  have "tx_key (envs i) \<noteq> tx_key (envs n)" if "Suc n \<le> i" for i
  proof
    assume "tx_key (envs i) = tx_key (envs n)"
    then have "i = n" using assms(1) that unfolding fresh_keys_def by (meson Suc_leD order_refl)
    then show False using that by simp
  qed
  then have "fresh_keys envs (Suc n) (snd ?dec)"
    using assms(1) unfolding fresh_keys_def dec by (meson Suc_leD)
  then show ?thesis using that res r' assms(2) by simp
qed

lemma cancel_rows_result:
  assumes "fresh_keys envs n (sv_store sv)" and "distinct (map pr_id rows)"
    and "\<forall>row \<in> set rows. pending_in (sv_store sv) (pr_id row)"
  shows "\<exists>sv'. cancel_rows envs n reason m rows sv = (Inr (m + length rows), sv') \<and>
    (\<forall>k. if k \<in> pr_id ` set rows then has_status (sv_store sv') k PCanceled
         else find_request k (sv_store sv') = find_request k (sv_store sv))"
  using assms
proof (induction rows arbitrary: n m sv)
  case Nil
  then show ?case by simp
next
  case (Cons row rows)
  obtain r where r: "find_request (pr_id row) (sv_store sv) = Some r" "\<not> is_terminal (from_wire (pr_status r))"
    using Cons.prems(3) by (auto simp: pending_in_def)
  obtain sv1 where sv1: "cancel_if_pending (envs n) (pr_id row) reason sv = (Inr True, sv1)"
    "fresh_keys envs (Suc n) (sv_store sv1)"
    "\<And>k. find_request k (sv_store sv1) = (if k = pr_id row
       then Some (r\<lparr>pr_status := as_str PCanceled, pr_updated_at := tx_now (envs n)\<rparr>) else find_request k (sv_store sv))"
    using cancel_if_pending_wins [OF Cons.prems(1) r] by metis
  have "\<forall>row' \<in> set rows. pending_in (sv_store sv1) (pr_id row')"
    using Cons.prems(2,3) sv1(3) by (auto simp: pending_in_def image_iff)
  then obtain sv' where sv': "cancel_rows envs (Suc n) reason (m + 1) rows sv1 = (Inr (m + 1 + length rows), sv')"
    "\<forall>k. if k \<in> pr_id ` set rows then has_status (sv_store sv') k PCanceled
         else find_request k (sv_store sv') = find_request k (sv_store sv1)"
    using Cons.IH [OF sv1(2)] Cons.prems(2) by fastforce
  have "has_status (sv_store sv') (pr_id row) PCanceled"
    using sv'(2) Cons.prems(2) sv1(3) [of "pr_id row"] by (auto simp: has_status_def dest: spec [of _ "pr_id row"])
  then show ?case using sv1(1,3) sv' by auto
qed


section \<open>Properties\<close>

text \<open>
  C24: No waiter is orphaned.  Whatever the interleaving of requests, deciders, timers and failing
  transactions, a registered waiter always has a call that is about to answer it, or its request is
  still pending and its expiry timer is armed.
\<close>

theorem no_waiter_orphaned:
  assumes "reachable service_init (service_step json_valid action) sv" and "key \<in> sv_pending sv"
  shows "(\<exists>t \<in> set (sv_tasks sv). (\<exists>outcome. t \<in> {Recheck key, Rescue key, Settle key outcome, Fire key outcome})) \<or>
    Timer key \<in> set (sv_tasks sv) \<and> (\<exists>r. find_request key (sv_store sv) = Some r \<and> from_wire (pr_status r) = PPending)"
  using waiting_responsible [OF psv.reachable_inv [OF assms(1)] assms(2)]
  by (auto simp: responsible_def pending_in_def is_terminal_def)

definition ok_tx :: "rstr \<Rightarrow> tx_env" where
  "ok_tx key = \<lparr>tx_ok = True, tx_key = key, tx_now = lit ''t'', tx_decided_at = lit ''t''\<rparr>"

definition empty_service :: service where
  "empty_service = \<lparr>sv_store = empty_store, sv_pending = {}, sv_answers = Map.empty, sv_tasks = []\<rparr>"

text \<open>A request whose waiter is registered, and the same request approved before its re-read.\<close>

definition sample_waiting :: service where
  "sample_waiting = register_waiter (lit ''perm_1'')
     (snd (insert_request (\<lambda>_. True) (ok_tx (lit ''perm_1'')) sample_request empty_service))"

definition sample_raced :: service where
  "sample_raced = snd (decide_commit (ok_tx (lit ''pdec_1'')) (lit ''perm_1'') (Approved None None) (lit ''admin'') None sample_waiting)"

definition sample_approved :: service where
  "sample_approved = fire_waiter (lit ''perm_1'') (Approved None None) sample_raced"

lemmas service_sample_defs = sample_approved_def sample_raced_def sample_waiting_def empty_service_def ok_tx_def
  insert_request_def register_waiter_def decide_commit_def fire_waiter_def answer_waiter_def spawn_def finish_def

lemma service_sample_reachable:
  "reachable service_init (service_step (\<lambda>_. True) action) sample_waiting"
  "reachable service_init (service_step (\<lambda>_. True) action) sample_approved"
proof -
  let ?R = "reachable service_init (service_step (\<lambda>_. True) action)"
  have "?R empty_service"
    by (rule reachable_init) (simp add: service_init_def store_init_def empty_service_def empty_store_def)
  then have i: "?R (snd (insert_request (\<lambda>_. True) (ok_tx (lit ''perm_1'')) sample_request empty_service))"
    by (rule reachable_step) (rule service_step.step_insert, simp add: sample_request_def)
  show w: "?R sample_waiting"
    unfolding sample_waiting_def
    by (rule reachable_step [OF i service_step.step_register]) (simp add: service_sample_defs sample_defs Let_def)
  have r: "?R sample_raced"
    unfolding sample_raced_def by (rule reachable_step [OF w service_step.step_decide])
  show "?R sample_approved"
    unfolding sample_approved_def
    by (rule reachable_step [OF r service_step.step_fire]) (simp add: service_sample_defs sample_defs Let_def)
qed

theorem no_waiter_orphaned_witness:
  "lit ''perm_1'' \<in> sv_pending sample_waiting \<and>
   ((\<exists>t \<in> set (sv_tasks sample_waiting). (\<exists>outcome. t \<in> {Recheck (lit ''perm_1''), Rescue (lit ''perm_1''),
       Settle (lit ''perm_1'') outcome, Fire (lit ''perm_1'') outcome})) \<or>
    Timer (lit ''perm_1'') \<in> set (sv_tasks sample_waiting) \<and>
      (\<exists>r. find_request (lit ''perm_1'') (sv_store sample_waiting) = Some r \<and> from_wire (pr_status r) = PPending))"
proof
  show w: "lit ''perm_1'' \<in> sv_pending sample_waiting" by (simp add: service_sample_defs)
  show "(\<exists>t \<in> set (sv_tasks sample_waiting). (\<exists>outcome. t \<in> {Recheck (lit ''perm_1''), Rescue (lit ''perm_1''),
       Settle (lit ''perm_1'') outcome, Fire (lit ''perm_1'') outcome})) \<or>
    Timer (lit ''perm_1'') \<in> set (sv_tasks sample_waiting) \<and>
      (\<exists>r. find_request (lit ''perm_1'') (sv_store sample_waiting) = Some r \<and> from_wire (pr_status r) = PPending)"
    using no_waiter_orphaned [OF service_sample_reachable(1) w] .
qed



text \<open>
  C26: An approval is durable before it acts.  A waiter that was answered with an approval has a
  request row that is approved, with exactly one decision, an approval.
\<close>

theorem approved_answer_is_durable:
  assumes "reachable service_init (service_step json_valid action) sv"
    and "sv_answers sv key = Some (Approved option_id reason)"
  shows "\<exists>r. find_request key (sv_store sv) = Some r \<and> pr_status r = as_str PApproved \<and>
    map pd_decision (decisions_of key (sv_store sv)) = [as_str PApproved]"
proof -
  have inv: "service_inv sv" using psv.reachable_inv assms(1) .
  have "as_status (Approved option_id reason) = PApproved" by simp
  then have "has_status (sv_store sv) key PApproved"
    using inv assms(2) unfolding service_inv_def tasks_ok_def by blast
  then obtain r where r: "find_request key (sv_store sv) = Some r" "pr_status r = as_str PApproved"
    unfolding has_status_def by blast
  have "row_audited (sv_store sv) r" using inv r(1) unfolding service_inv_def audit_ok_def by blast
  then show ?thesis
    using r find_request_Some [OF r(1)] by (simp add: row_audited_def is_terminal_def del: as_str.simps)
qed

theorem approved_answer_is_durable_witness:
  "sv_answers sample_approved (lit ''perm_1'') = Some (Approved None None) \<and>
   (\<exists>r. find_request (lit ''perm_1'') (sv_store sample_approved) = Some r \<and> pr_status r = as_str PApproved \<and>
     map pd_decision (decisions_of (lit ''perm_1'') (sv_store sample_approved)) = [as_str PApproved])"
proof
  show a: "sv_answers sample_approved (lit ''perm_1'') = Some (Approved None None)"
    by (simp add: service_sample_defs sample_defs Let_def)
  show "\<exists>r. find_request (lit ''perm_1'') (sv_store sample_approved) = Some r \<and> pr_status r = as_str PApproved \<and>
     map pd_decision (decisions_of (lit ''perm_1'') (sv_store sample_approved)) = [as_str PApproved]"
    using approved_answer_is_durable [OF service_sample_reachable(2) a] .
qed

text \<open>
  Cancelling a session settles its requests.  The sweep that ends a session's prompt cancels
  every request the session's agent has pending, up to the scan limit, reports their number, and
  touches no other request.
\<close>

theorem cancel_pending_for_session_settles:
  fixes session_id :: rstr
  assumes "reachable service_init (service_step json_valid action) sv" and "fresh_keys envs 0 (sv_store sv)"
  defines "rows \<equiv> query_pending_permissions_for_subject (lit ''acp'') session_id 1000 (sv_store sv)"
  shows "\<exists>sv'. cancel_pending_for_session envs session_id reason sv = (Inr (length rows), sv') \<and>
    (\<forall>k. if k \<in> pr_id ` set rows then has_status (sv_store sv') k PCanceled
         else find_request k (sv_store sv') = find_request k (sv_store sv))"
proof -
  have audit: "audit_ok (sv_store sv)" using psv.reachable_inv [OF assms(1)] by (simp add: service_inv_def)
  then have dist: "distinct (map pr_id (ps_requests (sv_store sv)))" by (simp add: audit_ok_def)
  let ?P = "\<lambda>r. pr_status r = lit ''pending'' \<and> pr_source r = lit ''acp'' \<and> pr_subject_id r = Some session_id"
  have sorted: "distinct (map pr_id (sort_key k (filter ?P (ps_requests (sv_store sv)))))" for k :: "permission_request \<Rightarrow> rstr \<times> rstr"
    using distinct_map_filter [OF dist, of ?P] by (simp add: distinct_map)
  then have "distinct (map pr_id rows)"
    unfolding rows_def query_pending_permissions_for_subject_def pending_rows_def take_map [symmetric] by (rule distinct_take)
  moreover have "pending_in (sv_store sv) (pr_id row)" if "row \<in> set rows" for row
  proof -
    have "row \<in> set (ps_requests (sv_store sv))" "pr_status row = as_str PPending"
      using that in_set_takeD by (fastforce simp: rows_def query_pending_permissions_for_subject_def pending_rows_def)+
    then show ?thesis using find_request_unique [OF dist, of row] by (auto simp: pending_in_def is_terminal_def simp del: as_str.simps)
  qed
  ultimately show ?thesis
    using cancel_rows_result [OF assms(2), of rows reason 0] by (simp add: cancel_pending_for_session_def rows_def)
qed

theorem cancel_pending_for_session_settles_witness:
  "\<exists>sv'. cancel_pending_for_session (\<lambda>n. ok_tx [n]) (lit ''s1'') (lit ''stop'')
     (snd (insert_request (\<lambda>_. True) (ok_tx (lit ''perm_1''))
       (sample_request\<lparr>np_source := lit ''acp'', np_subject_id := Some (lit ''s1'')\<rparr>) empty_service)) = (Inr 1, sv') \<and>
     has_status (sv_store sv') (lit ''perm_1'') PCanceled"
proof -
  let ?sv = "snd (insert_request (\<lambda>_. True) (ok_tx (lit ''perm_1''))
       (sample_request\<lparr>np_source := lit ''acp'', np_subject_id := Some (lit ''s1'')\<rparr>) empty_service)"
  have "reachable service_init (service_step (\<lambda>_. True) TimeoutDeny) empty_service"
    by (rule reachable_init) (simp add: service_init_def store_init_def empty_service_def empty_store_def)
  then have "reachable service_init (service_step (\<lambda>_. True) TimeoutDeny) ?sv"
    by (rule reachable_step) (rule service_step.step_insert, simp)
  moreover have "fresh_keys (\<lambda>n. ok_tx [n]) 0 (sv_store ?sv)"
    by (simp add: fresh_keys_def service_sample_defs sample_defs Let_def bump_session_change_def)
  moreover have "map pr_id (query_pending_permissions_for_subject (lit ''acp'') (lit ''s1'') 1000 (sv_store ?sv)) = [lit ''perm_1'']"
    by (simp add: query_pending_permissions_for_subject_def pending_rows_def service_sample_defs sample_defs Let_def bump_session_change_def)
  then obtain r where "query_pending_permissions_for_subject (lit ''acp'') (lit ''s1'') 1000 (sv_store ?sv) = [r]" "pr_id r = lit ''perm_1''"
    by auto
  ultimately show ?thesis
    using cancel_pending_for_session_settles [of "\<lambda>_. True" TimeoutDeny ?sv "\<lambda>n. ok_tx [n]" "lit ''s1''" "lit ''stop''"]
    by (auto split: if_splits)
qed

end
