(* ===== verification/Command_Gateway.thy ===== *)
theory Command_Gateway
  imports Command_Policy Paths Durations Permission_Service Command_Store
begin

text \<open>
  The command gateway (\<^verbatim>\<open>src/runtime/mediation/commands.rs\<close>) and the life of its supervisor task
  (\<^verbatim>\<open>src/runtime/mediation/commands/supervisor.rs\<close>): a submitted command is screened, gets a row, waits
  for an approval where it needs one, is spawned, and its registrations are removed at the end.

  Every await is a point where other calls run: the state holds what each suspended call does next,
  and a step runs one of them or one step of the permission service, with which the gateway shares
  the database.  The file system, the serializer and the sandbox are arguments; the child process is an entry
  in the list of spawned commands, its output is the subject of \<open>Command_Output\<close>.  Events of commands are not part of
  the state.
\<close>

section \<open>Submission\<close>

record commands_config =
  cc_default_timeout :: rstr
  cc_cancel_grace :: rstr
  cc_progress_interval :: rstr
  cc_env_allowlist :: "rstr list"
  cc_max_output_bytes :: nat

record gateway_config =
  gc_permissions :: permissions_config
  gc_workspace_root :: rstr
  gc_commands :: commands_config

text \<open>The variables of a request are listed in the order in which its map is iterated.\<close>

record submit_request =
  sr_command :: rstr
  sr_cwd :: "rstr option"
  sr_env :: "(rstr \<times> rstr) list option"
  sr_timeout_override :: "rstr option"

record host =
  ho_canonicalize :: "rstr \<Rightarrow> rstr option"
  ho_metadata :: "rstr \<Rightarrow> file_metadata option"
  ho_names_json :: "rstr list \<Rightarrow> rstr option"
  ho_sandbox :: "unit result"

text \<open>What a submission that passes the checks goes on with.\<close>

record plan =
  pl_command :: rstr
  pl_decision :: policy_decision
  pl_needs_approval :: bool
  pl_review_flagged :: bool
  pl_cwd :: resolved_command_cwd
  pl_record_cwd :: "rstr option"
  pl_env :: "(rstr \<times> rstr) list option"
  pl_env_json :: "rstr option"
  pl_timeout :: duration
  pl_cancel_grace :: duration
  pl_progress_interval :: duration

definition needs_approval :: "policy_decision \<Rightarrow> rstr \<Rightarrow> bool result" where
  "needs_approval decision md =
     (case decision of
        Deny \<Rightarrow> Err (CommandDenied (lit ''matched [permissions].deny pattern''))
      | Review \<Rightarrow> Ok (md = lit ''supervised'' \<or> md = lit ''locked'')
      | ReviewRequired \<Rightarrow> Ok True
      | Allow \<Rightarrow> Ok (md = lit ''locked''))"

fun check_env_names :: "rstr list \<Rightarrow> rstr list \<Rightarrow> unit result" where
  "check_env_names allowlist [] = Ok ()"
| "check_env_names allowlist (name # names) =
     (if name \<in> set allowlist then check_env_names allowlist names else Err (CommandEnvNotAllowed name))"

definition env_names_json :: "host \<Rightarrow> (rstr \<times> rstr) list option \<Rightarrow> rstr option result" where
  "env_names_json ho env =
     (case env of
        Some (v # vs) \<Rightarrow>
          and_then (ok_or (CommandDenied (lit ''env names could not be serialized'')) (ho_names_json ho (sort (map fst (v # vs)))))
            (\<lambda>names. Ok (Some names))
      | _ \<Rightarrow> Ok None)"

definition parse_duration_field :: "rstr \<Rightarrow> rstr \<Rightarrow> duration result" where
  "parse_duration_field field s = ok_or (InvalidDurationField field) (parse_duration_string s)"

definition prepare :: "gateway_config \<Rightarrow> host \<Rightarrow> submit_request \<Rightarrow> plan result" where
  "prepare cfg ho req =
     (let decision = evaluate_policy (sr_command req) (gc_permissions cfg);
          md = mode (gc_permissions cfg);
          root = gc_workspace_root cfg;
          cc = gc_commands cfg
      in and_then (needs_approval decision md) (\<lambda>approval.
         and_then (resolve_cwd_under_workspace (ho_canonicalize ho) (ho_metadata ho) root
                     (case sr_cwd req of Some cwd \<Rightarrow> cwd | None \<Rightarrow> root)) (\<lambda>cwd.
         and_then (check_env_names (cc_env_allowlist cc) (case sr_env req of Some env \<Rightarrow> map fst env | None \<Rightarrow> [])) (\<lambda>_.
         and_then (env_names_json ho (sr_env req)) (\<lambda>env_json.
         and_then (case sr_timeout_override req of
                     Some s \<Rightarrow> parse_duration_field (lit ''command.timeout'') s
                   | None \<Rightarrow> parse_duration_field (lit ''commands.default_timeout'') (cc_default_timeout cc)) (\<lambda>timeout.
         and_then (parse_duration_field (lit ''commands.cancel_grace'') (cc_cancel_grace cc)) (\<lambda>grace.
         and_then (parse_duration_field (lit ''commands.progress_interval'') (cc_progress_interval cc)) (\<lambda>interval.
         and_then (ho_sandbox ho) (\<lambda>_.
           Ok \<lparr>pl_command = sr_command req, pl_decision = decision, pl_needs_approval = approval,
               pl_review_flagged = (decision = Review \<and> md = lit ''auto''), pl_cwd = cwd,
               pl_record_cwd = map_option (\<lambda>_. cwd_path cwd) (sr_cwd req), pl_env = sr_env req, pl_env_json = env_json,
               pl_timeout = timeout, pl_cancel_grace = grace, pl_progress_interval = interval\<rparr>)))))))))"

section \<open>State\<close>

text \<open>
  What a suspended call does next.  Of a submission: register the command, ask for the permission,
  note the request that it waits for.  Of a supervisor: wait for the answer, mark the row as running,
  spawn the child, watch it, and the three parts of the removal.  Of a cancel: signal the supervisor.
\<close>

datatype gateway_task =
    SubmitRegister rstr plan
  | SubmitAsk rstr plan
  | SubmitNote rstr plan rstr
  | Supervise rstr plan "rstr option"
  | MarkRunning rstr plan
  | SpawnChild rstr plan
  | Watch rstr plan
  | Deregister rstr rstr
  | DeregisterWaiting rstr rstr
  | DeregisterCancel rstr rstr
  | CancelSignal rstr

text \<open>\<open>gw_running\<close> holds for each registered command whether it was signalled to cancel.\<close>

record gateway =
  gw_service :: service
  gw_commands :: "command_record list"
  gw_running :: "rstr \<rightharpoonup> bool"
  gw_awaiting :: "rstr \<rightharpoonup> rstr"
  gw_tasks :: "gateway_task list"
  gw_spawned :: "(rstr \<times> plan) list"

definition on_commands :: "(cstore \<Rightarrow> 'a \<times> cstore) \<Rightarrow> gateway \<Rightarrow> 'a \<times> gateway" where
  "on_commands f gw =
     (case f \<lparr>cs_base = sv_store (gw_service gw), cs_commands = gw_commands gw\<rparr> of
        (r, cs) \<Rightarrow> (r, gw\<lparr>gw_service := (gw_service gw)\<lparr>sv_store := cs_base cs\<rparr>, gw_commands := cs_commands cs\<rparr>))"

text \<open>A call that reached one of its awaits goes on.\<close>

definition continue :: "gateway_task \<Rightarrow> gateway_task list \<Rightarrow> gateway \<Rightarrow> gateway" where
  "continue t ts gw = gw\<lparr>gw_tasks := remove1 t (gw_tasks gw) @ ts\<rparr>"

section \<open>Submitting\<close>

definition submit_begin ::
  "(rstr \<Rightarrow> bool) \<Rightarrow> gateway_config \<Rightarrow> host \<Rightarrow> tx_env \<Rightarrow> submit_request \<Rightarrow> gateway \<Rightarrow> command_record result \<times> gateway" where
  "submit_begin json_valid cfg ho e req gw =
     (case prepare cfg ho req of
        Inl err \<Rightarrow> (Inl err, gw)
      | Inr p \<Rightarrow>
          (case on_commands (append_command json_valid (tx_ok e) (tx_key e) (tx_now e)
                  \<lparr>nc_command = pl_command p, nc_cwd = pl_record_cwd p, nc_env_json = pl_env_json p, nc_origin = Operator,
                   nc_session_id = None, nc_terminal_id = None\<rparr>) gw of
             (Inl err, gw') \<Rightarrow> (Inl err, gw')
           | (Inr record, gw') \<Rightarrow> (Inr record, gw'\<lparr>gw_tasks := gw_tasks gw' @ [SubmitRegister (cr_id record) p]\<rparr>)))"

definition submit_register :: "rstr \<Rightarrow> plan \<Rightarrow> gateway \<Rightarrow> gateway" where
  "submit_register command_id p gw =
     continue (SubmitRegister command_id p)
       [if pl_needs_approval p then SubmitAsk command_id p else Supervise command_id p None]
       (gw\<lparr>gw_running := (gw_running gw)(command_id \<mapsto> False)\<rparr>)"

text \<open>The detail of the request is the text the serializer gives for it.\<close>

definition command_permission :: "rstr \<Rightarrow> rstr option \<Rightarrow> rstr \<Rightarrow> new_permission_request" where
  "command_permission detail_json expires_at command_id =
     \<lparr>np_source = lit ''command'', np_requester = Some (lit ''command:'' @ command_id), np_subject_id = Some command_id,
      np_detail_json = detail_json, np_expires_at = expires_at\<rparr>"

definition submit_ask ::
  "(rstr \<Rightarrow> bool) \<Rightarrow> tx_env \<Rightarrow> rstr \<Rightarrow> rstr option \<Rightarrow> rstr \<Rightarrow> plan \<Rightarrow> gateway \<Rightarrow> unit result \<times> gateway" where
  "submit_ask json_valid e detail_json expires_at command_id p gw =
     (case insert_request json_valid e (command_permission detail_json expires_at command_id) (gw_service gw) of
        (Inl err, sv) \<Rightarrow> (Inl err, continue (SubmitAsk command_id p) [] (gw\<lparr>gw_service := sv\<rparr>))
      | (Inr r, sv) \<Rightarrow> (Inr (), continue (SubmitAsk command_id p) [SubmitNote command_id p (pr_id r)] (gw\<lparr>gw_service := sv\<rparr>)))"

definition submit_note :: "rstr \<Rightarrow> plan \<Rightarrow> rstr \<Rightarrow> gateway \<Rightarrow> gateway" where
  "submit_note command_id p key gw =
     continue (SubmitNote command_id p key) [Supervise command_id p (Some key)]
       (gw\<lparr>gw_awaiting := (gw_awaiting gw)(command_id \<mapsto> key)\<rparr>)"

section \<open>Supervising\<close>

definition finalize_without_spawn :: "tx_env \<Rightarrow> rstr \<Rightarrow> command_status \<Rightarrow> gateway \<Rightarrow> gateway" where
  "finalize_without_spawn e command_id status gw =
     snd (on_commands (finish_command (tx_ok e) command_id (tx_now e) status None None) gw)"

text \<open>The outcome of the wait for an approval.\<close>

definition permission_decided :: "tx_env \<Rightarrow> permission_outcome \<Rightarrow> rstr \<Rightarrow> plan \<Rightarrow> rstr \<Rightarrow> gateway \<Rightarrow> gateway" where
  "permission_decided e outcome command_id p key gw =
     (let t = Supervise command_id p (Some key) in
      case outcome of
        Approved _ _ \<Rightarrow> continue t [MarkRunning command_id p] gw
      | Denied _ \<Rightarrow> continue t [Deregister command_id (lit ''command-permission-denied'')] (finalize_without_spawn e command_id CFailed gw)
      | Canceled reason \<Rightarrow> continue t [Deregister command_id reason] (finalize_without_spawn e command_id CCanceled gw)
      | Expired \<Rightarrow> continue t [Deregister command_id (lit ''command-permission-waiter-lost'')] (finalize_without_spawn e command_id CFailed gw))"

definition mark_running :: "tx_env \<Rightarrow> rstr \<Rightarrow> plan \<Rightarrow> gateway \<Rightarrow> gateway" where
  "mark_running e command_id p gw =
     (case on_commands (start_command (tx_ok e) command_id (tx_now e)) gw of
        (Inl _, gw') \<Rightarrow> continue (MarkRunning command_id p) [Deregister command_id (lit ''command-start-failed'')] gw'
      | (Inr _, gw') \<Rightarrow> continue (MarkRunning command_id p) [SpawnChild command_id p] gw')"

definition record_spawn_failure :: "tx_env \<Rightarrow> rstr \<Rightarrow> gateway \<Rightarrow> gateway" where
  "record_spawn_failure e command_id gw =
     snd (on_commands (finish_command (tx_ok e) command_id (tx_now e) CFailed None None) gw)"

text \<open>\<open>spawned\<close> is whether the system started the child.\<close>

definition spawn_child :: "bool \<Rightarrow> tx_env \<Rightarrow> rstr \<Rightarrow> plan \<Rightarrow> gateway \<Rightarrow> gateway" where
  "spawn_child spawned e command_id p gw =
     (if spawned
      then continue (SpawnChild command_id p) [Watch command_id p] (gw\<lparr>gw_spawned := gw_spawned gw @ [(command_id, p)]\<rparr>)
      else continue (SpawnChild command_id p) [Deregister command_id (lit ''command-spawn-failed'')] (record_spawn_failure e command_id gw))"

datatype child_outcome =
    ChildExited "int option" "rstr option"
  | ChildCanceled "rstr option"
  | ChildTimedOut "rstr option"
  | ChildWaitFailed rstr
  | ChildPersistenceError

text \<open>The status of the row, the exit status, and the kind of the event that ends a command.\<close>

fun terminal_status :: "child_outcome \<Rightarrow> command_status \<times> int option \<times> rstr" where
  "terminal_status (ChildExited code signal) =
     (if code = Some 0 then (CExited, code, lit ''command.exited'') else (CFailed, code, lit ''command.failed''))"
| "terminal_status (ChildCanceled signal) = (CCanceled, None, lit ''command.cancelled'')"
| "terminal_status (ChildTimedOut signal) = (CFailed, None, lit ''command.timeout'')"
| "terminal_status (ChildWaitFailed reason) = (CFailed, None, lit ''command.failed'')"
| "terminal_status ChildPersistenceError = (CFailed, None, lit ''command.persistence_failed'')"

definition watch_ended :: "tx_env \<Rightarrow> child_outcome \<Rightarrow> int option \<Rightarrow> rstr \<Rightarrow> plan \<Rightarrow> gateway \<Rightarrow> gateway" where
  "watch_ended e outcome duration_ms command_id p gw =
     (case terminal_status outcome of
        (status, exit_status, kind) \<Rightarrow>
          (case on_commands (finish_command (tx_ok e) command_id (tx_now e) status exit_status duration_ms) gw of
             (Inl _, gw') \<Rightarrow> continue (Watch command_id p) [Deregister command_id (lit ''command-persistence-failed'')] gw'
           | (Inr _, gw') \<Rightarrow> continue (Watch command_id p) [Deregister command_id (lit ''command-finished'')] gw'))"

text \<open>The first events of a command could not be persisted: the child is killed.\<close>

definition finish_after_persistence_error :: "tx_env \<Rightarrow> int option \<Rightarrow> rstr \<Rightarrow> plan \<Rightarrow> gateway \<Rightarrow> gateway" where
  "finish_after_persistence_error e duration_ms command_id p gw =
     continue (Watch command_id p) [Deregister command_id (lit ''command-persistence-failed'')]
       (snd (on_commands (finish_command (tx_ok e) command_id (tx_now e) CFailed None duration_ms) gw))"

section \<open>Removing the registrations\<close>

definition deregister_running :: "rstr \<Rightarrow> rstr \<Rightarrow> gateway \<Rightarrow> gateway" where
  "deregister_running command_id reason gw =
     continue (Deregister command_id reason) [DeregisterWaiting command_id reason]
       (gw\<lparr>gw_running := (gw_running gw)(command_id := None)\<rparr>)"

definition deregister_waiting :: "rstr \<Rightarrow> rstr \<Rightarrow> gateway \<Rightarrow> gateway" where
  "deregister_waiting command_id reason gw =
     continue (DeregisterWaiting command_id reason)
       (case gw_awaiting gw command_id of Some key \<Rightarrow> [DeregisterCancel key reason] | None \<Rightarrow> [])
       (gw\<lparr>gw_awaiting := (gw_awaiting gw)(command_id := None)\<rparr>)"

text \<open>The transaction of \<^verbatim>\<open>cancel_if_pending\<close>; the waiter is answered by a later step of the service.\<close>

definition cancel_pending :: "tx_env \<Rightarrow> rstr \<Rightarrow> rstr \<Rightarrow> gateway \<Rightarrow> gateway" where
  "cancel_pending e key reason gw =
     gw\<lparr>gw_service := snd (decide_commit e key (Canceled reason) (lit ''system'') (Some reason) (gw_service gw))\<rparr>"

definition deregister_cancel :: "tx_env \<Rightarrow> rstr \<Rightarrow> rstr \<Rightarrow> gateway \<Rightarrow> gateway" where
  "deregister_cancel e key reason gw = continue (DeregisterCancel key reason) [] (cancel_pending e key reason gw)"

section \<open>Other calls\<close>

definition get_record :: "rstr \<Rightarrow> gateway \<Rightarrow> command_record result" where
  "get_record command_id gw =
     ok_or (CommandNotFound command_id) (get_command command_id \<lparr>cs_base = sv_store (gw_service gw), cs_commands = gw_commands gw\<rparr>)"

definition cancel_begin :: "tx_env \<Rightarrow> rstr \<Rightarrow> gateway \<Rightarrow> gateway" where
  "cancel_begin e command_id gw =
     (let gw' = (case gw_awaiting gw command_id of Some key \<Rightarrow> cancel_pending e key (lit ''command-cancelled'') gw | None \<Rightarrow> gw)
      in gw'\<lparr>gw_tasks := gw_tasks gw' @ [CancelSignal command_id]\<rparr>)"

definition cancel_signal :: "rstr \<Rightarrow> gateway \<Rightarrow> gateway" where
  "cancel_signal command_id gw =
     continue (CancelSignal command_id) []
       (if gw_running gw command_id = None then gw else gw\<lparr>gw_running := (gw_running gw)(command_id \<mapsto> True)\<rparr>)"

section \<open>Interleaving\<close>

text \<open>The call of the permission service that made the request has returned.\<close>

definition request_returned :: "service \<Rightarrow> rstr \<Rightarrow> bool" where
  "request_returned sv key \<longleftrightarrow> Register key \<notin> set (sv_tasks sv) \<and> Recheck key \<notin> set (sv_tasks sv) \<and>
     (\<forall>outcome. Settle key outcome \<notin> set (sv_tasks sv))"

text \<open>
  One run of the process.  A supervisor that waits for an answer goes on when the answer arrives, when its
  waiter is gone without one, when it is signalled to cancel, or when its registration is gone.
\<close>

inductive gateway_step ::
  "(rstr \<Rightarrow> bool) \<Rightarrow> permission_timeout_action \<Rightarrow> gateway_config \<Rightarrow> gateway \<Rightarrow> gateway \<Rightarrow> bool" for json_valid action cfg where
  g_submit: "gateway_step json_valid action cfg gw (snd (submit_begin json_valid cfg ho e req gw))"
| g_register: "SubmitRegister command_id p \<in> set (gw_tasks gw) \<Longrightarrow>
     gateway_step json_valid action cfg gw (submit_register command_id p gw)"
| g_ask: "SubmitAsk command_id p \<in> set (gw_tasks gw) \<Longrightarrow>
     gateway_step json_valid action cfg gw (snd (submit_ask json_valid e detail_json expires_at command_id p gw))"
| g_note: "SubmitNote command_id p key \<in> set (gw_tasks gw) \<Longrightarrow> request_returned (gw_service gw) key \<Longrightarrow>
     gateway_step json_valid action cfg gw (submit_note command_id p key gw)"
| g_free: "Supervise command_id p None \<in> set (gw_tasks gw) \<Longrightarrow>
     gateway_step json_valid action cfg gw (continue (Supervise command_id p None) [MarkRunning command_id p] gw)"
| g_answered: "Supervise command_id p (Some key) \<in> set (gw_tasks gw) \<Longrightarrow> sv_answers (gw_service gw) key = Some outcome \<Longrightarrow>
     gateway_step json_valid action cfg gw (permission_decided e outcome command_id p key gw)"
| g_lost: "Supervise command_id p (Some key) \<in> set (gw_tasks gw) \<Longrightarrow> sv_answers (gw_service gw) key = None \<Longrightarrow> key \<notin> sv_pending (gw_service gw) \<Longrightarrow>
     gateway_step json_valid action cfg gw (permission_decided e Expired command_id p key gw)"
| g_signalled: "Supervise command_id p (Some key) \<in> set (gw_tasks gw) \<Longrightarrow> gw_running gw command_id = Some True \<Longrightarrow>
     gateway_step json_valid action cfg gw (permission_decided e (Canceled (lit ''command-cancelled'')) command_id p key gw)"
| g_unregistered: "Supervise command_id p (Some key) \<in> set (gw_tasks gw) \<Longrightarrow> gw_running gw command_id = None \<Longrightarrow>
     gateway_step json_valid action cfg gw (permission_decided e Expired command_id p key gw)"
| g_mark: "MarkRunning command_id p \<in> set (gw_tasks gw) \<Longrightarrow>
     gateway_step json_valid action cfg gw (mark_running e command_id p gw)"
| g_spawn: "SpawnChild command_id p \<in> set (gw_tasks gw) \<Longrightarrow>
     gateway_step json_valid action cfg gw (spawn_child spawned e command_id p gw)"
| g_watch: "Watch command_id p \<in> set (gw_tasks gw) \<Longrightarrow>
     gateway_step json_valid action cfg gw (watch_ended e child duration_ms command_id p gw)"
| g_unrecorded: "Watch command_id p \<in> set (gw_tasks gw) \<Longrightarrow>
     gateway_step json_valid action cfg gw (finish_after_persistence_error e duration_ms command_id p gw)"
| g_deregister: "Deregister command_id reason \<in> set (gw_tasks gw) \<Longrightarrow>
     gateway_step json_valid action cfg gw (deregister_running command_id reason gw)"
| g_waiting: "DeregisterWaiting command_id reason \<in> set (gw_tasks gw) \<Longrightarrow>
     gateway_step json_valid action cfg gw (deregister_waiting command_id reason gw)"
| g_settle: "DeregisterCancel key reason \<in> set (gw_tasks gw) \<Longrightarrow>
     gateway_step json_valid action cfg gw (deregister_cancel e key reason gw)"
| g_cancel: "gateway_step json_valid action cfg gw (cancel_begin e command_id gw)"
| g_signal: "CancelSignal command_id \<in> set (gw_tasks gw) \<Longrightarrow>
     gateway_step json_valid action cfg gw (cancel_signal command_id gw)"
| g_service: "service_step json_valid action (gw_service gw) sv \<Longrightarrow>
     gateway_step json_valid action cfg gw (gw\<lparr>gw_service := sv\<rparr>)"

definition gateway_init :: "gateway \<Rightarrow> bool" where
  "gateway_init gw \<longleftrightarrow> service_init (gw_service gw) \<and> gw_running gw = Map.empty \<and> gw_awaiting gw = Map.empty \<and>
     gw_tasks gw = [] \<and> gw_spawned gw = []"

section \<open>What a task knows\<close>

text \<open>A row of a request keeps its source and its subject.\<close>

definition asked :: "pstore \<Rightarrow> rstr \<Rightarrow> rstr \<Rightarrow> bool" where
  "asked st command_id key \<longleftrightarrow>
     (\<exists>r. find_request key st = Some r \<and> pr_source r = lit ''command'' \<and> pr_subject_id r = Some command_id)"

lemma asked_rows:
  assumes "ps_requests st' = map f (ps_requests st) @ rs" and "asked st command_id key"
    and "\<And>r. pr_id (f r) = pr_id r \<and> pr_source (f r) = pr_source r \<and> pr_subject_id (f r) = pr_subject_id r"
  shows "asked st' command_id key"
proof -
  have "find (\<lambda>r. pr_id r = key) (map f rows @ rs) = Some (f r)" if "find (\<lambda>r. pr_id r = key) rows = Some r" for rows r
    using that assms(3) by (induction rows) (auto split: if_splits)
  then show ?thesis using assms by (fastforce simp: asked_def find_request_def)
qed

lemma stamp_subject [simp]: "pr_subject_id (stamp s now r) = pr_subject_id r"
  by (simp add: stamp_def)

lemma swept_fields: "pr_id (swept now r) = pr_id r \<and> pr_source (swept now r) = pr_source r \<and> pr_subject_id (swept now r) = pr_subject_id r"
  by (simp add: swept_def)

lemma asked_step:
  assumes "store_step json_valid st st'" and "audit_ok st" and "asked st command_id key"
  shows "asked st' command_id key"
proof -
  have same: "asked s command_id key" if "ps_requests s = ps_requests st @ rs" for s rs
    using asked_rows [of s "\<lambda>r. r" st rs command_id key] assms(3) that by simp
  show ?thesis using assms(1)
  proof cases
    case (append input db k now)
    then show ?thesis by (intro same [of _ "if \<not> json_valid (np_detail_json input) \<or> \<not> db \<or> has_request k st then [] else [new_request k now PPending input]"])
      (simp add: append_permission_request_def Let_def)
  next
    case (append_approved input db k dk now who reason)
    then show ?thesis by (intro same [of _ "if \<not> json_valid (np_detail_json input) \<or> \<not> db \<or> has_request k st \<or> has_decision dk st then []
        else [(new_request k now PApproved input)\<lparr>pr_expires_at := None\<rparr>]"])
      (simp add: append_approved_permission_request_def Let_def)
  next
    case (decide new_status db dk now decided_at k who reason)
    have "ps_requests st' = ps_requests st \<or> ps_requests st' = map (\<lambda>r. if pr_id r = k then stamp new_status now r else r) (ps_requests st)"
      using decide by (auto simp: decide_permission_def Let_def set_status_map split: option.split)
    then show ?thesis
      using same [of st' "[]"] asked_rows [of st' "\<lambda>r. if pr_id r = k then stamp new_status now r else r" st "[]", OF _ assms(3)] by auto
  next
    case (reconcile db next_id now)
    show ?thesis
    proof (cases "fst (reconcile_orphaned_permissions db next_id now st)")
      case (Inl err)
      then have "st' = st" using reconcile by (auto simp: reconcile_orphaned_permissions_def Let_def split: option.splits)
      then show ?thesis using assms(3) by simp
    next
      case (Inr ce)
      have "reconcile_orphaned_permissions db next_id now st = (Ok (fst ce, snd ce), st')"
        using Inr reconcile by (cases "reconcile_orphaned_permissions db next_id now st") auto
      then have "ps_requests st' = map (swept now) (ps_requests st) @ []" using reconcile_result [OF assms(2)] by (metis append_Nil2)
      then show ?thesis by (rule asked_rows [OF _ assms(3) swept_fields])
    qed
  next
    case (other_tables ss n ob)
    then show ?thesis by (intro same [of _ "[]"]) simp
  qed
qed


lemma asked_steps:
  "(store_step json_valid)\<^sup>*\<^sup>* st st' \<Longrightarrow> audit_ok st \<Longrightarrow> asked st command_id key \<Longrightarrow> asked st' command_id key"
proof (induction rule: rtranclp_induct)
  case (step s t)
  then show ?case using asked_step pst.steps_inv by blast
qed

text \<open>The policy lets the command run, after an approval of a request for it where it needs one.\<close>

definition planned :: "gateway_config \<Rightarrow> plan \<Rightarrow> bool" where
  "planned cfg p \<longleftrightarrow> pl_decision p = evaluate_policy (pl_command p) (gc_permissions cfg) \<and>
     needs_approval (pl_decision p) (mode (gc_permissions cfg)) = Ok (pl_needs_approval p)"

definition cleared :: "gateway_config \<Rightarrow> pstore \<Rightarrow> rstr \<Rightarrow> plan \<Rightarrow> bool" where
  "cleared cfg st command_id p \<longleftrightarrow> planned cfg p \<and>
     (pl_needs_approval p \<longrightarrow> (\<exists>key. asked st command_id key \<and> has_status st key PApproved))"

fun task_ok :: "gateway_config \<Rightarrow> pstore \<Rightarrow> gateway_task \<Rightarrow> bool" where
  "task_ok cfg st (SubmitRegister command_id p) = planned cfg p"
| "task_ok cfg st (SubmitAsk command_id p) = planned cfg p"
| "task_ok cfg st (SubmitNote command_id p key) = (planned cfg p \<and> asked st command_id key)"
| "task_ok cfg st (Supervise command_id p None) = (planned cfg p \<and> \<not> pl_needs_approval p)"
| "task_ok cfg st (Supervise command_id p (Some key)) = (planned cfg p \<and> asked st command_id key)"
| "task_ok cfg st (MarkRunning command_id p) = cleared cfg st command_id p"
| "task_ok cfg st (SpawnChild command_id p) = cleared cfg st command_id p"
| "task_ok cfg st (Watch command_id p) = cleared cfg st command_id p"
| "task_ok cfg st _ = True"

definition gateway_inv :: "gateway_config \<Rightarrow> gateway \<Rightarrow> bool" where
  "gateway_inv cfg gw \<longleftrightarrow> service_inv (gw_service gw) \<and>
     (\<forall>t \<in> set (gw_tasks gw). task_ok cfg (sv_store (gw_service gw)) t) \<and>
     (\<forall>(command_id, p) \<in> set (gw_spawned gw). cleared cfg (sv_store (gw_service gw)) command_id p)"

lemma cleared_steps:
  "(store_step json_valid)\<^sup>*\<^sup>* st st' \<Longrightarrow> audit_ok st \<Longrightarrow> cleared cfg st command_id p \<Longrightarrow> cleared cfg st' command_id p"
  using asked_steps has_status_kept by (fastforce simp: cleared_def)

lemma task_ok_steps:
  "(store_step json_valid)\<^sup>*\<^sup>* st st' \<Longrightarrow> audit_ok st \<Longrightarrow> task_ok cfg st t \<Longrightarrow> task_ok cfg st' t"
  by (cases "(cfg, st, t)" rule: task_ok.cases) (auto intro: asked_steps cleared_steps)

text \<open>The obligations of one step: what it does to the service, and its new tasks and children.\<close>

lemma gateway_inv_intro:
  assumes "gateway_inv cfg gw" and "(service_step json_valid action)\<^sup>*\<^sup>* (gw_service gw) (gw_service gw')"
    and "\<And>t. t \<in> set (gw_tasks gw') \<Longrightarrow> t \<in> set (gw_tasks gw) \<or> task_ok cfg (sv_store (gw_service gw')) t"
    and "\<And>command_id p. (command_id, p) \<in> set (gw_spawned gw') \<Longrightarrow>
      (command_id, p) \<in> set (gw_spawned gw) \<or> cleared cfg (sv_store (gw_service gw')) command_id p"
  shows "gateway_inv cfg gw'"
proof -
  have inv: "service_inv (gw_service gw)" "audit_ok (sv_store (gw_service gw))" using assms(1) by (simp_all add: gateway_inv_def service_inv_def)
  have steps: "(store_step json_valid)\<^sup>*\<^sup>* (sv_store (gw_service gw)) (sv_store (gw_service gw'))"
    using assms(2) by (induction rule: rtranclp_induct) (auto dest: service_step_store)
  have "service_inv (gw_service gw')" using psv.steps_inv [OF assms(2) inv(1)] .
  moreover have "task_ok cfg (sv_store (gw_service gw')) t" if "t \<in> set (gw_tasks gw')" for t
    using assms(1) assms(3) [OF that] task_ok_steps [OF steps inv(2)] by (auto simp: gateway_inv_def)
  moreover have "cleared cfg (sv_store (gw_service gw')) c p" if "(c, p) \<in> set (gw_spawned gw')" for c p
    using assms(1) assms(4) [OF that] cleared_steps [OF steps inv(2)] by (auto simp: gateway_inv_def)
  ultimately show ?thesis by (auto simp: gateway_inv_def)
qed

text \<open>Updates of command rows touch the shared database only by logging the row.\<close>

definition log_only :: "(cstore \<Rightarrow> 'a \<times> cstore) \<Rightarrow> bool" where
  "log_only f \<longleftrightarrow> (\<forall>cs. \<exists>ob. cs_base (snd (f cs)) = (cs_base cs)\<lparr>ps_outbox := ob\<rparr>)"

lemma log_row_only: "\<exists>ob. log_row t i now st = st\<lparr>ps_outbox := ob\<rparr>" "\<exists>ob. st = st\<lparr>ps_outbox := ob\<rparr>"
  by (auto simp: log_row_def intro: exI [of _ "ps_outbox st"])

lemma log_only_update: "log_only (update_command db key now f)"
  using log_row_only by (auto simp: log_only_def update_command_def)

lemma log_only_commands:
  "log_only (append_command json_valid db key now input)" "log_only (start_command db key now)"
  "log_only (finish_command db key now status exit_status duration_ms)"
  using log_row_only log_only_update
  by (auto simp: log_only_def append_command_def start_command_def [abs_def] finish_command_def [abs_def] Let_def split: option.split)

lemma on_commands_step:
  assumes "log_only f"
  shows "service_step json_valid action (gw_service gw) (gw_service (snd (on_commands f gw)))"
    "gw_tasks (snd (on_commands f gw)) = gw_tasks gw" "gw_spawned (snd (on_commands f gw)) = gw_spawned gw"
proof -
  let ?sv = "gw_service gw"
  obtain ob where "cs_base (snd (f \<lparr>cs_base = sv_store ?sv, cs_commands = gw_commands gw\<rparr>)) = (sv_store ?sv)\<lparr>ps_outbox := ob\<rparr>"
    using assms by (metis log_only_def cstore.select_convs(1))
  then have "gw_service (snd (on_commands f gw)) =
      ?sv\<lparr>sv_store := (sv_store ?sv)\<lparr>ps_sessions := ps_sessions (sv_store ?sv), ps_change_seq := ps_change_seq (sv_store ?sv), ps_outbox := ob\<rparr>\<rparr>"
    by (auto simp: on_commands_def split: prod.split)
  then show "service_step json_valid action ?sv (gw_service (snd (on_commands f gw)))"
    using service_step.step_other [of json_valid action ?sv ob "ps_change_seq (sv_store ?sv)" "ps_sessions (sv_store ?sv)"] by simp
  show "gw_tasks (snd (on_commands f gw)) = gw_tasks gw" "gw_spawned (snd (on_commands f gw)) = gw_spawned gw"
    by (simp_all add: on_commands_def split: prod.split)
qed


lemma continue_simps [simp]:
  "gw_service (continue t ts gw) = gw_service gw" "gw_spawned (continue t ts gw) = gw_spawned gw"
  "gw_running (continue t ts gw) = gw_running gw" "gw_awaiting (continue t ts gw) = gw_awaiting gw"
  "t' \<in> set (gw_tasks (continue t ts gw)) \<Longrightarrow> t' \<in> set (gw_tasks gw) \<or> t' \<in> set ts"
  by (auto simp: continue_def dest: in_mono [OF set_remove1_subset, THEN mp])

text \<open>A call goes on after an update of its row.\<close>

lemma continue_inv:
  assumes "gateway_inv cfg gw" and "gw_service gw' = gw_service gw" "gw_tasks gw' = gw_tasks gw" "gw_spawned gw' = gw_spawned gw"
    and "\<And>t'. t' \<in> set ts \<Longrightarrow> task_ok cfg (sv_store (gw_service gw)) t'"
  shows "gateway_inv cfg (continue t ts gw')"
  by (rule gateway_inv_intro [OF assms(1), where json_valid = "\<lambda>_. True" and action = TimeoutDeny])
    (use assms(2-5) continue_simps(5) [of _ t ts gw'] in auto)

lemma on_commands_inv:
  assumes "gateway_inv cfg gw" and "log_only f"
  shows "gateway_inv cfg (snd (on_commands f gw))"
proof (rule gateway_inv_intro [OF assms(1)])
  show "(service_step (\<lambda>_. True) TimeoutDeny)\<^sup>*\<^sup>* (gw_service gw) (gw_service (snd (on_commands f gw)))"
    by (rule r_into_rtranclp) (rule on_commands_step(1) [OF assms(2)])
qed (simp_all add: on_commands_step(2,3) [OF assms(2)])

lemma row_updated_inv:
  assumes "gateway_inv cfg gw" and "log_only f" and "\<And>t' st. t' \<in> set ts \<Longrightarrow> task_ok cfg st t'"
  shows "gateway_inv cfg (continue t ts (snd (on_commands f gw)))"
  by (rule continue_inv [OF on_commands_inv [OF assms(1,2)]]) (simp_all add: assms(3))

lemma prepare_planned: "prepare cfg ho req = Ok p \<Longrightarrow> planned cfg p"
  by (auto simp: prepare_def Let_def and_then_Ok planned_def)

lemma task_in: "gateway_inv cfg gw \<Longrightarrow> t \<in> set (gw_tasks gw) \<Longrightarrow> task_ok cfg (sv_store (gw_service gw)) t"
  by (simp add: gateway_inv_def)

lemma submit_begin_inv:
  assumes "gateway_inv cfg gw"
  shows "gateway_inv cfg (snd (submit_begin json_valid cfg ho e req gw))"
proof (cases "prepare cfg ho req")
  case (Inr p)
  let ?f = "append_command json_valid (tx_ok e) (tx_key e) (tx_now e)
    \<lparr>nc_command = pl_command p, nc_cwd = pl_record_cwd p, nc_env_json = pl_env_json p, nc_origin = Operator, nc_session_id = None, nc_terminal_id = None\<rparr>"
  obtain r gw' where run: "on_commands ?f gw = (r, gw')" by force
  have inv: "gateway_inv cfg gw'" using on_commands_inv [OF assms log_only_commands(1)] run by (metis snd_conv)
  have "gateway_inv cfg (gw'\<lparr>gw_tasks := gw_tasks gw' @ [SubmitRegister c p]\<rparr>)" for c
    by (rule gateway_inv_intro [OF inv, where json_valid = "\<lambda>_. True" and action = TimeoutDeny]) (use prepare_planned [OF Inr] in auto)
  then show ?thesis using inv Inr run by (cases r) (auto simp: submit_begin_def)
qed (use assms in \<open>simp add: submit_begin_def\<close>)

lemma submit_ask_inv:
  assumes "gateway_inv cfg gw" and "SubmitAsk command_id p \<in> set (gw_tasks gw)"
  shows "gateway_inv cfg (snd (submit_ask json_valid e detail_json expires_at command_id p gw))"
proof -
  let ?in = "command_permission detail_json expires_at command_id"
  obtain r sv where ins: "insert_request json_valid e ?in (gw_service gw) = (r, sv)" by force
  have step: "service_step json_valid TimeoutDeny (gw_service gw) sv"
    using service_step.step_insert [of ?in json_valid TimeoutDeny "gw_service gw" e] ins by (simp add: command_permission_def)
  have p: "planned cfg p" using task_in [OF assms] by simp
  have asked: "asked (sv_store sv) command_id (pr_id x)" if "r = Inr x" for x
    using ins that
    by (auto simp: insert_request_def append_permission_request_def asked_def find_request_def new_request_def command_permission_def
        spawn_def Let_def find_append has_request_iff split: sum.splits prod.splits if_splits)
  show ?thesis
  proof (cases r)
    case (Inl err)
    then show ?thesis
      using gateway_inv_intro [OF assms(1), of json_valid TimeoutDeny "continue (SubmitAsk command_id p) [] (gw\<lparr>gw_service := sv\<rparr>)"]
        ins step continue_simps(5) by (fastforce simp: submit_ask_def)
  next
    case (Inr x)
    then show ?thesis
      using gateway_inv_intro [OF assms(1), of json_valid TimeoutDeny "continue (SubmitAsk command_id p) [SubmitNote command_id p (pr_id x)] (gw\<lparr>gw_service := sv\<rparr>)"]
        ins step continue_simps(5) [of _ "SubmitAsk command_id p" "[SubmitNote command_id p (pr_id x)]" "gw\<lparr>gw_service := sv\<rparr>"] p asked
      by (fastforce simp: submit_ask_def)
  qed
qed


lemma permission_decided_inv:
  assumes inv: "gateway_inv cfg gw" and t: "Supervise command_id p (Some key) \<in> set (gw_tasks gw)"
    and approved: "as_status outcome = PApproved \<Longrightarrow> has_status (sv_store (gw_service gw)) key PApproved"
  shows "gateway_inv cfg (permission_decided e outcome command_id p key gw)"
proof (cases outcome)
  case (Approved option_id reason)
  then show ?thesis using task_in [OF inv t] approved
    by (auto simp: permission_decided_def Let_def cleared_def intro!: continue_inv [OF inv])
qed (auto simp: permission_decided_def Let_def finalize_without_spawn_def intro!: row_updated_inv [OF inv log_only_commands(3)])

lemma cancel_pending_inv:
  assumes "gateway_inv cfg gw"
  shows "gateway_inv cfg (cancel_pending e key reason gw)"
proof (rule gateway_inv_intro [OF assms])
  show "(service_step (\<lambda>_. True) TimeoutDeny)\<^sup>*\<^sup>* (gw_service gw) (gw_service (cancel_pending e key reason gw))"
    by (rule r_into_rtranclp) (simp add: cancel_pending_def service_step.step_decide)
qed (simp_all add: cancel_pending_def)

lemma mark_running_inv:
  assumes inv: "gateway_inv cfg gw" and t: "MarkRunning command_id p \<in> set (gw_tasks gw)"
  shows "gateway_inv cfg (mark_running e command_id p gw)"
proof -
  let ?f = "start_command (tx_ok e) command_id (tx_now e)"
  obtain r gw' where run: "on_commands ?f gw = (r, gw')" by force
  have inv': "gateway_inv cfg gw'" "gw_tasks gw' = gw_tasks gw"
    using on_commands_inv [OF inv log_only_commands(2)] on_commands_step(2) [OF log_only_commands(2)] run by (metis snd_conv)+
  then have "cleared cfg (sv_store (gw_service gw')) command_id p" using task_in [OF inv'(1)] t by fastforce
  then show ?thesis using run by (cases r) (auto simp: mark_running_def intro!: continue_inv [OF inv'(1)])
qed

lemma spawn_child_inv:
  assumes inv: "gateway_inv cfg gw" and t: "SpawnChild command_id p \<in> set (gw_tasks gw)"
  shows "gateway_inv cfg (spawn_child spawned e command_id p gw)"
proof (cases spawned)
  case True
  have c: "cleared cfg (sv_store (gw_service gw)) command_id p" using task_in [OF inv t] by simp
  then have "gateway_inv cfg (gw\<lparr>gw_spawned := gw_spawned gw @ [(command_id, p)]\<rparr>)"
    using inv by (auto simp: gateway_inv_def)
  then show ?thesis using True c by (auto simp: spawn_child_def intro!: continue_inv)
next
  case False
  then show ?thesis
    by (auto simp: spawn_child_def record_spawn_failure_def intro!: row_updated_inv [OF inv log_only_commands(3)])
qed

lemma watch_ended_inv:
  assumes "gateway_inv cfg gw"
  shows "gateway_inv cfg (watch_ended e child duration_ms command_id p gw)"
proof -
  obtain status code kind where s: "terminal_status child = (status, code, kind)" by (cases "terminal_status child")
  let ?f = "finish_command (tx_ok e) command_id (tx_now e) status code duration_ms"
  obtain r gw' where run: "on_commands ?f gw = (r, gw')" by force
  have "gateway_inv cfg gw'" using on_commands_inv [OF assms log_only_commands(3)] run by (metis snd_conv)
  then show ?thesis using s run by (cases r) (auto simp: watch_ended_def intro!: continue_inv)
qed

lemma gateway_step_inv:
  assumes "gateway_step json_valid action cfg gw gw'" and inv: "gateway_inv cfg gw"
  shows "gateway_inv cfg gw'"
  using assms(1)
proof cases
  case (g_submit ho e req)
  then show ?thesis using submit_begin_inv [OF inv] by simp
next
  case (g_register command_id p)
  then show ?thesis using task_in [OF inv g_register(2)] by (auto simp: submit_register_def intro!: continue_inv [OF inv])
next
  case (g_ask command_id p e detail_json expires_at)
  then show ?thesis using submit_ask_inv [OF inv] by simp
next
  case (g_note command_id p key)
  then show ?thesis using task_in [OF inv g_note(2)] by (auto simp: submit_note_def intro!: continue_inv [OF inv])
next
  case (g_free command_id p)
  then show ?thesis using task_in [OF inv g_free(2)] by (auto simp: cleared_def intro!: continue_inv [OF inv])
next
  case (g_answered command_id p key outcome e)
  have "has_status (sv_store (gw_service gw)) key PApproved" if "as_status outcome = PApproved"
    using inv g_answered(3) that unfolding gateway_inv_def service_inv_def tasks_ok_def by blast
  then show ?thesis using permission_decided_inv [OF inv g_answered(2)] g_answered(1) by blast
next
  case (g_lost command_id p key e)
  then show ?thesis using permission_decided_inv [OF inv g_lost(2), of Expired] by simp
next
  case (g_signalled command_id p key e)
  then show ?thesis using permission_decided_inv [OF inv g_signalled(2), of "Canceled (lit ''command-cancelled'')"] by simp
next
  case (g_unregistered command_id p key e)
  then show ?thesis using permission_decided_inv [OF inv g_unregistered(2), of Expired] by simp
next
  case (g_mark command_id p e)
  then show ?thesis using mark_running_inv [OF inv] by simp
next
  case (g_spawn command_id p spawned e)
  then show ?thesis using spawn_child_inv [OF inv] by simp
next
  case (g_watch command_id p e child duration_ms)
  then show ?thesis using watch_ended_inv [OF inv] by simp
next
  case (g_unrecorded command_id p e duration_ms)
  then show ?thesis by (auto simp: finish_after_persistence_error_def intro!: row_updated_inv [OF inv log_only_commands(3)])
next
  case (g_deregister command_id reason)
  then show ?thesis by (auto simp: deregister_running_def intro!: continue_inv [OF inv])
next
  case (g_waiting command_id reason)
  then show ?thesis by (auto simp: deregister_waiting_def split: option.splits intro!: continue_inv [OF inv])
next
  case (g_settle key reason e)
  then show ?thesis by (auto simp: deregister_cancel_def intro!: continue_inv [OF cancel_pending_inv [OF inv]])
next
  case (g_cancel e command_id)
  have "gateway_inv cfg (case gw_awaiting gw command_id of Some key \<Rightarrow> cancel_pending e key (lit ''command-cancelled'') gw | None \<Rightarrow> gw)"
    using inv cancel_pending_inv by (auto split: option.split)
  then show ?thesis using g_cancel by (auto simp: cancel_begin_def Let_def gateway_inv_def)
next
  case (g_signal command_id)
  then show ?thesis by (auto simp: cancel_signal_def intro!: continue_inv [OF inv])
next
  case (g_service sv)
  then show ?thesis by (intro gateway_inv_intro [OF inv, of json_valid action]) auto
qed

interpretation gwy: invariant_system gateway_init "gateway_step json_valid action cfg" "gateway_inv cfg" for json_valid action cfg
  by unfold_locales
    (simp add: gateway_init_def gateway_inv_def psv.init_inv, erule (1) gateway_step_inv [rotated])


section \<open>What an accepted submission satisfies\<close>




section \<open>Properties\<close>

text \<open>
  C2: No command runs without clearance.  Whatever the interleaving of submissions, cancels, deciders, timers
  and failing transactions, a command whose child was spawned is not denied by the policy; and when
  the policy or the mode asks for an approval, the store has a request for this very command that is
  approved, with exactly one decision, an approval.
\<close>

theorem spawned_was_cleared:
  assumes "reachable gateway_init (gateway_step json_valid action cfg) gw" and "(command_id, p) \<in> set (gw_spawned gw)"
  shows "evaluate_policy (pl_command p) (gc_permissions cfg) \<noteq> Deny \<and>
    (evaluate_policy (pl_command p) (gc_permissions cfg) = ReviewRequired \<or> mode (gc_permissions cfg) = lit ''locked'' \<or>
     mode (gc_permissions cfg) = lit ''supervised'' \<and> evaluate_policy (pl_command p) (gc_permissions cfg) = Review \<longrightarrow>
     (\<exists>key r. find_request key (sv_store (gw_service gw)) = Some r \<and> pr_source r = lit ''command'' \<and>
        pr_subject_id r = Some command_id \<and> pr_status r = as_str PApproved \<and>
        map pd_decision (decisions_of key (sv_store (gw_service gw))) = [as_str PApproved]))"
proof -
  let ?st = "sv_store (gw_service gw)"
  have inv: "gateway_inv cfg gw" by (rule gwy.reachable_inv [OF assms(1)])
  then have audit: "audit_ok ?st" by (simp add: gateway_inv_def service_inv_def)
  have c: "planned cfg p" "pl_needs_approval p \<Longrightarrow> \<exists>key. asked ?st command_id key \<and> has_status ?st key PApproved"
    using inv assms(2) by (auto simp: gateway_inv_def cleared_def)
  have "\<exists>key r. find_request key ?st = Some r \<and> pr_source r = lit ''command'' \<and> pr_subject_id r = Some command_id \<and>
      pr_status r = as_str PApproved \<and> map pd_decision (decisions_of key ?st) = [as_str PApproved]" if needs: "pl_needs_approval p"
  proof -
    obtain key r where r: "find_request key ?st = Some r" "pr_source r = lit ''command''" "pr_subject_id r = Some command_id" "pr_status r = as_str PApproved"
      using c(2) [OF needs] by (auto simp: asked_def has_status_def simp del: as_str.simps)
    have "row_audited ?st r" using audit r(1) unfolding audit_ok_def by blast
    then have "map pd_decision (decisions_of key ?st) = [as_str PApproved]"
      using r find_request_Some [OF r(1)] by (simp add: row_audited_def is_terminal_def del: as_str.simps)
    then show ?thesis using r by (intro exI [of _ key] exI [of _ r] conjI)
  qed
  then show ?thesis using c(1) by (auto simp: planned_def needs_approval_def split: policy_decision.splits)
qed


definition sample_config :: gateway_config where
  "sample_config = \<lparr>gc_permissions = \<lparr>mode = lit ''locked'', review = [], deny = [lit ''rm *''], request_timeout = None, timeout_action = None, acp_prompt_action = None\<rparr>, gc_workspace_root = lit ''/ws'',
     gc_commands = \<lparr>cc_default_timeout = lit ''10m'', cc_cancel_grace = lit ''5s'', cc_progress_interval = lit ''30s'', cc_env_allowlist = [], cc_max_output_bytes = 1048576\<rparr>\<rparr>"

definition sample_host :: host where
  "sample_host = \<lparr>ho_canonicalize = Some, ho_metadata = (\<lambda>_. Some \<lparr>is_dir = True, dev = 2, ino = 7\<rparr>),
     ho_names_json = (\<lambda>_. None), ho_sandbox = Ok ()\<rparr>"

definition sample_submission :: submit_request where
  "sample_submission = \<lparr>sr_command = lit ''ls -l'', sr_cwd = Some (lit ''/ws''), sr_env = None, sr_timeout_override = None\<rparr>"

definition sample_plan :: plan where
  "sample_plan = \<lparr>pl_command = lit ''ls -l'', pl_decision = Allow, pl_needs_approval = True, pl_review_flagged = False,
     pl_cwd = \<lparr>cwd_path = lit ''/ws'', cwd_identity = \<lparr>id_dev = 2, id_ino = 7\<rparr>\<rparr>, pl_record_cwd = Some (lit ''/ws''), pl_env = None, pl_env_json = None,
     pl_timeout = 600000, pl_cancel_grace = 5000, pl_progress_interval = 30000\<rparr>"

lemma sample_prepare: "prepare sample_config sample_host sample_submission = Ok sample_plan"
proof -
  have policy: "evaluate_policy (lit ''ls -l'') \<lparr>mode = lit ''locked'', review = [], deny = [lit ''rm *''], request_timeout = None, timeout_action = None, acp_prompt_action = None\<rparr> = Allow"
    by (simp add: policy_eval text_simps Let_def)
  have cwd: "resolve_cwd_under_workspace Some (\<lambda>_. Some \<lparr>is_dir = True, dev = 2, ino = 7\<rparr>) (lit ''/ws'') (lit ''/ws'') =
      Ok \<lparr>cwd_path = lit ''/ws'', cwd_identity = \<lparr>id_dev = 2, id_ino = 7\<rparr>\<rparr>"
    by (simp add: resolve_cwd_under_workspace_def path_starts_with_def from_metadata_def text_simps Let_def)
  have times: "parse_duration_string (lit ''10m'') = Some 600000" "parse_duration_string (lit ''5s'') = Some 5000"
    "parse_duration_string (lit ''30s'') = Some 30000"
    by (simp_all add: parse_duration_string_def text_simps lit_def)
  show ?thesis
    by (simp add: prepare_def Let_def sample_config_def sample_host_def sample_submission_def sample_plan_def policy cwd times
        needs_approval_def env_names_json_def parse_duration_field_def ok_or_def)
qed


lemma sample_plan_fields: "pl_env_json sample_plan = None" "pl_needs_approval sample_plan"
  by (simp_all add: sample_plan_def)

text \<open>The command is submitted, an operator approves it, and its child is spawned.\<close>

abbreviation cmd_1 :: rstr where "cmd_1 \<equiv> lit ''cmd_1''"

abbreviation perm_1 :: rstr where "perm_1 \<equiv> lit ''perm_1''"

definition sample_submitted :: gateway where
  "sample_submitted = submit_register cmd_1 sample_plan (snd (submit_begin (\<lambda>_. True) sample_config sample_host (ok_tx cmd_1) sample_submission
     \<lparr>gw_service = empty_service, gw_commands = [], gw_running = Map.empty, gw_awaiting = Map.empty, gw_tasks = [], gw_spawned = []\<rparr>))"

definition sample_asked :: gateway where
  "sample_asked = snd (submit_ask (\<lambda>_. True) (ok_tx perm_1) [] None cmd_1 sample_plan sample_submitted)"

definition sample_noted :: gateway where
  "sample_noted = submit_note cmd_1 sample_plan perm_1
     (sample_asked\<lparr>gw_service := recheck_request True perm_1 (register_waiter perm_1 (gw_service sample_asked))\<rparr>)"

definition sample_answered :: gateway where
  "sample_answered = sample_noted\<lparr>gw_service := fire_waiter perm_1 (Approved None None)
     (snd (decide_commit (ok_tx (lit ''pdec_1'')) perm_1 (Approved None None) (lit ''admin'') None (gw_service sample_noted)))\<rparr>"

definition sample_spawned :: gateway where
  "sample_spawned = spawn_child True (ok_tx []) cmd_1 sample_plan (mark_running (ok_tx []) cmd_1 sample_plan
     (permission_decided (ok_tx []) (Approved None None) cmd_1 sample_plan perm_1 sample_answered))"

lemmas gateway_sample_defs = sample_spawned_def sample_answered_def sample_noted_def sample_asked_def sample_submitted_def
  submit_begin_def sample_prepare on_commands_def append_command_def submit_register_def submit_ask_def
  submit_note_def permission_decided_def mark_running_def start_command_def update_command_def spawn_child_def continue_def request_returned_def
  command_permission_def recheck_request_def service_sample_defs sample_defs get_command_def new_command_def sample_plan_fields

lemma sample_gateway_reachable: "reachable gateway_init (gateway_step (\<lambda>_. True) action sample_config) sample_spawned"
proof -
  let ?R = "reachable gateway_init (gateway_step (\<lambda>_. True) action sample_config)"
  let ?gw = "\<lparr>gw_service = empty_service, gw_commands = [], gw_running = Map.empty, gw_awaiting = Map.empty, gw_tasks = [], gw_spawned = []\<rparr>"
  note defs = gateway_sample_defs Let_def
  have serve: "?R (gw\<lparr>gw_service := sv'\<rparr>)" if "?R (gw\<lparr>gw_service := sv\<rparr>)" "service_step (\<lambda>_. True) action sv sv'" for gw sv sv'
    using reachable_step [OF that(1), of "gw\<lparr>gw_service := sv'\<rparr>"]
      gateway_step.g_service [of "\<lambda>_. True" action "gw\<lparr>gw_service := sv\<rparr>" sv' sample_config] that(2) by simp
  have "?R ?gw"
    by (rule reachable_init) (simp add: gateway_init_def service_init_def store_init_def empty_service_def empty_store_def)
  then have "?R (snd (submit_begin (\<lambda>_. True) sample_config sample_host (ok_tx cmd_1) sample_submission ?gw))"
    by (rule reachable_step) (rule gateway_step.g_submit)
  then have "?R sample_submitted" unfolding sample_submitted_def
    by (rule reachable_step) (rule gateway_step.g_register, simp add: defs)
  then have "?R sample_asked" unfolding sample_asked_def
    by (rule reachable_step) (rule gateway_step.g_ask, simp add: defs)
  then have "?R (sample_asked\<lparr>gw_service := gw_service sample_asked\<rparr>)" by simp
  then have "?R (sample_asked\<lparr>gw_service := register_waiter perm_1 (gw_service sample_asked)\<rparr>)"
    by (rule serve) (rule service_step.step_register, simp add: defs)
  then have "?R (sample_asked\<lparr>gw_service := recheck_request True perm_1 (register_waiter perm_1 (gw_service sample_asked))\<rparr>)"
    by (rule serve) (rule service_step.step_recheck, simp add: register_waiter_def)
  then have "?R sample_noted" unfolding sample_noted_def
    by (rule reachable_step) (rule gateway_step.g_note, simp_all add: defs)
  then have "?R (sample_noted\<lparr>gw_service := gw_service sample_noted\<rparr>)" by simp
  then have "?R (sample_noted\<lparr>gw_service := snd (decide_commit (ok_tx (lit ''pdec_1'')) perm_1 (Approved None None) (lit ''admin'') None (gw_service sample_noted))\<rparr>)"
    by (rule serve) (rule service_step.step_decide)
  then have "?R sample_answered" unfolding sample_answered_def
    by (rule serve) (rule service_step.step_fire, simp add: defs)
  then have "?R (permission_decided (ok_tx []) (Approved None None) cmd_1 sample_plan perm_1 sample_answered)"
    by (rule reachable_step) (rule gateway_step.g_answered, simp_all add: defs)
  then have "?R (mark_running (ok_tx []) cmd_1 sample_plan (permission_decided (ok_tx []) (Approved None None) cmd_1 sample_plan perm_1 sample_answered))"
    by (rule reachable_step) (rule gateway_step.g_mark, simp add: defs)
  then show ?thesis unfolding sample_spawned_def
    by (rule reachable_step) (rule gateway_step.g_spawn, simp add: defs)
qed

theorem spawned_was_cleared_witness:
  "\<exists>key r. find_request key (sv_store (gw_service sample_spawned)) = Some r \<and> pr_subject_id r = Some cmd_1 \<and> pr_status r = as_str PApproved"
proof -
  have "(cmd_1, sample_plan) \<in> set (gw_spawned sample_spawned)" by (simp add: gateway_sample_defs Let_def)
  from spawned_was_cleared [OF sample_gateway_reachable [of TimeoutDeny] this] show ?thesis
    by (auto simp: sample_config_def simp del: as_str.simps)
qed


section \<open>Behaviours the comments do not describe\<close>

text \<open>
  A review pattern that matches takes precedence over the composition of a command, and in the mode
  \<^verbatim>\<open>auto\<close> it asks for no approval: adding the pattern lets a composed command run that would wait
  without it.
\<close>

abbreviation auto_review :: "rstr list \<Rightarrow> permissions_config" where
  "auto_review patterns \<equiv> \<lparr>mode = lit ''auto'', review = patterns, deny = [], request_timeout = None, timeout_action = None, acp_prompt_action = None\<rparr>"

lemma review_pattern_skips_approval:
  "needs_approval (evaluate_policy (lit ''ls;id'') (auto_review [])) (lit ''auto'') = Ok True"
  "needs_approval (evaluate_policy (lit ''ls;id'') (auto_review [lit ''ls'']) ) (lit ''auto'') = Ok False"
  by (simp_all add: policy_eval text_simps Let_def needs_approval_def)

text \<open>
  A submission whose request for permission fails returns the error after its row and its
  registration exist: both stay, with no supervisor to settle them.
\<close>

lemma failed_request_strands_row:
  assumes "submit_ask json_valid e detail_json expires_at command_id p gw = (Inl err, gw')"
  shows "gw_commands gw' = gw_commands gw" "gw_running gw' = gw_running gw" "gw_tasks gw' = remove1 (SubmitAsk command_id p) (gw_tasks gw)"
  using assms by (auto simp: submit_ask_def continue_def split: prod.splits sum.splits)

end
