(* ===== verification/Session_Locks.thy ===== *)
theory Session_Locks
  imports Prelude
begin

text \<open>
  The per-session mutual exclusion of prompt submission and cancellation
  (\<^verbatim>\<open>src/runtime/agent/supervisor/session_locks.rs\<close>).

  The registry maps a session to a mutex and a count of leases; a mutex is created on first use and
  its entry is removed with the last lease.  A call of \<open>lock\<close> is a task: it leases the entry, waits
  for the mutex, holds it, releases it, and drops its lease.  A waiting call may be dropped at any
  time.  The lemmas show that a session is never held twice although mutexes are created and
  removed while others wait, and that no entry is left behind.
\<close>

section \<open>State\<close>

text \<open>A mutex is named by a number; \<open>lk_next\<close> is the number of the next mutex created.\<close>

record lock_entry =
  le_lock :: nat
  le_leases :: nat

text \<open>A call that has its lease: waiting for the mutex, holding it, or past the release of the mutex.\<close>

datatype phase =
    Waiting rstr nat
  | Holding rstr nat
  | Releasing rstr

fun session_of :: "phase \<Rightarrow> rstr" where
  "session_of (Waiting s m) = s"
| "session_of (Holding s m) = s"
| "session_of (Releasing s) = s"

record locks =
  lk_entries :: "rstr \<rightharpoonup> lock_entry"
  lk_next :: nat
  lk_held :: "nat set"
  lk_tasks :: "phase list"

section \<open>Operations\<close>

definition lease :: "rstr \<Rightarrow> locks \<Rightarrow> nat \<times> locks" where
  "lease session_id lk =
     (let entry = (case lk_entries lk session_id of
            Some entry \<Rightarrow> entry
          | None \<Rightarrow> \<lparr>le_lock = lk_next lk, le_leases = 0\<rparr>)
      in (le_lock entry,
          lk\<lparr>lk_entries := (lk_entries lk)(session_id \<mapsto> entry\<lparr>le_leases := le_leases entry + 1\<rparr>),
             lk_next := (if lk_entries lk session_id = None then lk_next lk + 1 else lk_next lk)\<rparr>))"

definition drop_lease :: "rstr \<Rightarrow> locks \<Rightarrow> locks" where
  "drop_lease session_id lk =
     (case lk_entries lk session_id of
        None \<Rightarrow> lk
      | Some entry \<Rightarrow>
          let leases = le_leases entry - 1 in
          lk\<lparr>lk_entries := (if leases = 0 then (lk_entries lk)(session_id := None)
              else (lk_entries lk)(session_id \<mapsto> entry\<lparr>le_leases := leases\<rparr>))\<rparr>)"

definition start_lock :: "rstr \<Rightarrow> locks \<Rightarrow> locks" where
  "start_lock session_id lk =
     (let (m, lk') = lease session_id lk in lk'\<lparr>lk_tasks := lk_tasks lk' @ [Waiting session_id m]\<rparr>)"

definition move :: "phase \<Rightarrow> phase list \<Rightarrow> locks \<Rightarrow> locks" where
  "move p ps lk = lk\<lparr>lk_tasks := remove1 p (lk_tasks lk) @ ps\<rparr>"

definition take_mutex :: "rstr \<Rightarrow> nat \<Rightarrow> locks \<Rightarrow> locks" where
  "take_mutex session_id m lk = move (Waiting session_id m) [Holding session_id m] (lk\<lparr>lk_held := insert m (lk_held lk)\<rparr>)"

definition release_mutex :: "rstr \<Rightarrow> nat \<Rightarrow> locks \<Rightarrow> locks" where
  "release_mutex session_id m lk = move (Holding session_id m) [Releasing session_id] (lk\<lparr>lk_held := lk_held lk - {m}\<rparr>)"

definition end_lock :: "phase \<Rightarrow> locks \<Rightarrow> locks" where
  "end_lock p lk = move p [] (drop_lease (session_of p) lk)"

text \<open>
  The steps of all calls: start, take a free mutex, give up waiting, drop the guard (the mutex
  first, then the lease).
\<close>

inductive lock_step :: "locks \<Rightarrow> locks \<Rightarrow> bool" where
  step_start: "lock_step lk (start_lock session_id lk)"
| step_take: "Waiting session_id m \<in> set (lk_tasks lk) \<Longrightarrow> m \<notin> lk_held lk \<Longrightarrow>
     lock_step lk (take_mutex session_id m lk)"
| step_abandon: "Waiting session_id m \<in> set (lk_tasks lk) \<Longrightarrow> lock_step lk (end_lock (Waiting session_id m) lk)"
| step_release: "Holding session_id m \<in> set (lk_tasks lk) \<Longrightarrow> lock_step lk (release_mutex session_id m lk)"
| step_end: "Releasing session_id \<in> set (lk_tasks lk) \<Longrightarrow> lock_step lk (end_lock (Releasing session_id) lk)"

definition locks_init :: "locks \<Rightarrow> bool" where
  "locks_init lk \<longleftrightarrow> lk_entries lk = Map.empty \<and> lk_held lk = {} \<and> lk_tasks lk = []"

section \<open>The invariant\<close>

definition calls_on :: "rstr \<Rightarrow> phase list \<Rightarrow> nat" where
  "calls_on s ps = length (filter (\<lambda>p. session_of p = s) ps)"

fun uses_mutex :: "nat \<Rightarrow> phase \<Rightarrow> bool" where
  "uses_mutex m (Waiting s k) = (k = m)"
| "uses_mutex m (Holding s k) = (k = m)"
| "uses_mutex m (Releasing s) = False"

fun holds :: "nat \<Rightarrow> phase \<Rightarrow> bool" where
  "holds m (Holding s k) = (k = m)"
| "holds m _ = False"

definition leases_ok :: "locks \<Rightarrow> bool" where
  "leases_ok lk \<longleftrightarrow> (\<forall>s. (case lk_entries lk s of None \<Rightarrow> 0 | Some e \<Rightarrow> le_leases e) = calls_on s (lk_tasks lk)) \<and>
     (\<forall>s e. lk_entries lk s = Some e \<longrightarrow> le_leases e \<noteq> 0)"

definition mutexes_ok :: "locks \<Rightarrow> bool" where
  "mutexes_ok lk \<longleftrightarrow>
     (\<forall>s e. lk_entries lk s = Some e \<longrightarrow> le_lock e < lk_next lk) \<and>
     (\<forall>s e s' e'. lk_entries lk s = Some e \<longrightarrow> lk_entries lk s' = Some e' \<longrightarrow> le_lock e = le_lock e' \<longrightarrow> s = s') \<and>
     (\<forall>p \<in> set (lk_tasks lk). \<forall>m. uses_mutex m p \<longrightarrow> (\<exists>e. lk_entries lk (session_of p) = Some e \<and> le_lock e = m))"

definition held_ok :: "locks \<Rightarrow> bool" where
  "held_ok lk \<longleftrightarrow> (\<forall>m. length (filter (holds m) (lk_tasks lk)) = (if m \<in> lk_held lk then 1 else 0))"

definition locks_inv :: "locks \<Rightarrow> bool" where
  "locks_inv lk \<longleftrightarrow> leases_ok lk \<and> mutexes_ok lk \<and> held_ok lk"

lemma length_filter_remove1:
  "x \<in> set xs \<Longrightarrow> length (filter P (remove1 x xs)) + (if P x then 1 else 0) = length (filter P xs)"
  by (induction xs) auto

lemma calls_on_move:
  "p \<in> set (lk_tasks lk) \<Longrightarrow>
   calls_on s (lk_tasks (move p ps lk)) + (if session_of p = s then 1 else 0) = calls_on s (lk_tasks lk) + calls_on s ps"
  using length_filter_remove1 [of p "lk_tasks lk" "\<lambda>q. session_of q = s"] by (simp add: calls_on_def move_def)

lemma held_move:
  "p \<in> set (lk_tasks lk) \<Longrightarrow>
   length (filter (holds m) (lk_tasks (move p ps lk))) + (if holds m p then 1 else 0) =
     length (filter (holds m) (lk_tasks lk)) + length (filter (holds m) ps)"
  using length_filter_remove1 [of p "lk_tasks lk" "holds m"] by (simp add: move_def)

lemma move_fields [simp]:
  "lk_entries (move p ps lk) = lk_entries lk" "lk_next (move p ps lk) = lk_next lk" "lk_held (move p ps lk) = lk_held lk"
  by (simp_all add: move_def)

lemma in_move: "q \<in> set (lk_tasks (move p ps lk)) \<Longrightarrow> q \<in> set (lk_tasks lk) \<or> q \<in> set ps"
  using set_remove1_subset [of p "lk_tasks lk"] by (auto simp: move_def)

lemma calls_positive: "p \<in> set ps \<Longrightarrow> 0 < calls_on (session_of p) ps"
  by (auto simp: calls_on_def filter_empty_conv)

lemma entry_of_call:
  assumes "leases_ok lk" and "p \<in> set (lk_tasks lk)"
  obtains e where "lk_entries lk (session_of p) = Some e" "le_leases e = calls_on (session_of p) (lk_tasks lk)"
proof -
  have "(case lk_entries lk (session_of p) of None \<Rightarrow> 0 | Some e \<Rightarrow> le_leases e) = calls_on (session_of p) (lk_tasks lk)"
    using assms(1) by (simp add: leases_ok_def)
  then show ?thesis using that calls_positive [OF assms(2)] by (cases "lk_entries lk (session_of p)") auto
qed

lemma start_inv: "locks_inv lk \<Longrightarrow> locks_inv (start_lock s lk)"
  unfolding locks_inv_def
proof (elim conjE, intro conjI)
  assume ok: "leases_ok lk" "mutexes_ok lk" "held_ok lk"
  show "held_ok (start_lock s lk)" using ok(3) by (simp add: held_ok_def start_lock_def lease_def Let_def)
  have none: "lk_entries lk s = None \<Longrightarrow> calls_on s (lk_tasks lk) = 0"
    using ok(1) unfolding leases_ok_def by (metis option.simps(4))
  have some: "lk_entries lk k = Some e \<Longrightarrow> le_leases e = calls_on k (lk_tasks lk) \<and> le_leases e \<noteq> 0" for k e
    using ok(1) unfolding leases_ok_def by (metis option.simps(5))
  show "leases_ok (start_lock s lk)"
    using ok(1) none some [of s] unfolding leases_ok_def start_lock_def lease_def Let_def
    by (auto simp: calls_on_def split: option.split)
  have no_call: "lk_entries lk s = None \<Longrightarrow> p \<in> set (lk_tasks lk) \<Longrightarrow> session_of p \<noteq> s" for p
    using none calls_positive [of p "lk_tasks lk"] by auto
  show "mutexes_ok (start_lock s lk)"
  proof (cases "lk_entries lk s")
    case None
    then show ?thesis using ok(2) no_call unfolding mutexes_ok_def start_lock_def lease_def Let_def
      by (auto simp: less_SucI) (fastforce dest: less_imp_neq)+
  next
    case (Some e)
    then show ?thesis using ok(2) unfolding mutexes_ok_def start_lock_def lease_def Let_def by auto
  qed
qed

definition has_mutex :: "locks \<Rightarrow> phase \<Rightarrow> bool" where
  "has_mutex lk p \<longleftrightarrow> (\<forall>m. uses_mutex m p \<longrightarrow> (\<exists>e. lk_entries lk (session_of p) = Some e \<and> le_lock e = m))"

lemma mutexes_ok_calls:
  assumes "mutexes_ok lk" and "lk_entries lk' = lk_entries lk" and "lk_next lk' = lk_next lk"
    and "\<And>q. q \<in> set (lk_tasks lk') \<Longrightarrow> q \<in> set (lk_tasks lk) \<or> has_mutex lk q"
  shows "mutexes_ok lk'"
  using assms(1) assms(4) unfolding mutexes_ok_def has_mutex_def assms(2,3) by meson

lemma mutexes_ok_has: "mutexes_ok lk \<Longrightarrow> p \<in> set (lk_tasks lk) \<Longrightarrow> has_mutex lk p"
  unfolding mutexes_ok_def has_mutex_def by blast

lemma take_inv:
  assumes inv: "locks_inv lk" and p: "Waiting s m \<in> set (lk_tasks lk)" and "m \<notin> lk_held lk"
  shows "locks_inv (take_mutex s m lk)"
proof -
  let ?lk = "lk\<lparr>lk_held := insert m (lk_held lk)\<rparr>"
  let ?new = "move (Waiting s m) [Holding s m] ?lk"
  have p': "Waiting s m \<in> set (lk_tasks ?lk)" using p by simp
  have "calls_on k (lk_tasks ?new) = calls_on k (lk_tasks lk)" for k
    using calls_on_move [OF p', of k "[Holding s m]"] by (auto simp: calls_on_def split: if_splits)
  then have "leases_ok ?new" using inv by (simp add: locks_inv_def leases_ok_def)
  moreover have "mutexes_ok ?new"
  proof (rule mutexes_ok_calls)
    show ok: "mutexes_ok lk" using inv by (simp add: locks_inv_def)
    show "q \<in> set (lk_tasks lk) \<or> has_mutex lk q" if "q \<in> set (lk_tasks ?new)" for q
      using in_move [OF that] mutexes_ok_has [OF ok p] by (auto simp: has_mutex_def)
  qed simp_all
  moreover have "held_ok ?new"
    using inv assms(3) held_move [OF p', of _ "[Holding s m]"] unfolding locks_inv_def held_ok_def
    by (auto split: if_splits)
  ultimately show ?thesis by (simp add: take_mutex_def locks_inv_def)
qed

lemma release_inv:
  assumes inv: "locks_inv lk" and p: "Holding s m \<in> set (lk_tasks lk)"
  shows "locks_inv (release_mutex s m lk)"
proof -
  let ?lk = "lk\<lparr>lk_held := lk_held lk - {m}\<rparr>"
  let ?new = "move (Holding s m) [Releasing s] ?lk"
  have p': "Holding s m \<in> set (lk_tasks ?lk)" using p by simp
  have "calls_on k (lk_tasks ?new) = calls_on k (lk_tasks lk)" for k
    using calls_on_move [OF p', of k "[Releasing s]"] by (auto simp: calls_on_def split: if_splits)
  then have "leases_ok ?new" using inv by (simp add: locks_inv_def leases_ok_def)
  moreover have "mutexes_ok ?new"
  proof (rule mutexes_ok_calls)
    show "mutexes_ok lk" using inv by (simp add: locks_inv_def)
    show "q \<in> set (lk_tasks lk) \<or> has_mutex lk q" if "q \<in> set (lk_tasks ?new)" for q
      using in_move [OF that] by (auto simp: has_mutex_def)
  qed simp_all
  moreover have "held_ok ?new" unfolding held_ok_def
  proof
    fix k
    show "length (filter (holds k) (lk_tasks ?new)) = (if k \<in> lk_held ?new then 1 else 0)"
      using inv held_move [OF p', of k "[Releasing s]"] unfolding locks_inv_def held_ok_def
      by (cases "k = m") (auto split: if_splits)
  qed
  ultimately show ?thesis by (simp add: release_mutex_def locks_inv_def)
qed

lemma end_inv:
  assumes inv: "locks_inv lk" and p: "p \<in> set (lk_tasks lk)" and "\<And>m. \<not> holds m p"
  shows "locks_inv (end_lock p lk)"
proof -
  let ?s = "session_of p"
  let ?new = "end_lock p lk"
  obtain e where e: "lk_entries lk ?s = Some e" "le_leases e = calls_on ?s (lk_tasks lk)"
    using entry_of_call inv p unfolding locks_inv_def by blast
  have entries: "lk_entries ?new = (lk_entries lk)(?s := (if le_leases e - 1 = 0 then None else Some (e\<lparr>le_leases := le_leases e - 1\<rparr>)))"
    and rest: "lk_next ?new = lk_next lk" "lk_held ?new = lk_held lk" "lk_tasks ?new = remove1 p (lk_tasks lk)"
    using e(1) by (simp_all add: end_lock_def drop_lease_def move_def Let_def)
  have calls: "calls_on k (lk_tasks ?new) + (if ?s = k then 1 else 0) = calls_on k (lk_tasks lk)" for k
    using length_filter_remove1 [OF p, of "\<lambda>q. session_of q = k"] by (simp add: calls_on_def rest)
  have old: "(case lk_entries lk k of None \<Rightarrow> 0 | Some e \<Rightarrow> le_leases e) = calls_on k (lk_tasks lk)" for k
    using inv by (simp add: locks_inv_def leases_ok_def)
  have other: "k \<noteq> ?s \<Longrightarrow> calls_on k (lk_tasks ?new) = calls_on k (lk_tasks lk)" for k using calls [of k] by simp
  have "leases_ok ?new"
    using inv e calls [of ?s] other old unfolding locks_inv_def leases_ok_def entries
    by (auto simp: fun_upd_def split: if_splits)
  moreover have "mutexes_ok ?new"
  proof -
    have ok: "mutexes_ok lk" using inv by (simp add: locks_inv_def)
    have origin: "\<exists>d'. lk_entries lk k = Some d' \<and> le_lock d' = le_lock d" if "lk_entries ?new k = Some d" for k d
      using that e(1) unfolding entries by (auto split: if_splits)
    have gone: "session_of q \<noteq> ?s" if "le_leases e - 1 = 0" "q \<in> set (lk_tasks ?new)" for q
      using that calls [of ?s] e(2) calls_positive [of q "lk_tasks ?new"] by auto
    have kept: "\<exists>d. lk_entries ?new (session_of q) = Some d \<and> le_lock d = m"
      if "q \<in> set (lk_tasks ?new)" "uses_mutex m q" for q m
    proof -
      have "has_mutex lk q" using mutexes_ok_has [OF ok] that(1) rest(3) by (metis notin_set_remove1)
      then show ?thesis using that(2) gone [OF _ that(1)] e(1) unfolding has_mutex_def entries by auto
    qed
    have "le_lock d < lk_next ?new" if "lk_entries ?new k = Some d" for k d
      using origin [OF that] ok rest(1) unfolding mutexes_ok_def by fastforce
    moreover have "k = k'" if "lk_entries ?new k = Some d" "lk_entries ?new k' = Some d'" "le_lock d = le_lock d'" for k d k' d'
      using origin [OF that(1)] origin [OF that(2)] that(3) ok unfolding mutexes_ok_def by metis
    ultimately show ?thesis using kept unfolding mutexes_ok_def by blast
  qed
  moreover have "length (filter (holds m) (remove1 p (lk_tasks lk))) = length (filter (holds m) (lk_tasks lk))" for m
    using length_filter_remove1 [OF p, of "holds m"] assms(3) by simp
  then have "held_ok ?new" using inv unfolding locks_inv_def held_ok_def rest(2,3) by simp
  ultimately show ?thesis by (simp add: locks_inv_def)
qed

lemma lock_step_inv: "lock_step lk lk' \<Longrightarrow> locks_inv lk \<Longrightarrow> locks_inv lk'"
  by (induction rule: lock_step.induct) (auto intro: start_inv take_inv release_inv end_inv)

interpretation slk: invariant_system locks_init lock_step locks_inv
proof
  show "locks_init lk \<Longrightarrow> locks_inv lk" for lk
    by (simp add: locks_init_def locks_inv_def leases_ok_def mutexes_ok_def held_ok_def calls_on_def)
  show "locks_inv lk \<Longrightarrow> lock_step lk lk' \<Longrightarrow> locks_inv lk'" for lk lk' by (rule lock_step_inv)
qed

section \<open>Properties\<close>

lemma holders_share_mutex:
  assumes "mutexes_ok lk" and "lk_entries lk s = Some e"
  shows "filter (\<lambda>p. \<exists>m. p = Holding s m) (lk_tasks lk) = filter (\<lambda>p. p = Holding s (le_lock e)) (lk_tasks lk)"
  using assms unfolding mutexes_ok_def by (intro filter_cong) fastforce+

text \<open>
  C36: A session is held by one call at a time.  Whatever the interleaving of calls, of waiters
  that give up and of entries that are removed and created again, at most one call holds the lock of
  a session; and the registry has an entry exactly for the sessions with a call in progress, so it
  is empty when none is.
\<close>

theorem session_lock_exclusive:
  assumes "reachable locks_init lock_step lk"
  shows "length (filter (\<lambda>p. \<exists>m. p = Holding s m) (lk_tasks lk)) \<le> 1 \<and>
    dom (lk_entries lk) = session_of ` set (lk_tasks lk)"
proof
  have inv: "leases_ok lk" "mutexes_ok lk" "held_ok lk"
    using slk.reachable_inv [OF assms] by (simp_all add: locks_inv_def)
  show "length (filter (\<lambda>p. \<exists>m. p = Holding s m) (lk_tasks lk)) \<le> 1"
  proof (cases "lk_entries lk s")
    case None
    then have "calls_on s (lk_tasks lk) = 0" using inv(1) unfolding leases_ok_def by (metis option.simps(4))
    then have "filter (\<lambda>p. \<exists>m. p = Holding s m) (lk_tasks lk) = []"
      by (auto simp: calls_on_def filter_empty_conv)
    then show ?thesis by simp
  next
    case (Some e)
    have "length (filter (\<lambda>p. p = Holding s (le_lock e)) (lk_tasks lk)) \<le> length (filter (holds (le_lock e)) (lk_tasks lk))"
      using length_filter_le [of "\<lambda>p. p = Holding s (le_lock e)" "filter (holds (le_lock e)) (lk_tasks lk)"]
      by (simp add: conj_commute) (metis (mono_tags, lifting) filter_cong holds.simps(1))
    also have "\<dots> \<le> 1" using inv(3) by (simp add: held_ok_def)
    finally show ?thesis using holders_share_mutex [OF inv(2) Some] by simp
  qed
  have "s \<in> dom (lk_entries lk) \<longleftrightarrow> 0 < calls_on s (lk_tasks lk)" for s
    using inv(1) unfolding leases_ok_def by (cases "lk_entries lk s") (force dest: spec [of _ s])+
  moreover have "0 < calls_on s (lk_tasks lk) \<longleftrightarrow> s \<in> session_of ` set (lk_tasks lk)" for s
    by (auto simp: calls_on_def filter_empty_conv)
  ultimately show "dom (lk_entries lk) = session_of ` set (lk_tasks lk)" by blast
qed

definition sample_locks :: locks where
  "sample_locks = start_lock (lit ''sess_a'') (take_mutex (lit ''sess_a'') 0 (start_lock (lit ''sess_a'')
     \<lparr>lk_entries = Map.empty, lk_next = 0, lk_held = {}, lk_tasks = []\<rparr>))"

lemmas sample_locks_defs = sample_locks_def take_mutex_def start_lock_def lease_def move_def Let_def

theorem session_lock_exclusive_witness:
  "lk_tasks sample_locks = [Holding (lit ''sess_a'') 0, Waiting (lit ''sess_a'') 0] \<and>
   dom (lk_entries sample_locks) = {lit ''sess_a''}"
proof -
  let ?init = "\<lparr>lk_entries = Map.empty, lk_next = 0, lk_held = {}, lk_tasks = []\<rparr>"
  have "reachable locks_init lock_step ?init" by (rule reachable.intros) (simp add: locks_init_def)
  moreover have "lock_step ?init (start_lock (lit ''sess_a'') ?init)" by (rule step_start)
  moreover have "lock_step (start_lock (lit ''sess_a'') ?init) (take_mutex (lit ''sess_a'') 0 (start_lock (lit ''sess_a'') ?init))"
    by (rule step_take) (simp_all add: start_lock_def lease_def Let_def)
  moreover have "lock_step (take_mutex (lit ''sess_a'') 0 (start_lock (lit ''sess_a'') ?init)) sample_locks"
    unfolding sample_locks_def by (rule step_start)
  ultimately have "reachable locks_init lock_step sample_locks" by (blast intro: reachable_step)
  moreover have "lk_tasks sample_locks = [Holding (lit ''sess_a'') 0, Waiting (lit ''sess_a'') 0]"
    by (simp add: sample_locks_defs)
  ultimately show ?thesis using session_lock_exclusive [of sample_locks "lit ''sess_a''"] by simp
qed

end
