(* ===== verification/Ip_Addr.thy ===== *)
theory Ip_Addr
  imports Stack_Error
begin

text \<open>
  \<^verbatim>\<open>std::net::IpAddr\<close>: addresses, \<^verbatim>\<open>parse::<IpAddr>()\<close> and \<^verbatim>\<open>to_string()\<close> of the Rust
  library, as the HTTP layer uses them.  The parser reads greedily from the front of the text and
  gives the value with the rest; the whole text must be read.
\<close>

datatype ip_addr =
    V4 nat nat nat nat
  | V6 "nat list"

section \<open>Parsing\<close>

definition is_radix_digit :: "nat \<Rightarrow> rchar \<Rightarrow> bool" where
  [text_simps]: "is_radix_digit radix c \<longleftrightarrow> (if radix = 10 then is_ascii_digit c else is_ascii_hexdigit c)"

definition read_number :: "nat \<Rightarrow> nat \<Rightarrow> bool \<Rightarrow> nat \<Rightarrow> rstr \<Rightarrow> (nat \<times> rstr) option" where
  "read_number radix max_digits allow_zero_prefix bound s =
     (let digits = takeWhile (is_radix_digit radix) s; n = digits_value radix digits in
      if digits = [] \<or> max_digits < length digits then None
      else if \<not> allow_zero_prefix \<and> hd digits = 48 \<and> 1 < length digits then None
      else if n < bound then Some (n, dropWhile (is_radix_digit radix) s) else None)"

definition read_given_char :: "rchar \<Rightarrow> rstr \<Rightarrow> rstr option" where
  "read_given_char c s = (case s of d # t \<Rightarrow> if d = c then Some t else None | [] \<Rightarrow> None)"

definition read_separator :: "rchar \<Rightarrow> nat \<Rightarrow> (rstr \<Rightarrow> ('a \<times> rstr) option) \<Rightarrow> rstr \<Rightarrow> ('a \<times> rstr) option" where
  "read_separator sep index inner s =
     (if index = 0 then inner s else case read_given_char sep s of Some t \<Rightarrow> inner t | None \<Rightarrow> None)"

fun read_octets :: "nat \<Rightarrow> nat \<Rightarrow> rstr \<Rightarrow> (nat list \<times> rstr) option" where
  "read_octets i 0 s = Some ([], s)"
| "read_octets i (Suc n) s =
     (case read_separator 46 i (read_number 10 3 False 256) s of
        None \<Rightarrow> None
      | Some (octet, t) \<Rightarrow> map_option (\<lambda>(octets, u). (octet # octets, u)) (read_octets (Suc i) n t))"

definition read_ipv4_addr :: "rstr \<Rightarrow> (nat list \<times> rstr) option" where
  "read_ipv4_addr s = read_octets 0 4 s"

text \<open>
  The groups of one side of an IPv6 address, at most \<open>left\<close> from index \<open>i\<close> on; the flag is an embedded
  IPv4 address, which ends the side.
\<close>

fun read_groups :: "nat \<Rightarrow> nat \<Rightarrow> rstr \<Rightarrow> nat list \<times> bool \<times> rstr" where
  "read_groups i 0 s = ([], False, s)"
| "read_groups i (Suc left) s =
     (case (if 0 < left then read_separator 58 i read_ipv4_addr s else None) of
        Some ([a, b, c, d], t) \<Rightarrow> ([a * 256 + b, c * 256 + d], True, t)
      | _ \<Rightarrow>
          (case read_separator 58 i (read_number 16 4 True 65536) s of
             None \<Rightarrow> ([], False, s)
           | Some (g, t) \<Rightarrow>
               let (groups, embedded, u) = read_groups (Suc i) left t in (g # groups, embedded, u)))"

definition read_ipv6_addr :: "rstr \<Rightarrow> (nat list \<times> rstr) option" where
  "read_ipv6_addr s =
     (case read_groups 0 8 s of
        (head, head_ipv4, t) \<Rightarrow>
          if length head = 8 then Some (head, t)
          else if head_ipv4 then None
          else case Option.bind (read_given_char 58 t) (read_given_char 58) of
            None \<Rightarrow> None
          | Some u \<Rightarrow>
              (case read_groups 0 (8 - (length head + 1)) u of
                 (tail, _, v) \<Rightarrow> Some (head @ replicate (8 - length head - length tail) 0 @ tail, v)))"

definition parse_ip :: "rstr \<Rightarrow> ip_addr option" where
  "parse_ip s =
     (case read_ipv4_addr s of
        Some (octets, []) \<Rightarrow> Some (V4 (octets ! 0) (octets ! 1) (octets ! 2) (octets ! 3))
      | Some (octets, _) \<Rightarrow> None
      | None \<Rightarrow>
          (case read_ipv6_addr s of
             Some (groups, []) \<Rightarrow> Some (V6 groups)
           | _ \<Rightarrow> None))"

section \<open>Printing\<close>

fun show_hex :: "nat \<Rightarrow> rstr" where
  "show_hex n = (let d = (\<lambda>k. if k < 10 then 48 + k else 87 + k) in
     if n < 16 then [d n] else show_hex (n div 16) @ [d (n mod 16)])"

declare show_hex.simps [simp del]

definition show_v4 :: "nat \<Rightarrow> nat \<Rightarrow> nat \<Rightarrow> nat \<Rightarrow> rstr" where
  "show_v4 a b c d = join_with [46] [show_nat a, show_nat b, show_nat c, show_nat d]"

text \<open>The longest run of zero groups, the first of them when there are several, as start and length.\<close>

fun zero_run :: "nat \<Rightarrow> nat \<times> nat \<Rightarrow> nat \<times> nat \<Rightarrow> nat list \<Rightarrow> nat \<times> nat" where
  "zero_run i longest current [] = longest"
| "zero_run i longest current (g # gs) =
     (if g = 0 then
        let current = (if snd current = 0 then i else fst current, snd current + 1) in
        zero_run (Suc i) (if snd longest < snd current then current else longest) current gs
      else zero_run (Suc i) longest (0, 0) gs)"

definition show_groups :: "nat list \<Rightarrow> rstr" where
  "show_groups gs = join_with [58] (map show_hex gs)"

definition show_v6 :: "nat list \<Rightarrow> rstr" where
  "show_v6 gs =
     (if take 6 gs = [0, 0, 0, 0, 0, 0xFFFF] then
        lit ''::ffff:'' @ show_v4 (gs ! 6 div 256) (gs ! 6 mod 256) (gs ! 7 div 256) (gs ! 7 mod 256)
      else let (start, len) = zero_run 0 (0, 0) (0, 0) gs in
        if 1 < len then show_groups (take start gs) @ [58, 58] @ show_groups (drop (start + len) gs)
        else show_groups gs)"

fun ip_to_string :: "ip_addr \<Rightarrow> rstr" where
  "ip_to_string (V4 a b c d) = show_v4 a b c d"
| "ip_to_string (V6 gs) = show_v6 gs"

section \<open>Reading back an IPv4 address\<close>

lemma show_nat_less_10: "n < 10 \<Longrightarrow> show_nat n = [48 + n]"
  by (simp add: show_nat.simps)

lemma show_nat_bounds:
  assumes "n < 256"
  shows "length (show_nat n) \<le> 3" "hd (show_nat n) = 48 \<Longrightarrow> length (show_nat n) = 1"
proof -
  consider "n < 10" | "10 \<le> n" "n < 100" | "100 \<le> n" using assms by linarith
  then have "length (show_nat n) \<le> 3 \<and> (hd (show_nat n) = 48 \<longrightarrow> length (show_nat n) = 1)"
  proof cases
    case 1
    then show ?thesis by (simp add: show_nat_less_10)
  next
    case 2
    then have "show_nat n = [48 + n div 10, 48 + n mod 10]"
      by (subst show_nat.simps) (simp add: show_nat_less_10)
    then show ?thesis using 2 by simp
  next
    case 3
    have "n div 10 div 10 < 10" "10 \<le> n div 10" using assms 3 by linarith+
    then have "show_nat n = [48 + n div 10 div 10, 48 + n div 10 mod 10, 48 + n mod 10]"
      using 3 by (subst show_nat.simps, subst show_nat.simps) (simp add: show_nat_less_10)
    then show ?thesis using 3 \<open>10 \<le> n div 10\<close> by simp
  qed
  then show "length (show_nat n) \<le> 3" "hd (show_nat n) = 48 \<Longrightarrow> length (show_nat n) = 1" by auto
qed

lemma read_number_show:
  assumes "n < 256" and "s = [] \<or> \<not> is_ascii_digit (hd s)"
  shows "read_number 10 3 False 256 (show_nat n @ s) = Some (n, s)"
proof -
  have all: "\<forall>c \<in> set (show_nat n). is_radix_digit 10 c"
    using show_nat_digits [of n] by (simp add: list_all_iff is_radix_digit_def)
  have stop: "takeWhile (is_radix_digit 10) s = []" "dropWhile (is_radix_digit 10) s = s"
    using assms(2) by (cases s; simp add: is_radix_digit_def)+
  have "takeWhile (is_radix_digit 10) (show_nat n @ s) = show_nat n" "dropWhile (is_radix_digit 10) (show_nat n @ s) = s"
    using all stop by (simp_all add: takeWhile_append2 dropWhile_append2)
  then show ?thesis
    using show_nat_bounds [OF assms(1)] show_nat_digits [of n] assms(1)
    by (auto simp: read_number_def Let_def digits_value_show_nat)
qed

lemma parse_ip_v4:
  assumes "a < 256" "b < 256" "c < 256" "d < 256"
  shows "parse_ip (ip_to_string (V4 a b c d)) = Some (V4 a b c d)"
proof -
  have dot: "read_separator 46 (Suc i) (read_number 10 3 False 256) (46 # show_nat n @ s) = Some (n, s)"
    if "n < 256" "s = [] \<or> \<not> is_ascii_digit (hd s)" for i n s
    using read_number_show [OF that] by (simp add: read_separator_def read_given_char_def)
  have first: "read_separator 46 0 (read_number 10 3 False 256) (show_nat a @ 46 # s) = Some (a, 46 # s)" for s
    using read_number_show [OF assms(1), of "46 # s"] by (simp add: read_separator_def is_ascii_digit_def)
  have "read_octets 0 4 (show_nat a @ 46 # show_nat b @ 46 # show_nat c @ 46 # show_nat d) = Some ([a, b, c, d], [])"
    using first dot [OF assms(2)] dot [OF assms(3)] dot [OF assms(4), of "[]"]
    by (simp add: numeral_eq_Suc is_ascii_digit_def)
  then show ?thesis by (simp add: parse_ip_def read_ipv4_addr_def show_v4_def)
qed

end
