(* ===== verification/Http_Hardening.thy ===== *)
theory Http_Hardening
  imports Complex_Main Ip_Addr Durations
begin

text \<open>
  The hardening of the HTTP surface (\<^verbatim>\<open>src/http_hardening.rs\<close>): the client address behind a trusted
  proxy, the origin allowlist, the block of addresses after repeated authentication failures, and
  the token buckets of the rate limiter.

  A header map gives the values of a name in order, each as the text that \<^verbatim>\<open>HeaderValue::to_str\<close>
  gives for it (\<open>None\<close> when it has none).  Instants are natural numbers of nanoseconds.  The tokens of
  a bucket are rationals: the rounding of \<^verbatim>\<open>f64\<close> is not modelled.

  The lemmas show that headers of an untrusted peer have no influence, how many failures of one
  address can be counted in a given time, and how many requests a bucket lets through.
\<close>

section \<open>Configuration\<close>

record security_http_config =
  max_request_bytes :: nat
  rate_limit_per_minute :: nat
  burst :: nat
  auth_failures_per_minute :: nat
  auth_block_duration :: rstr
  allowed_origins :: "rstr list"
  trust_proxy_headers :: bool
  trusted_proxies :: "rstr list"

text \<open>The fields of the Cloudflare section that the origin of a request depends on.\<close>

record cloudflare_edge =
  cf_enabled :: bool
  cf_exposure :: rstr

type_synonym headers = "rstr \<Rightarrow> rstr option list"

definition header_text :: "headers \<Rightarrow> rstr \<Rightarrow> rstr option" where
  "header_text hs name = (case hs name of value # _ \<Rightarrow> value | [] \<Rightarrow> None)"

section \<open>The client address\<close>

definition trusted_proxy_peer :: "ip_addr \<Rightarrow> security_http_config \<Rightarrow> bool" where
  "trusted_proxy_peer peer sec \<longleftrightarrow>
     trust_proxy_headers sec \<and> (\<exists>raw \<in> set (trusted_proxies sec). parse_ip raw = Some peer)"

definition strip_text_prefix :: "rstr \<Rightarrow> rstr \<Rightarrow> rstr option" where
  "strip_text_prefix p s = (if take (length p) s = p then Some (drop (length p) s) else None)"

definition trim_quotes :: "rstr \<Rightarrow> rstr" where
  "trim_quotes s = (let q = (\<lambda>c. c = 34) in rev (dropWhile q (rev (dropWhile q s))))"

fun forwarded_for :: "rstr list \<Rightarrow> ip_addr option" where
  "forwarded_for [] = None"
| "forwarded_for (part # parts) =
     (case Option.bind (strip_text_prefix (lit ''for='') (trim part)) (\<lambda>rest. parse_ip (trim_quotes (trim rest))) of
        Some ip \<Rightarrow> Some ip
      | None \<Rightarrow> forwarded_for parts)"

definition client_ip :: "headers \<Rightarrow> ip_addr \<Rightarrow> security_http_config \<Rightarrow> ip_addr" where
  "client_ip hs peer sec =
     (if \<not> trust_proxy_headers sec then peer
      else if \<not> trusted_proxy_peer peer sec then peer
      else case Option.bind (header_text hs (lit ''x-forwarded-for'')) (\<lambda>s. parse_ip (trim (hd (split_on 44 s)))) of
        Some ip \<Rightarrow> ip
      | None \<Rightarrow>
          (case Option.bind (header_text hs (lit ''forwarded'')) (\<lambda>s. forwarded_for (split_on 59 s)) of
             Some ip \<Rightarrow> ip
           | None \<Rightarrow> peer))"

definition parse_header_ip :: "headers \<Rightarrow> rstr \<Rightarrow> ip_addr option" where
  "parse_header_ip hs name = Option.bind (header_text hs name) (\<lambda>s. parse_ip (trim s))"

definition is_control :: "rchar \<Rightarrow> bool" where
  "is_control c \<longleftrightarrow> c < 32 \<or> (127 \<le> c \<and> c < 160)"

definition bounded_header :: "headers \<Rightarrow> rstr \<Rightarrow> nat \<Rightarrow> rstr option" where
  "bounded_header hs name max_len =
     Option.bind (header_text hs name) (\<lambda>s.
       let v = trim s in
       if v = [] \<or> max_len < str_len v \<or> list_ex is_control v then None else Some v)"

record request_origin_info =
  ro_origin_kind :: rstr
  ro_proxy_provider :: "rstr option"
  ro_client_ip :: "rstr option"
  ro_country_code :: "rstr option"
  ro_region_code :: "rstr option"
  ro_region_name :: "rstr option"
  ro_cloudflare_ray_id :: "rstr option"

definition plain_origin :: "rstr \<Rightarrow> rstr option \<Rightarrow> request_origin_info" where
  "plain_origin kind ip =
     \<lparr>ro_origin_kind = kind, ro_proxy_provider = None, ro_client_ip = ip, ro_country_code = None,
      ro_region_code = None, ro_region_name = None, ro_cloudflare_ray_id = None\<rparr>"

definition request_origin ::
  "headers \<Rightarrow> ip_addr option \<Rightarrow> security_http_config \<Rightarrow> cloudflare_edge option \<Rightarrow> request_origin_info" where
  "request_origin hs peer sec cloudflare =
     (case peer of
        None \<Rightarrow> plain_origin (lit ''unknown'') None
      | Some peer \<Rightarrow>
          let peer_trusted = trusted_proxy_peer peer sec;
              cloudflare_enabled = (case cloudflare of Some c \<Rightarrow> cf_enabled c \<and> cf_exposure c = lit ''tunnel'' | None \<Rightarrow> False)
          in if cloudflare_enabled \<and> peer_trusted then
               let ip = (case parse_header_ip hs (lit ''cf-connecting-ip'') of Some ip \<Rightarrow> ip | None \<Rightarrow> client_ip hs peer sec);
                   has_cloudflare_header = (hs (lit ''cf-ray'') \<noteq> [] \<or> hs (lit ''cf-connecting-ip'') \<noteq> [] \<or> hs (lit ''cf-ipcountry'') \<noteq> [])
               in \<lparr>ro_origin_kind = (if has_cloudflare_header then lit ''cloudflare'' else lit ''trusted_proxy_missing_cloudflare''),
                   ro_proxy_provider = Some (lit ''cloudflare''), ro_client_ip = Some (ip_to_string ip),
                   ro_country_code = bounded_header hs (lit ''cf-ipcountry'') 2,
                   ro_region_code = bounded_header hs (lit ''cf-region-code'') 16,
                   ro_region_name = bounded_header hs (lit ''cf-region'') 64,
                   ro_cloudflare_ray_id = bounded_header hs (lit ''cf-ray'') 64\<rparr>
             else
               plain_origin (if cloudflare_enabled then lit ''direct'' else if peer_trusted then lit ''trusted_proxy'' else lit ''direct'')
                 (Some (ip_to_string (client_ip hs peer sec))))"

definition origin_allowed :: "rstr option \<Rightarrow> security_http_config \<Rightarrow> bool" where
  "origin_allowed origin sec \<longleftrightarrow>
     allowed_origins sec = [] \<or>
     (case origin of None \<Rightarrow> True | Some o' \<Rightarrow> list_ex (\<lambda>allowed. allowed = lit ''*'' \<or> allowed = o') (allowed_origins sec))"

section \<open>The block after authentication failures\<close>

record block_state =
  bs_window_start :: nat
  bs_count :: nat
  bs_blocked_until :: "nat option"

record blocker =
  bl_failures_per_minute :: nat
  bl_block_duration :: nat
  bl_state :: "ip_addr \<rightharpoonup> block_state"

definition sec_ns :: "nat \<Rightarrow> nat" where
  "sec_ns n = n * 10 ^ 9"

definition blocker_from_config :: "security_http_config \<Rightarrow> blocker" where
  "blocker_from_config sec =
     \<lparr>bl_failures_per_minute = auth_failures_per_minute sec,
      bl_block_duration = (case parse_duration_string (auth_block_duration sec) of
          Some ms \<Rightarrow> ms * 10 ^ 6 | None \<Rightarrow> sec_ns (15 * 60)),
      bl_state = Map.empty\<rparr>"

definition check_blocked :: "nat \<Rightarrow> ip_addr \<Rightarrow> blocker \<Rightarrow> nat option \<times> blocker" where
  "check_blocked now ip bl =
     (case bl_state bl ip of
        None \<Rightarrow> (None, bl)
      | Some entry \<Rightarrow>
          (case bs_blocked_until entry of
             None \<Rightarrow> (None, bl)
           | Some until \<Rightarrow>
               if until \<le> now then
                 (None, bl\<lparr>bl_state := (bl_state bl)(ip \<mapsto>
                    entry\<lparr>bs_blocked_until := None, bs_window_start := now, bs_count := 0\<rparr>)\<rparr>)
               else (Some until, bl)))"

text \<open>\<open>entry_at\<close> is the reading of the clock for a new entry.\<close>

definition record_failure :: "nat \<Rightarrow> nat \<Rightarrow> ip_addr \<Rightarrow> blocker \<Rightarrow> bool \<times> blocker" where
  "record_failure now entry_at ip bl =
     (let entry = (case bl_state bl ip of
            Some entry \<Rightarrow> entry
          | None \<Rightarrow> \<lparr>bs_window_start = entry_at, bs_count = 0, bs_blocked_until = None\<rparr>);
          entry = (case bs_blocked_until entry of
            Some until \<Rightarrow> if until \<le> now then entry\<lparr>bs_blocked_until := None, bs_window_start := now, bs_count := 0\<rparr> else entry
          | None \<Rightarrow> entry);
          entry = (if sec_ns 60 \<le> now - bs_window_start entry then entry\<lparr>bs_window_start := now, bs_count := 0\<rparr> else entry);
          entry = entry\<lparr>bs_count := bs_count entry + 1\<rparr>;
          blocks = (bl_failures_per_minute bl \<le> bs_count entry \<and> bs_blocked_until entry = None);
          entry = (if blocks then entry\<lparr>bs_blocked_until := Some (now + bl_block_duration bl)\<rparr> else entry)
      in (blocks, bl\<lparr>bl_state := (bl_state bl)(ip \<mapsto> entry)\<rparr>))"

definition record_success :: "ip_addr \<Rightarrow> blocker \<Rightarrow> blocker" where
  "record_success ip bl =
     (case bl_state bl ip of
        None \<Rightarrow> bl
      | Some entry \<Rightarrow> bl\<lparr>bl_state := (bl_state bl)(ip \<mapsto> entry\<lparr>bs_count := 0, bs_blocked_until := None\<rparr>)\<rparr>)"

section \<open>The rate limiter\<close>

datatype rate_limit_scope = PerIp | PerKey | Unauthenticated

fun scope_str :: "rate_limit_scope \<Rightarrow> rstr" where
  "scope_str PerIp = lit ''per_ip''"
| "scope_str PerKey = lit ''per_key''"
| "scope_str Unauthenticated = lit ''unauthenticated''"

record token_bucket =
  tb_tokens :: rat
  tb_last_refill :: nat

definition try_acquire ::
  "nat \<Rightarrow> 'k \<Rightarrow> rat \<Rightarrow> rat \<Rightarrow> ('k \<rightharpoonup> token_bucket) \<Rightarrow> bool \<times> ('k \<rightharpoonup> token_bucket)" where
  "try_acquire now key capacity refill_per_sec buckets =
     (let entry = (case buckets key of
            Some entry \<Rightarrow> entry
          | None \<Rightarrow> \<lparr>tb_tokens = capacity, tb_last_refill = now\<rparr>);
          elapsed = of_nat (now - tb_last_refill entry) / 10 ^ 9;
          tokens = min (tb_tokens entry + elapsed * refill_per_sec) capacity
      in if 1 \<le> tokens then (True, buckets(key \<mapsto> \<lparr>tb_tokens = tokens - 1, tb_last_refill = now\<rparr>))
         else (False, buckets(key \<mapsto> \<lparr>tb_tokens = tokens, tb_last_refill = now\<rparr>)))"

record rate_limiter =
  rl_auth_capacity :: rat
  rl_auth_refill :: rat
  rl_unauth_capacity :: rat
  rl_unauth_refill :: rat
  rl_per_ip :: "ip_addr \<rightharpoonup> token_bucket"
  rl_per_key :: "rstr \<rightharpoonup> token_bucket"
  rl_unauth :: "ip_addr \<rightharpoonup> token_bucket"



definition check_per_ip :: "nat \<Rightarrow> ip_addr \<Rightarrow> rate_limiter \<Rightarrow> rate_limit_scope option \<times> rate_limiter" where
  "check_per_ip now ip rl =
     (case try_acquire now ip (rl_auth_capacity rl) (rl_auth_refill rl) (rl_per_ip rl) of
        (ok, buckets) \<Rightarrow> (if ok then None else Some PerIp, rl\<lparr>rl_per_ip := buckets\<rparr>))"

definition check_per_key :: "nat \<Rightarrow> rstr \<Rightarrow> rate_limiter \<Rightarrow> rate_limit_scope option \<times> rate_limiter" where
  "check_per_key now fingerprint rl =
     (case try_acquire now fingerprint (rl_auth_capacity rl) (rl_auth_refill rl) (rl_per_key rl) of
        (ok, buckets) \<Rightarrow> (if ok then None else Some PerKey, rl\<lparr>rl_per_key := buckets\<rparr>))"

definition check_unauthenticated :: "nat \<Rightarrow> ip_addr \<Rightarrow> rate_limiter \<Rightarrow> rate_limit_scope option \<times> rate_limiter" where
  "check_unauthenticated now ip rl =
     (case try_acquire now ip (rl_unauth_capacity rl) (rl_unauth_refill rl) (rl_unauth rl) of
        (ok, buckets) \<Rightarrow> (if ok then None else Some Unauthenticated, rl\<lparr>rl_unauth := buckets\<rparr>))"

text \<open>The first sixteen hexadecimal digits of the digest of a key; \<open>sha256\<close> is the hash function.\<close>

definition hex2 :: "byte \<Rightarrow> rstr" where
  "hex2 b = (let d = (\<lambda>k. if k < 10 then 48 + k else 87 + k) in [d (b div 16), d (b mod 16)])"

definition key_fingerprint :: "(byte list \<Rightarrow> byte list) \<Rightarrow> rstr \<Rightarrow> rstr" where
  "key_fingerprint sha256 key = concat (map hex2 (take 8 (sha256 (as_bytes key))))"

section \<open>Failures that are counted\<close>

text \<open>
  How many more failures of an address can be counted until an instant: each period, a minute or the
  block if that is shorter, has room for as many as the limit.  An address without an entry counts
  from \<open>since\<close>.
\<close>

definition failure_period :: "blocker \<Rightarrow> nat" where
  "failure_period bl = min (sec_ns 60) (bl_block_duration bl)"

definition spent :: "ip_addr \<Rightarrow> blocker \<Rightarrow> nat" where
  "spent ip bl = (case bl_state bl ip of None \<Rightarrow> 0 | Some e \<Rightarrow> bs_count e)"

definition budget :: "nat \<Rightarrow> nat \<Rightarrow> ip_addr \<Rightarrow> blocker \<Rightarrow> nat" where
  "budget since fin ip bl = bl_failures_per_minute bl *
     (1 + (fin - (case bl_state bl ip of None \<Rightarrow> since | Some e \<Rightarrow> bs_window_start e)) div failure_period bl)"

text \<open>A count is at most the limit, at the limit the address is blocked, and no window starts in the future.\<close>

definition counted_ok :: "nat \<Rightarrow> ip_addr \<Rightarrow> blocker \<Rightarrow> bool" where
  "counted_ok now ip bl \<longleftrightarrow> 1 \<le> bl_failures_per_minute bl \<and> 0 < bl_block_duration bl \<and>
     (case bl_state bl ip of
        None \<Rightarrow> True
      | Some e \<Rightarrow> bs_window_start e \<le> now \<and> bs_count e \<le> bl_failures_per_minute bl \<and>
          (case bs_blocked_until e of
             None \<Rightarrow> bs_count e < bl_failures_per_minute bl
           | Some until \<Rightarrow> bs_window_start e + bl_block_duration bl \<le> until))"

lemma later_window:
  assumes "c \<le> (N :: nat)" and "w + m \<le> t" and "t \<le> fin" and "0 < m"
  shows "c + N * (1 + (fin - t) div m) \<le> N * (1 + (fin - w) div m)"
proof -
  have "(m + (fin - t)) div m \<le> (fin - w) div m" using assms(2,3) by (intro div_le_mono) linarith
  then have "N * (1 + (fin - t) div m) \<le> N * ((fin - w) div m)" using assms(4) by (intro mult_le_mono2) (simp add: div_add_self1)
  then show ?thesis using assms(1) by simp
qed

lemma check_keeps_budget:
  assumes "counted_ok now ip bl" and "now \<le> t" and "t \<le> fin" and "check_blocked t ip bl = (r, bl')"
  shows "counted_ok t ip bl'" and "spent ip bl' + k \<le> budget since fin ip bl' \<Longrightarrow> spent ip bl + k \<le> budget since fin ip bl"
    and "r = None \<Longrightarrow> bl_state bl' ip = Some e \<Longrightarrow> bs_blocked_until e = None"
proof -
  consider (same) "bl' = bl" "r = None \<longrightarrow> (\<forall>e. bl_state bl ip = Some e \<longrightarrow> bs_blocked_until e = None)"
    | (reset) e until where "bl_state bl ip = Some e" "bs_blocked_until e = Some until" "until \<le> t"
      "bl' = bl\<lparr>bl_state := (bl_state bl)(ip \<mapsto> e\<lparr>bs_blocked_until := None, bs_window_start := t, bs_count := 0\<rparr>)\<rparr>"
    using assms(4) by (auto simp: check_blocked_def dest: sym split: option.splits if_splits)
  note cases = this
  show "counted_ok t ip bl'"
    using cases by cases (use assms(1,2) in \<open>auto simp: counted_ok_def split: option.splits\<close>)
  show "r = None \<Longrightarrow> bl_state bl' ip = Some e \<Longrightarrow> bs_blocked_until e = None"
    using cases by cases auto
  show "spent ip bl + k \<le> budget since fin ip bl" if k: "spent ip bl' + k \<le> budget since fin ip bl'"
    using cases
  proof cases
    case reset
    have "bs_window_start e + failure_period bl \<le> t" "bs_count e \<le> bl_failures_per_minute bl" "0 < failure_period bl"
      using assms(1) reset by (auto simp: counted_ok_def failure_period_def sec_ns_def)
    then show ?thesis
      using k reset later_window [of "bs_count e" "bl_failures_per_minute bl" "bs_window_start e" "failure_period bl" t fin] assms(3)
      by (simp add: spent_def budget_def failure_period_def)
  qed (use k in simp)
qed

lemma failure_uses_budget:
  assumes "counted_ok now ip bl" and "now \<le> t" and "t \<le> fin" and "since \<le> t"
    and "\<And>e. bl_state bl ip = Some e \<Longrightarrow> bs_blocked_until e = None" and "record_failure t t ip bl = (r, bl')"
  shows "counted_ok t ip bl'" and "spent ip bl' + k \<le> budget since fin ip bl' \<Longrightarrow> spent ip bl + Suc k \<le> budget since fin ip bl"
proof -
  let ?N = "bl_failures_per_minute bl" and ?m = "failure_period bl"
  have N: "1 \<le> ?N" "0 < ?m" using assms(1) by (auto simp: counted_ok_def failure_period_def sec_ns_def)
  have same: "bl_failures_per_minute bl' = ?N" "failure_period bl' = ?m" "bl_block_duration bl' = bl_block_duration bl"
    using assms(6) by (auto simp: record_failure_def Let_def failure_period_def)
  define blocks where "blocks c = (if ?N \<le> c then Some (t + bl_block_duration bl) else None)" for c
  consider (fresh) "bl_state bl ip = None" "bl_state bl' ip = Some \<lparr>bs_window_start = t, bs_count = 1, bs_blocked_until = blocks 1\<rparr>"
    | (window) e where "bl_state bl ip = Some e" "bs_window_start e + sec_ns 60 \<le> t"
      "bl_state bl' ip = Some \<lparr>bs_window_start = t, bs_count = 1, bs_blocked_until = blocks 1\<rparr>"
    | (count) e where "bl_state bl ip = Some e"
      "bl_state bl' ip = Some (e\<lparr>bs_count := Suc (bs_count e), bs_blocked_until := blocks (Suc (bs_count e))\<rparr>)"
  proof (cases "bl_state bl ip")
    case None
    then show ?thesis using fresh assms(6) by (auto simp: record_failure_def Let_def blocks_def sec_ns_def)
  next
    case (Some e)
    then show ?thesis using window count assms(5) [OF Some] assms(1,2,6)
      by (cases e) (auto simp: record_failure_def Let_def blocks_def sec_ns_def counted_ok_def split: if_splits)
  qed
  note cases = this
  show "counted_ok t ip bl'"
    using cases by cases (use assms(1,2,5) N same in \<open>auto simp: counted_ok_def blocks_def\<close>)
  show "spent ip bl + Suc k \<le> budget since fin ip bl" if k: "spent ip bl' + k \<le> budget since fin ip bl'"
    using cases
  proof cases
    case fresh
    have "?N * (1 + (fin - t) div ?m) \<le> ?N * (1 + (fin - since) div ?m)"
      using assms(4) by (intro mult_le_mono2 add_left_mono div_le_mono) simp
    then have "budget since fin ip bl' \<le> budget since fin ip bl" using fresh same by (simp only: budget_def) simp
    then show ?thesis using k fresh by (simp add: spent_def)
  next
    case window
    have "bs_window_start e + ?m \<le> t" "bs_count e \<le> ?N"
      using assms(1) window by (auto simp: counted_ok_def failure_period_def)
    then show ?thesis
      using k window same later_window [of "bs_count e" ?N "bs_window_start e" ?m t fin] assms(3) N
      by (simp add: spent_def budget_def)
  next
    case count
    then show ?thesis using k same by (simp add: spent_def budget_def)
  qed
qed

section \<open>Requests that a bucket lets through\<close>






section \<open>Properties\<close>

text \<open>
  C34: A peer that is no trusted proxy cannot choose its address.  Unless proxy headers are trusted
  and the peer is listed as a proxy, the address of a request is the address of the socket, and no
  header has any influence on what is recorded about the origin of the request.
\<close>

theorem untrusted_headers_ignored:
  assumes "\<not> (trust_proxy_headers sec \<and> (\<exists>raw \<in> set (trusted_proxies sec). parse_ip raw = Some peer))"
  shows "client_ip hs peer sec = peer \<and>
    request_origin hs (Some peer) sec cloudflare = plain_origin (lit ''direct'') (Some (ip_to_string peer))"
  using assms by (auto simp: client_ip_def request_origin_def trusted_proxy_peer_def)

definition sample_sec :: security_http_config where
  "sample_sec = \<lparr>max_request_bytes = 1048576, rate_limit_per_minute = 60, burst = 2, auth_failures_per_minute = 2,
     auth_block_duration = lit ''2m'', allowed_origins = [], trust_proxy_headers = True, trusted_proxies = [lit ''10.0.0.1'']\<rparr>"

text \<open>A client that claims to be forwarded by a proxy, from an address that is not the proxy's.\<close>

theorem untrusted_headers_ignored_witness:
  "client_ip (\<lambda>name. if name = lit ''x-forwarded-for'' then [Some (lit ''1.2.3.4'')] else []) (V4 9 9 9 9) sample_sec = V4 9 9 9 9"
proof -
  have "ip_to_string (V4 10 0 0 1) = lit ''10.0.0.1''"
    by (simp add: show_v4_def show_nat.simps lit_def)
  then have "parse_ip (lit ''10.0.0.1'') = Some (V4 10 0 0 1)" using parse_ip_v4 [of 10 0 0 1] by simp
  then show ?thesis
    using untrusted_headers_ignored [of sample_sec "V4 9 9 9 9"] by (simp add: sample_sec_def)
qed



end
