(* ===== verification/Auth_Keys.thy ===== *)
theory Auth_Keys
  imports Stack_Error
begin

text \<open>
  API keys: the verifiers of \<^verbatim>\<open>src/auth.rs\<close> and their rows in \<^verbatim>\<open>src/state/auth.rs\<close>.

  A key is never stored: a row holds a salt and the digest of the salt and the key.  The hash
  function, the comparison of byte strings of one length and the text encoding of bytes are those of
  external crates and are parameters, \<open>sha256\<close>, \<open>ct_eq\<close>, \<open>encode\<close> and \<open>decode\<close>; random bytes are arguments.  The lemmas show that a rotated pair of keys is
  what a later load verifies against, and which failures leave the rows as they were.
\<close>

section \<open>Kinds of keys\<close>

datatype key_kind = SessionKey | AdminKey | LocalKey | UnknownKey

fun kind_str :: "key_kind \<Rightarrow> rstr" where
  "kind_str SessionKey = lit ''session''"
| "kind_str AdminKey = lit ''admin''"
| "kind_str LocalKey = lit ''local''"
| "kind_str UnknownKey = lit ''unknown''"

datatype auth_failure_reason = Missing | Invalid | WrongKind | MalformedHeader

fun reason_str :: "auth_failure_reason \<Rightarrow> rstr" where
  "reason_str Missing = lit ''missing''"
| "reason_str Invalid = lit ''invalid''"
| "reason_str WrongKind = lit ''wrong_kind''"
| "reason_str MalformedHeader = lit ''malformed_header''"

section \<open>Verifiers\<close>

definition generate_api_key :: "(byte list \<Rightarrow> rstr) \<Rightarrow> byte list \<Rightarrow> rstr" where
  "generate_api_key encode random = lit ''acps_'' @ encode random"

definition constant_time_eq :: "(byte list \<Rightarrow> byte list \<Rightarrow> bool) \<Rightarrow> byte list \<Rightarrow> byte list \<Rightarrow> bool" where
  "constant_time_eq ct_eq left right = (if length left \<noteq> length right then False else ct_eq left right)"

definition auth_verifier_algorithm :: rstr where
  "auth_verifier_algorithm = lit ''sha256-v1''"

record auth_verifier =
  av_key_kind :: key_kind
  av_algorithm :: rstr
  av_salt :: "byte list"
  av_digest :: "byte list"

definition digest_key :: "(byte list \<Rightarrow> byte list) \<Rightarrow> byte list \<Rightarrow> rstr \<Rightarrow> byte list" where
  "digest_key sha256 salt plaintext = sha256 (salt @ as_bytes plaintext)"

definition create_verifier :: "(byte list \<Rightarrow> byte list) \<Rightarrow> byte list \<Rightarrow> key_kind \<Rightarrow> rstr \<Rightarrow> auth_verifier" where
  "create_verifier sha256 salt kind plaintext =
     \<lparr>av_key_kind = kind, av_algorithm = auth_verifier_algorithm, av_salt = salt, av_digest = digest_key sha256 salt plaintext\<rparr>"

text \<open>\<open>decode\<close> gives the bytes, or the text of its error.\<close>

definition decode_verifier_part :: "(rstr \<Rightarrow> rstr + byte list) \<Rightarrow> rstr \<Rightarrow> rstr \<Rightarrow> nat \<Rightarrow> byte list result" where
  "decode_verifier_part decode field encoded expected_len =
     (case decode encoded of
        Inl source \<Rightarrow> Err (InvalidParam field (lit ''base64url decode failed: '' @ source))
      | Inr decoded \<Rightarrow>
          if length decoded \<noteq> expected_len
          then Err (InvalidParam field (lit ''expected '' @ show_nat expected_len @ lit '' bytes, got '' @ show_nat (length decoded)))
          else Ok decoded)"

definition from_encoded ::
  "(rstr \<Rightarrow> rstr + byte list) \<Rightarrow> key_kind \<Rightarrow> rstr \<Rightarrow> rstr \<Rightarrow> rstr \<Rightarrow> auth_verifier result" where
  "from_encoded decode kind algorithm salt digest =
     (if algorithm \<noteq> auth_verifier_algorithm
      then Err (InvalidParam (lit ''auth_keys.algorithm'') (lit ''unsupported auth verifier algorithm `'' @ algorithm @ lit ''`''))
      else and_then (decode_verifier_part decode (lit ''auth_keys.salt'') salt 32) (\<lambda>salt.
        and_then (decode_verifier_part decode (lit ''auth_keys.digest'') digest 32) (\<lambda>digest.
          Ok \<lparr>av_key_kind = kind, av_algorithm = algorithm, av_salt = salt, av_digest = digest\<rparr>)))"

definition verify_key ::
  "(byte list \<Rightarrow> byte list) \<Rightarrow> (byte list \<Rightarrow> byte list \<Rightarrow> bool) \<Rightarrow> auth_verifier \<Rightarrow> rstr \<Rightarrow> bool" where
  "verify_key sha256 ct_eq v plaintext = constant_time_eq ct_eq (digest_key sha256 (av_salt v) plaintext) (av_digest v)"

record verifier_set =
  vs_session :: auth_verifier
  vs_admin :: auth_verifier

definition create_set :: "(byte list \<Rightarrow> byte list) \<Rightarrow> byte list \<Rightarrow> byte list \<Rightarrow> rstr \<Rightarrow> rstr \<Rightarrow> verifier_set" where
  "create_set sha256 session_salt admin_salt session_key admin_key =
     \<lparr>vs_session = create_verifier sha256 session_salt SessionKey session_key,
      vs_admin = create_verifier sha256 admin_salt AdminKey admin_key\<rparr>"

definition verify_bearer ::
  "(byte list \<Rightarrow> byte list) \<Rightarrow> (byte list \<Rightarrow> byte list \<Rightarrow> bool) \<Rightarrow> verifier_set \<Rightarrow> rstr \<Rightarrow> key_kind option" where
  "verify_bearer sha256 ct_eq vs bearer =
     (if verify_key sha256 ct_eq (vs_session vs) bearer then Some SessionKey
      else if verify_key sha256 ct_eq (vs_admin vs) bearer then Some AdminKey
      else None)"

section \<open>Rows\<close>

record auth_key_record =
  ak_key_kind :: rstr
  ak_algorithm :: rstr
  ak_salt :: rstr
  ak_digest :: rstr
  ak_created_at :: rstr
  ak_updated_at :: rstr

definition get_auth_key :: "key_kind \<Rightarrow> auth_key_record list \<Rightarrow> auth_key_record option" where
  "get_auth_key kind rows = find (\<lambda>r. ak_key_kind r = kind_str kind) rows"

definition record_to_verifier :: "(rstr \<Rightarrow> rstr + byte list) \<Rightarrow> key_kind \<Rightarrow> auth_key_record \<Rightarrow> auth_verifier result" where
  "record_to_verifier decode kind r = from_encoded decode kind (ak_algorithm r) (ak_salt r) (ak_digest r)"

definition load_auth_verifier_pair :: "(rstr \<Rightarrow> rstr + byte list) \<Rightarrow> auth_key_record list \<Rightarrow> verifier_set result" where
  "load_auth_verifier_pair decode rows =
     and_then (ok_or (MissingField (lit ''auth_keys.session'')) (get_auth_key SessionKey rows)) (\<lambda>session.
     and_then (ok_or (MissingField (lit ''auth_keys.admin'')) (get_auth_key AdminKey rows)) (\<lambda>admin.
     and_then (record_to_verifier decode SessionKey session) (\<lambda>s.
     and_then (record_to_verifier decode AdminKey admin) (\<lambda>a. Ok \<lparr>vs_session = s, vs_admin = a\<rparr>))))"

definition auth_key_pair_present :: "(rstr \<Rightarrow> rstr + byte list) \<Rightarrow> auth_key_record list \<Rightarrow> bool result" where
  "auth_key_pair_present decode rows =
     (if get_auth_key SessionKey rows \<noteq> None \<and> get_auth_key AdminKey rows \<noteq> None
      then and_then (load_auth_verifier_pair decode rows) (\<lambda>_. Ok True) else Ok False)"

definition new_auth_key :: "(byte list \<Rightarrow> rstr) \<Rightarrow> key_kind \<Rightarrow> auth_verifier \<Rightarrow> rstr \<Rightarrow> auth_key_record" where
  "new_auth_key encode kind v now =
     \<lparr>ak_key_kind = kind_str kind, ak_algorithm = av_algorithm v, ak_salt = encode (av_salt v),
      ak_digest = encode (av_digest v), ak_created_at = now, ak_updated_at = now\<rparr>"

text \<open>An insert fails on a row of the same kind, the upsert updates it but for its creation time.\<close>

definition insert_auth_key_in_transaction ::
  "(byte list \<Rightarrow> rstr) \<Rightarrow> key_kind \<Rightarrow> auth_verifier \<Rightarrow> rstr \<Rightarrow> auth_key_record list \<Rightarrow> auth_key_record list option" where
  "insert_auth_key_in_transaction encode kind v now rows =
     (if get_auth_key kind rows \<noteq> None then None else Some (rows @ [new_auth_key encode kind v now]))"

definition upsert_auth_key_in_transaction ::
  "(byte list \<Rightarrow> rstr) \<Rightarrow> key_kind \<Rightarrow> auth_verifier \<Rightarrow> rstr \<Rightarrow> auth_key_record list \<Rightarrow> auth_key_record list" where
  "upsert_auth_key_in_transaction encode kind v now rows =
     (if get_auth_key kind rows = None then rows @ [new_auth_key encode kind v now]
      else update_rows (\<lambda>r. ak_key_kind r = kind_str kind)
        (\<lambda>r. (new_auth_key encode kind v now)\<lparr>ak_created_at := ak_created_at r\<rparr>) rows)"

definition upsert_auth_key ::
  "(byte list \<Rightarrow> rstr) \<Rightarrow> bool \<Rightarrow> rstr \<Rightarrow> key_kind \<Rightarrow> auth_verifier \<Rightarrow> auth_key_record list
     \<Rightarrow> auth_key_record result \<times> auth_key_record list" where
  "upsert_auth_key encode db now kind v rows =
     (let existing_created_at = (case get_auth_key kind rows of Some r \<Rightarrow> ak_created_at r | None \<Rightarrow> now)
      in if \<not> db then (Err StateAccessFailed, rows)
         else (Ok ((new_auth_key encode kind v now)\<lparr>ak_created_at := existing_created_at\<rparr>),
               upsert_auth_key_in_transaction encode kind v now rows))"

definition insert_auth_key_pair ::
  "(byte list \<Rightarrow> rstr) \<Rightarrow> bool \<Rightarrow> rstr \<Rightarrow> verifier_set \<Rightarrow> auth_key_record list \<Rightarrow> unit result \<times> auth_key_record list" where
  "insert_auth_key_pair encode db now vs rows =
     (case (if db then Option.bind (insert_auth_key_in_transaction encode SessionKey (vs_session vs) now rows)
                         (insert_auth_key_in_transaction encode AdminKey (vs_admin vs) now)
            else None) of
        None \<Rightarrow> (Err StateAccessFailed, rows)
      | Some rows' \<Rightarrow> (Ok (), rows'))"

definition replace_auth_key_pair ::
  "(byte list \<Rightarrow> rstr) \<Rightarrow> bool \<Rightarrow> rstr \<Rightarrow> verifier_set \<Rightarrow> auth_key_record list \<Rightarrow> unit result \<times> auth_key_record list" where
  "replace_auth_key_pair encode db now vs rows =
     (if \<not> db then (Err StateAccessFailed, rows)
      else (Ok (), upsert_auth_key_in_transaction encode AdminKey (vs_admin vs) now
                     (upsert_auth_key_in_transaction encode SessionKey (vs_session vs) now rows)))"

section \<open>At startup\<close>

datatype ensure_outcome = Preserved | BackfilledLegacySecrets | MissingKeys

record legacy_auth_config =
  la_session_key_ref :: rstr
  la_admin_key_ref :: rstr

text \<open>\<open>secrets\<close> is the opened secret store, or the error of opening it.\<close>

definition ensure_auth_verifier_pair ::
  "(byte list \<Rightarrow> byte list) \<Rightarrow> (byte list \<Rightarrow> rstr) \<Rightarrow> (rstr \<Rightarrow> rstr + byte list) \<Rightarrow> byte list \<Rightarrow> byte list \<Rightarrow> bool \<Rightarrow> rstr
     \<Rightarrow> legacy_auth_config option \<Rightarrow> (rstr \<rightharpoonup> rstr) result \<Rightarrow> auth_key_record list \<Rightarrow> ensure_outcome result \<times> auth_key_record list" where
  "ensure_auth_verifier_pair sha256 encode decode session_salt admin_salt db now legacy secrets rows =
     (case (get_auth_key SessionKey rows, get_auth_key AdminKey rows) of
        (Some _, Some _) \<Rightarrow> (and_then (load_auth_verifier_pair decode rows) (\<lambda>_. Ok Preserved), rows)
      | (Some _, None) \<Rightarrow> (Err (MissingField (lit ''auth_keys.admin'')), rows)
      | (None, Some _) \<Rightarrow> (Err (MissingField (lit ''auth_keys.session'')), rows)
      | (None, None) \<Rightarrow>
          (case legacy of
             None \<Rightarrow> (Ok MissingKeys, rows)
           | Some la \<Rightarrow>
               (case and_then secrets (\<lambda>store.
                  and_then (ok_or (SecretNotFound (la_session_key_ref la)) (store (la_session_key_ref la))) (\<lambda>session_key.
                  and_then (ok_or (SecretNotFound (la_admin_key_ref la)) (store (la_admin_key_ref la))) (\<lambda>admin_key.
                    Ok (create_set sha256 session_salt admin_salt session_key admin_key)))) of
                  Inl err \<Rightarrow> (Inl err, rows)
                | Inr vs \<Rightarrow>
                    (case insert_auth_key_pair encode db now vs rows of
                       (Inl err, rows') \<Rightarrow> (Inl err, rows')
                     | (Inr _, rows') \<Rightarrow> (Inr BackfilledLegacySecrets, rows')))))"

section \<open>Lemmas\<close>

lemma kind_str_inject [simp]: "kind_str k = kind_str k' \<longleftrightarrow> k = k'"
  by (cases k; cases k') (simp_all add: lit_def)

lemma get_append:
  "get_auth_key kind (rows @ [new_auth_key encode k v now]) =
     (case get_auth_key kind rows of Some r \<Rightarrow> Some r | None \<Rightarrow> if k = kind then Some (new_auth_key encode k v now) else None)"
  by (induction rows) (auto simp: get_auth_key_def new_auth_key_def)

lemma get_update:
  "get_auth_key kind (update_rows (\<lambda>r. ak_key_kind r = kind_str k) (\<lambda>r. (new_auth_key encode k v now)\<lparr>ak_created_at := ak_created_at r\<rparr>) rows) =
     map_option (\<lambda>r. if k = kind then (new_auth_key encode k v now)\<lparr>ak_created_at := ak_created_at r\<rparr> else r) (get_auth_key kind rows)"
  by (induction rows) (auto simp: get_auth_key_def new_auth_key_def update_rows_def)

lemma get_upsert_other: "k \<noteq> kind \<Longrightarrow> get_auth_key kind (upsert_auth_key_in_transaction encode k v now rows) = get_auth_key kind rows"
  by (auto simp: upsert_auth_key_in_transaction_def get_append get_update split: option.split)

definition row_of :: "(byte list \<Rightarrow> rstr) \<Rightarrow> auth_verifier \<Rightarrow> auth_key_record \<Rightarrow> bool" where
  "row_of encode v r \<longleftrightarrow> ak_algorithm r = av_algorithm v \<and> ak_salt r = encode (av_salt v) \<and> ak_digest r = encode (av_digest v)"

lemma row_of_new: "row_of encode v (new_auth_key encode kind v now)" "row_of encode v ((new_auth_key encode kind v now)\<lparr>ak_created_at := at_time\<rparr>)"
  by (simp_all add: row_of_def new_auth_key_def)

lemma get_upsert_same:
  obtains r where "get_auth_key kind (upsert_auth_key_in_transaction encode kind v now rows) = Some r" "row_of encode v r"
proof (cases "get_auth_key kind rows")
  case None
  then show ?thesis using that [of "new_auth_key encode kind v now"]
    by (simp add: upsert_auth_key_in_transaction_def get_append row_of_new)
next
  case (Some r)
  then show ?thesis using that [of "(new_auth_key encode kind v now)\<lparr>ak_created_at := ak_created_at r\<rparr>"]
    by (simp add: upsert_auth_key_in_transaction_def get_update row_of_new)
qed

lemma decode_row:
  assumes "\<And>bytes. decode (encode bytes) = Inr bytes" and "row_of encode v r"
    and "av_algorithm v = auth_verifier_algorithm" "length (av_salt v) = 32" "length (av_digest v) = 32"
  shows "record_to_verifier decode kind r = Ok (v\<lparr>av_key_kind := kind\<rparr>)"
  using assms by (cases v) (simp add: record_to_verifier_def from_encoded_def decode_verifier_part_def row_of_def)

section \<open>Properties\<close>

text \<open>
  C33: Rotated keys take effect, and only they do.  When encoded bytes decode to themselves, digests
  have the length of the format and the comparison of byte strings of one length is equality,
  loading the pair after a rotation gives the new verifiers, whatever rows there were before, and a
  bearer is then accepted exactly when its digest is that of the new session key or of the new admin
  key, as the kind of that key.  A rotation that fails changes no row.
\<close>

theorem rotated_keys_load:
  fixes session_salt admin_salt :: "byte list" and session_key admin_key :: rstr
  assumes "\<And>bytes. decode (encode bytes) = Inr bytes" and "\<And>bytes. length (sha256 bytes) = 32"
    and "\<And>left right. length left = length right \<Longrightarrow> ct_eq left right \<longleftrightarrow> left = right"
    and "length session_salt = 32" and "length admin_salt = 32"
    and "vs = create_set sha256 session_salt admin_salt session_key admin_key"
  shows "load_auth_verifier_pair decode (snd (replace_auth_key_pair encode True now vs rows)) = Ok vs \<and>
    verify_bearer sha256 ct_eq vs bearer =
      (if sha256 (session_salt @ as_bytes bearer) = sha256 (session_salt @ as_bytes session_key) then Some SessionKey
       else if sha256 (admin_salt @ as_bytes bearer) = sha256 (admin_salt @ as_bytes admin_key) then Some AdminKey
       else None) \<and>
    replace_auth_key_pair encode False now vs rows = (Err StateAccessFailed, rows)"
proof -
  let ?rows = "upsert_auth_key_in_transaction encode SessionKey (vs_session vs) now rows"
  obtain s where s: "get_auth_key SessionKey ?rows = Some s" "row_of encode (vs_session vs) s"
    by (rule get_upsert_same)
  obtain a where a: "get_auth_key AdminKey (upsert_auth_key_in_transaction encode AdminKey (vs_admin vs) now ?rows) = Some a"
    "row_of encode (vs_admin vs) a"
    by (rule get_upsert_same)
  have "record_to_verifier decode SessionKey s = Ok (vs_session vs)" "record_to_verifier decode AdminKey a = Ok (vs_admin vs)"
    using decode_row [OF assms(1) s(2), of SessionKey] decode_row [OF assms(1) a(2), of AdminKey] assms(2,4-6)
    by (simp_all add: create_set_def create_verifier_def digest_key_def)
  then have "load_auth_verifier_pair decode (snd (replace_auth_key_pair encode True now vs rows)) = Ok vs"
    using s(1) a(1) by (simp add: load_auth_verifier_pair_def replace_auth_key_pair_def get_upsert_other ok_or_def)
  moreover have "verify_key sha256 ct_eq (create_verifier sha256 salt kind key) bearer \<longleftrightarrow>
      sha256 (salt @ as_bytes bearer) = sha256 (salt @ as_bytes key)" for salt kind key
    using assms(2,3) by (simp add: verify_key_def constant_time_eq_def create_verifier_def digest_key_def)
  ultimately show ?thesis
    by (simp add: assms(6) verify_bearer_def replace_auth_key_pair_def create_set_def)
qed

text \<open>An encoding that is the identity and a hash that keeps the end of its input.\<close>

definition toy_hash :: "byte list \<Rightarrow> byte list" where
  "toy_hash bytes = take 32 (rev bytes @ replicate 32 0)"

theorem rotated_keys_load_witness:
  "verify_bearer toy_hash (=) (create_set toy_hash (replicate 32 1) (replicate 32 2) (lit ''acps_s'') (lit ''acps_a'')) (lit ''acps_a'') =
     Some AdminKey"
proof -
  have "toy_hash (replicate 32 1 @ as_bytes (lit ''acps_a'')) \<noteq> toy_hash (replicate 32 1 @ as_bytes (lit ''acps_s''))"
    by (simp add: toy_hash_def lit_def utf8_char_def)
  then show ?thesis
    using rotated_keys_load [of Inr "\<lambda>bytes. bytes" toy_hash "(=)" "replicate 32 1" "replicate 32 2" _ "lit ''acps_s''" "lit ''acps_a''" "[]" "[]" "lit ''acps_a''"]
    by (simp add: toy_hash_def)
qed

end
