(* ===== verification/Api_Auth.thy ===== *)
theory Api_Auth
  imports Http_Hardening Auth_Keys Outbox
begin

text \<open>
  Authentication of API requests (\<^verbatim>\<open>src/api/auth.rs\<close>) and the rows it leaves (\<^verbatim>\<open>src/state/auth.rs\<close>,
  \<^verbatim>\<open>src/state/events.rs\<close>): the middleware that checks the browser origin, the block and the rate limits
  of the client address, the bearer, and the tier of the key, around the handler of the route.

  A middleware takes the rest of the pipeline as its argument \<open>next\<close>.  What external crates compute is
  the record \<open>externals\<close>; what a request reads from clocks, and whether the database accepts a write, is
  the record \<open>request_env\<close>.  Requests are handled one after the other, the broadcast of events to live
  subscribers and the report that a failed request adds to the process log are not modelled.
\<close>

section \<open>Rows\<close>

datatype json = JNull | JNum nat | JStr rstr | JObj "(rstr \<times> json) list"

record externals =
  ex_sha256 :: "byte list \<Rightarrow> byte list"
  ex_ct_eq :: "byte list \<Rightarrow> byte list \<Rightarrow> bool"
  ex_to_string :: "json \<Rightarrow> rstr"
  ex_json_valid :: "rstr \<Rightarrow> bool"

text \<open>One write: whether the database accepts it, the identifier of the row and the time in it.\<close>

record write_env =
  we_db :: bool
  we_key :: rstr
  we_now :: rstr

record auth_failure =
  af_id :: rstr
  af_created_at :: rstr
  af_key_kind :: rstr
  af_reason :: rstr
  af_client_ip :: "rstr option"
  af_route :: "rstr option"
  af_payload_json :: rstr

record audit_event =
  ae_id :: rstr
  ae_created_at :: rstr
  ae_level :: rstr
  ae_kind :: rstr
  ae_message :: rstr
  ae_payload_json :: rstr
  ae_source :: rstr

record audit_store =
  au_failures :: "auth_failure list"
  au_events :: "audit_event list"
  au_outbox :: outbox
  au_external :: bool

definition persist_with_outbox :: "rstr \<Rightarrow> write_env \<Rightarrow> (audit_store \<Rightarrow> audit_store option) \<Rightarrow> audit_store \<Rightarrow> unit result \<times> audit_store" where
  "persist_with_outbox source_table w inner au =
     (case (if we_db w then inner au else None) of
        None \<Rightarrow> (Err StateAccessFailed, au)
      | Some au' \<Rightarrow>
          (Ok (), if au_external au' then au'\<lparr>au_outbox := enqueue source_table (we_key w) (we_now w) (au_outbox au')\<rparr> else au'))"


definition append_audit_event ::
  "externals \<Rightarrow> write_env \<Rightarrow> rstr \<Rightarrow> rstr \<Rightarrow> rstr \<Rightarrow> rstr \<Rightarrow> rstr \<Rightarrow> audit_store \<Rightarrow> unit result \<times> audit_store" where
  "append_audit_event ex w level kind source message payload_json au =
     (if \<not> ex_json_valid ex payload_json then (Err InvalidEventPayload, au)
      else persist_with_outbox (lit ''events'') w (\<lambda>au.
        if we_key w \<in> ae_id ` set (au_events au) then None
        else Some (au\<lparr>au_events := au_events au @
          [\<lparr>ae_id = we_key w, ae_created_at = we_now w, ae_level = level, ae_kind = kind, ae_message = message,
            ae_payload_json = payload_json, ae_source = source\<rparr>]\<rparr>)) au)"

definition json_opt :: "rstr option \<Rightarrow> json" where
  "json_opt x = (case x of None \<Rightarrow> JNull | Some s \<Rightarrow> JStr s)"

definition origin_as_json :: "request_origin_info \<Rightarrow> json" where
  "origin_as_json ro = JObj
     [(lit ''origin_kind'', JStr (ro_origin_kind ro)), (lit ''proxy_provider'', json_opt (ro_proxy_provider ro)),
      (lit ''client_ip'', json_opt (ro_client_ip ro)), (lit ''country_code'', json_opt (ro_country_code ro)),
      (lit ''region_code'', json_opt (ro_region_code ro)), (lit ''region_name'', json_opt (ro_region_name ro)),
      (lit ''cloudflare_ray_id'', json_opt (ro_cloudflare_ray_id ro))]"


section \<open>Requests and responses\<close>

record request =
  rq_method :: rstr
  rq_path :: rstr
  rq_matched_path :: "rstr option"
  rq_peer :: "ip_addr option"
  rq_headers :: headers
  rq_kind :: "key_kind option"


record app_state =
  ap_security :: security_http_config
  ap_cloudflare :: "cloudflare_edge option"
  ap_verifiers :: verifier_set
  ap_blocker :: blocker
  ap_limiter :: rate_limiter
  ap_store :: audit_store



definition origin_of :: "request \<Rightarrow> app_state \<Rightarrow> request_origin_info" where
  "origin_of req st = request_origin (rq_headers req) (rq_peer req) (ap_security st) (ap_cloudflare st)"



definition payload_with_origin :: "json \<Rightarrow> request_origin_info \<Rightarrow> json" where
  "payload_with_origin payload origin =
     (case payload of
        JObj entries \<Rightarrow>
          JObj (entries @ [(if map_of entries (lit ''origin'') \<noteq> None then lit ''request_origin'' else lit ''origin'', origin_as_json origin)])
      | _ \<Rightarrow> payload)"

definition persist_security_event ::
  "externals \<Rightarrow> write_env \<Rightarrow> rstr \<Rightarrow> rstr \<Rightarrow> rstr \<Rightarrow> rstr \<Rightarrow> json \<Rightarrow> app_state \<Rightarrow> app_state" where
  "persist_security_event ex w source level kind message data st =
     st\<lparr>ap_store := snd (append_audit_event ex w level kind source message (ex_to_string ex data) (ap_store st))\<rparr>"

definition persist_rate_limit_event ::
  "externals \<Rightarrow> write_env \<Rightarrow> rstr \<Rightarrow> ip_addr \<Rightarrow> rate_limit_scope \<Rightarrow> rstr option \<Rightarrow> request_origin_info \<Rightarrow> app_state \<Rightarrow> app_state" where
  "persist_rate_limit_event ex w route ip scope fingerprint origin st =
     persist_security_event ex w (lit ''api'') (lit ''warn'') (lit ''security.rate_limited'') (lit ''rate limit exceeded'')
       (payload_with_origin (JObj
          ([(lit ''scope'', JStr (scope_str scope)), (lit ''ip'', JStr (ip_to_string ip)), (lit ''route'', JStr route)] @
           (case fingerprint of None \<Rightarrow> [] | Some fp \<Rightarrow> [(lit ''key_fingerprint'', JStr fp)]))) origin) st"




section \<open>The middleware\<close>












section \<open>What the middleware leaves\<close>

lemma persist_failures:
  "au_failures (snd (append_audit_event ex w level kind source message payload au)) = au_failures au"
  by (auto simp: append_audit_event_def persist_with_outbox_def split: option.split)

lemma security_event_simps [simp]:
  "au_failures (ap_store (persist_security_event ex w source level kind message payload st)) = au_failures (ap_store st)"
  "ap_blocker (persist_security_event ex w source level kind message payload st) = ap_blocker st"
  "ap_security (persist_security_event ex w source level kind message payload st) = ap_security st"
  "ap_cloudflare (persist_security_event ex w source level kind message payload st) = ap_cloudflare st"
  by (simp_all add: persist_security_event_def persist_failures)

lemma rate_limit_event_simps [simp]:
  "au_failures (ap_store (persist_rate_limit_event ex w route ip scope fp origin st)) = au_failures (ap_store st)"
  "ap_blocker (persist_rate_limit_event ex w route ip scope fp origin st) = ap_blocker st"
  by (simp_all add: persist_rate_limit_event_def)


lemma origin_of_upd [simp]:
  "origin_of req (st\<lparr>ap_blocker := bl\<rparr>) = origin_of req st" "origin_of req (st\<lparr>ap_limiter := rl\<rparr>) = origin_of req st"
  "origin_of req (st\<lparr>ap_store := au\<rparr>) = origin_of req st" "origin_of (req\<lparr>rq_kind := k\<rparr>) st = origin_of req st"
  by (simp_all add: origin_of_def)






section \<open>Who gets past authentication\<close>















section \<open>The whole pipeline\<close>

















section \<open>Properties\<close>




section \<open>Requests with wrong credentials\<close>



definition fixed_part :: "app_state \<Rightarrow> security_http_config \<times> cloudflare_edge option \<times> verifier_set" where
  "fixed_part st = (ap_security st, ap_cloudflare st, ap_verifiers st)"

lemma fixed_upd [simp]:
  "fixed_part (st\<lparr>ap_blocker := bl\<rparr>) = fixed_part st" "fixed_part (st\<lparr>ap_limiter := rl\<rparr>) = fixed_part st"
  "fixed_part (st\<lparr>ap_store := au\<rparr>) = fixed_part st"
  "fixed_part (persist_security_event ex w source level kind message payload st) = fixed_part st"
  "fixed_part (persist_rate_limit_event ex w route ip scope fp origin st) = fixed_part st"
  by (simp_all add: fixed_part_def persist_rate_limit_event_def persist_security_event_def)
















end
