(* ===== verification/Session_Store.thy ===== *)
theory Session_Store
  imports Permission_Store
begin

text \<open>
  The session tables (\<^verbatim>\<open>src/state/sessions\<close>): session rows, the change feed with its tombstones, the
  event log of each session, prompt rows and subagent rows, and the operations on session rows and
  events.

  \<open>ss_base\<close> holds the permission tables, the session rows, the change counter and the outbox of the same
  database.  A transaction that fails leaves the store as it was; \<open>db\<close> is whether the database accepts it.
  Keys and clock readings are arguments, \<open>at_time n\<close> and \<open>next_id n\<close> where a loop takes several.  JSON
  documents and the arithmetic on timestamps belong to external crates and are parameters.
\<close>

section \<open>Rows\<close>

record log_event =
  le_id :: rstr
  le_created_at :: rstr
  le_level :: rstr
  le_kind :: rstr
  le_message :: rstr
  le_payload_json :: rstr
  le_source :: rstr
  le_session_id :: "rstr option"
  le_seq :: "nat option"

record prompt_row =
  pm_id :: rstr
  pm_session_id :: rstr
  pm_created_at :: rstr
  pm_updated_at :: rstr
  pm_status :: rstr
  pm_stop_reason :: "rstr option"
  pm_error_code :: "rstr option"
  pm_error_message :: "rstr option"
  pm_prompt_json :: rstr
  pm_message_id :: "rstr option"
  pm_message_id_acknowledged :: bool
  pm_failure_class :: "rstr option"
  pm_failure_detail_json :: "rstr option"
  pm_agent_message_id :: "rstr option"

record subagent_row =
  sa_session_id :: rstr
  sa_parent_session_id :: rstr
  sa_root_session_id :: rstr
  sa_title :: "rstr option"
  sa_description :: "rstr option"
  sa_state_json :: "rstr option"
  sa_state_current :: bool
  sa_cancel_granted :: bool
  sa_announced_at :: rstr
  sa_updated_at :: rstr

record tombstone =
  tb_session_id :: rstr
  tb_deleted_at :: rstr
  tb_change_seq :: nat

record sstore =
  ss_base :: pstore
  ss_tombstones :: "tombstone list"
  ss_pruned_through :: nat
  ss_events :: "log_event list"
  ss_prompts :: "prompt_row list"
  ss_subagents :: "subagent_row list"

abbreviation session_status_active :: rstr where
  "session_status_active \<equiv> lit ''active''"

abbreviation session_status_available :: rstr where
  "session_status_available \<equiv> lit ''available''"

abbreviation session_status_closed :: rstr where
  "session_status_closed \<equiv> lit ''closed''"

abbreviation ss_sessions :: "sstore \<Rightarrow> session_row list" where
  "ss_sessions st \<equiv> ps_sessions (ss_base st)"

abbreviation ss_head :: "sstore \<Rightarrow> nat" where
  "ss_head st \<equiv> ps_change_seq (ss_base st)"

definition on_base :: "(pstore \<Rightarrow> pstore) \<Rightarrow> sstore \<Rightarrow> sstore" where
  "on_base f st = st\<lparr>ss_base := f (ss_base st)\<rparr>"

section \<open>The change feed\<close>

definition next_change_seq :: "sstore \<Rightarrow> nat \<times> sstore" where
  "next_change_seq st =
     (ss_head st + 1, on_base (\<lambda>b. b\<lparr>ps_change_seq := ps_change_seq b + 1\<rparr>) st)"

definition bump_change :: "rstr \<Rightarrow> sstore \<Rightarrow> sstore" where
  "bump_change session_id st = on_base (bump_session_change session_id) st"

definition log_change :: "rstr \<Rightarrow> rstr \<Rightarrow> rstr \<Rightarrow> sstore \<Rightarrow> sstore" where
  "log_change source_table source_id created_at st = on_base (log_row source_table source_id created_at) st"

definition log_changes :: "rstr \<Rightarrow> rstr list \<Rightarrow> rstr \<Rightarrow> sstore \<Rightarrow> sstore" where
  "log_changes source_table source_ids created_at st =
     fold (\<lambda>source_id. log_change source_table source_id created_at) source_ids st"

definition clear_session_tombstone :: "rstr \<Rightarrow> sstore \<Rightarrow> sstore" where
  "clear_session_tombstone session_id st =
     st\<lparr>ss_tombstones := filter (\<lambda>t. tb_session_id t \<noteq> session_id) (ss_tombstones st)\<rparr>"

definition put_tombstone :: "tombstone \<Rightarrow> tombstone list \<Rightarrow> tombstone list" where
  "put_tombstone t ts =
     (if list_ex (\<lambda>u. tb_session_id u = tb_session_id t) ts
      then update_rows (\<lambda>u. tb_session_id u = tb_session_id t) (\<lambda>_. t) ts
      else ts @ [t])"

definition insert_session_tombstone :: "rstr \<Rightarrow> rstr \<Rightarrow> sstore \<Rightarrow> sstore" where
  "insert_session_tombstone session_id deleted_at st =
     (case next_change_seq st of (change_seq, st1) \<Rightarrow>
        st1\<lparr>ss_tombstones := put_tombstone
          \<lparr>tb_session_id = session_id, tb_deleted_at = deleted_at, tb_change_seq = change_seq\<rparr> (ss_tombstones st1)\<rparr>)"

record session_change =
  sc_session_id :: rstr
  sc_change_seq :: nat
  sc_deleted :: bool

record changes_page =
  cp_changes :: "session_change list"
  cp_head :: nat
  cp_pruned_through :: nat
  cp_feed_epoch :: rstr

definition feed_entries :: "sstore \<Rightarrow> session_change list" where
  "feed_entries st =
     map (\<lambda>r. \<lparr>sc_session_id = se_id r, sc_change_seq = se_change_seq r, sc_deleted = False\<rparr>) (ss_sessions st) @
     map (\<lambda>t. \<lparr>sc_session_id = tb_session_id t, sc_change_seq = tb_change_seq t, sc_deleted = True\<rparr>) (ss_tombstones st)"

text \<open>A position past the range of the database's integers becomes its largest integer.\<close>

definition query_session_changes :: "rstr \<Rightarrow> nat \<Rightarrow> nat \<Rightarrow> sstore \<Rightarrow> changes_page" where
  "query_session_changes feed_epoch after limit st =
     (let position = (if after < 2 ^ 63 then after else 2 ^ 63 - 1) in
      \<lparr>cp_changes = take limit (sort_key sc_change_seq (filter (\<lambda>c. position < sc_change_seq c) (feed_entries st))),
       cp_head = ss_head st, cp_pruned_through = ss_pruned_through st, cp_feed_epoch = feed_epoch\<rparr>)"

text \<open>\<open>cutoff\<close> is the moment of the retention ago, as text, or why the clock cannot name it.\<close>

definition prune_session_tombstones :: "rstr + rstr \<Rightarrow> bool \<Rightarrow> sstore \<Rightarrow> nat result \<times> sstore" where
  "prune_session_tombstones cutoff db st =
     (case cutoff of
        Inl reason \<Rightarrow> (Err (InvalidParam (lit ''sessions.tombstone_retention'') reason), st)
      | Inr before \<Rightarrow>
          if \<not> db then (Err StateAccessFailed, st)
          else let pruned = filter (\<lambda>t. tb_deleted_at t < before) (ss_tombstones st) in
            (Ok (length pruned),
             st\<lparr>ss_tombstones := filter (\<lambda>t. \<not> tb_deleted_at t < before) (ss_tombstones st),
                ss_pruned_through := foldr max (map tb_change_seq pruned) (ss_pruned_through st)\<rparr>))"

section \<open>The event log\<close>

definition session_events :: "rstr \<Rightarrow> sstore \<Rightarrow> log_event list" where
  "session_events session_id st = filter (\<lambda>e. le_session_id e = Some session_id) (ss_events st)"

definition session_event_head :: "rstr \<Rightarrow> sstore \<Rightarrow> nat" where
  "session_event_head session_id st = foldr max (List.map_filter le_seq (session_events session_id st)) 0"

definition next_session_event_seq :: "rstr \<Rightarrow> sstore \<Rightarrow> nat" where
  "next_session_event_seq session_id st = session_event_head session_id st + 1"

definition has_event :: "rstr \<Rightarrow> sstore \<Rightarrow> bool" where
  "has_event key st \<longleftrightarrow> key \<in> le_id ` set (ss_events st)"

definition insert_unscoped_event_row :: "log_event \<Rightarrow> sstore \<Rightarrow> sstore option" where
  "insert_unscoped_event_row e st =
     (if has_event (le_id e) st then None
      else Some (st\<lparr>ss_events := ss_events st @ [e\<lparr>le_session_id := None, le_seq := None\<rparr>]\<rparr>))"

definition insert_session_event_row :: "rstr \<Rightarrow> log_event \<Rightarrow> sstore \<Rightarrow> (nat \<times> sstore) option" where
  "insert_session_event_row session_id e st =
     (let seq = next_session_event_seq session_id st in
      if has_event (le_id e) st then None
      else Some (seq, st\<lparr>ss_events := ss_events st @ [e\<lparr>le_session_id := Some session_id, le_seq := Some seq\<rparr>]\<rparr>))"

definition session_event :: "rstr \<Rightarrow> rstr \<Rightarrow> rstr \<Rightarrow> rstr \<Rightarrow> rstr \<Rightarrow> rstr \<Rightarrow> rstr \<Rightarrow> rstr \<Rightarrow> log_event" where
  "session_event key now session_id level kind source message payload_json =
     \<lparr>le_id = key, le_created_at = now, le_level = level, le_kind = kind, le_message = message,
      le_payload_json = payload_json, le_source = source, le_session_id = Some session_id, le_seq = None\<rparr>"

definition append_session_event_with_source ::
  "(rstr \<Rightarrow> bool) \<Rightarrow> bool \<Rightarrow> rstr \<Rightarrow> rstr \<Rightarrow> rstr \<Rightarrow> rstr \<Rightarrow> rstr \<Rightarrow> rstr \<Rightarrow> rstr \<Rightarrow> rstr \<Rightarrow> sstore
     \<Rightarrow> log_event result \<times> sstore" where
  "append_session_event_with_source json_valid db key now session_id level kind source message payload_json st =
     (if \<not> json_valid payload_json then (Err InvalidEventPayload, st)
      else let e = session_event key now session_id level kind source message payload_json in
        case (if db then insert_session_event_row session_id e st else None) of
          None \<Rightarrow> (Err StateAccessFailed, st)
        | Some (seq, st1) \<Rightarrow>
            (Ok (e\<lparr>le_seq := Some seq\<rparr>), log_change (lit ''events'') key now (bump_change session_id st1)))"

definition append_session_event ::
  "(rstr \<Rightarrow> bool) \<Rightarrow> bool \<Rightarrow> rstr \<Rightarrow> rstr \<Rightarrow> rstr \<Rightarrow> rstr \<Rightarrow> rstr \<Rightarrow> rstr \<Rightarrow> rstr \<Rightarrow> sstore \<Rightarrow> log_event result \<times> sstore" where
  "append_session_event json_valid db key now session_id level kind message payload_json st =
     append_session_event_with_source json_valid db key now session_id level kind (lit ''system'') message payload_json st"

text \<open>The agent's stream: the row, and a touch of the prompt it works on.\<close>

definition session_update_event ::
  "(rstr \<Rightarrow> bool) \<Rightarrow> rstr \<Rightarrow> rstr \<Rightarrow> rstr \<Rightarrow> rstr \<Rightarrow> rstr \<Rightarrow> log_event result" where
  "session_update_event is_json key now session_id kind payload_json =
     (if is_json payload_json
      then Ok (session_event key now session_id (lit ''info'') kind (lit ''acp'') (lit ''ACP session update'') payload_json)
      else Err InvalidEventPayload)"

definition in_flight :: "prompt_row \<Rightarrow> bool" where
  "in_flight p \<longleftrightarrow> pm_status p \<in> {lit ''pending'', lit ''running''}"

definition in_flight_prompts_for_session :: "rstr \<Rightarrow> sstore \<Rightarrow> prompt_row list" where
  "in_flight_prompts_for_session session_id st =
     sort_key (\<lambda>p. (pm_created_at p, pm_id p)) (filter (\<lambda>p. pm_session_id p = session_id \<and> in_flight p) (ss_prompts st))"

definition subagent_on :: "rstr \<Rightarrow> sstore \<Rightarrow> subagent_row option" where
  "subagent_on session_id st = find (\<lambda>a. sa_session_id a = session_id) (ss_subagents st)"

definition root_of :: "rstr \<Rightarrow> sstore \<Rightarrow> rstr" where
  "root_of session_id st = (case subagent_on session_id st of Some a \<Rightarrow> sa_root_session_id a | None \<Rightarrow> session_id)"

definition touched_prompt :: "rstr \<Rightarrow> sstore \<Rightarrow> rstr option" where
  "touched_prompt session_id st =
     (case in_flight_prompts_for_session (root_of session_id st) st of [] \<Rightarrow> None | p # _ \<Rightarrow> Some (pm_id p))"

definition touch_prompt :: "rstr \<Rightarrow> rstr option \<Rightarrow> sstore \<Rightarrow> sstore" where
  "touch_prompt now target st =
     st\<lparr>ss_prompts := update_rows (\<lambda>p. Some (pm_id p) = target) (\<lambda>p. p\<lparr>pm_updated_at := now\<rparr>) (ss_prompts st)\<rparr>"

definition insert_session_update_row :: "rstr \<Rightarrow> log_event \<Rightarrow> sstore \<Rightarrow> (nat \<times> sstore) option" where
  "insert_session_update_row session_id e st =
     (case insert_session_event_row session_id e st of
        None \<Rightarrow> None
      | Some (seq, st1) \<Rightarrow>
          let target = touched_prompt session_id st1;
              st2 = log_change (lit ''events'') (le_id e) (le_created_at e)
                      (touch_prompt (le_created_at e) target (bump_change session_id st1))
          in Some (seq, case target of None \<Rightarrow> st2
                        | Some prompt_id \<Rightarrow> log_change (lit ''prompts'') prompt_id (le_created_at e) st2))"

definition append_session_update ::
  "(rstr \<Rightarrow> bool) \<Rightarrow> bool \<Rightarrow> rstr \<Rightarrow> rstr \<Rightarrow> rstr \<Rightarrow> rstr \<Rightarrow> rstr \<Rightarrow> sstore \<Rightarrow> log_event result \<times> sstore" where
  "append_session_update is_json db key now session_id kind payload_json st =
     (case session_update_event is_json key now session_id kind payload_json of
        Inl err \<Rightarrow> (Err err, st)
      | Inr e \<Rightarrow>
          case (if db then insert_session_update_row session_id e st else None) of
            None \<Rightarrow> (Err StateAccessFailed, st)
          | Some (seq, st1) \<Rightarrow> (Ok (e\<lparr>le_seq := Some seq\<rparr>), st1))"

text \<open>Reading the log.\<close>

datatype session_event_cursor = CursorEventId rstr | CursorSeq nat

definition seq_of :: "log_event \<Rightarrow> nat" where
  "seq_of e = (case le_seq e of Some n \<Rightarrow> n | None \<Rightarrow> 0)"

definition session_event_seq :: "rstr \<Rightarrow> rstr \<Rightarrow> sstore \<Rightarrow> nat option" where
  "session_event_seq session_id event_id st =
     (case find (\<lambda>e. le_id e = event_id \<and> le_session_id e = Some session_id \<and> le_seq e \<noteq> None) (ss_events st) of
        Some e \<Rightarrow> le_seq e | None \<Rightarrow> None)"

definition cursor_seq :: "rstr \<Rightarrow> session_event_cursor option \<Rightarrow> sstore \<Rightarrow> nat result" where
  "cursor_seq session_id after st =
     (case after of
        None \<Rightarrow> Ok 0
      | Some (CursorEventId event_id) \<Rightarrow>
          ok_or (SessionEventCursorUnknown session_id event_id) (session_event_seq session_id event_id st)
      | Some (CursorSeq seq) \<Rightarrow>
          if session_event_head session_id st < seq then Err (SessionEventCursorUnknown session_id (show_nat seq))
          else Ok seq)"

definition query_session_events ::
  "rstr \<Rightarrow> session_event_cursor option \<Rightarrow> nat \<Rightarrow> sstore \<Rightarrow> log_event list result" where
  "query_session_events session_id after limit st =
     and_then (cursor_seq session_id after st) (\<lambda>after_seq.
       Ok (take limit (sort_key seq_of
         (filter (\<lambda>e. le_seq e \<noteq> None \<and> after_seq < seq_of e) (session_events session_id st)))))"

definition latest_session_events :: "rstr \<Rightarrow> nat \<Rightarrow> sstore \<Rightarrow> log_event list" where
  "latest_session_events session_id limit st =
     take limit (rev (sort_key seq_of (session_events session_id st)))"

section \<open>Session rows\<close>

definition session_row_of :: "rstr \<Rightarrow> sstore \<Rightarrow> session_row option" where
  "session_row_of session_id st = find (\<lambda>r. se_id r = session_id) (ss_sessions st)"

text \<open>A session as it is returned: its row and the head of its log.\<close>

definition get_session :: "rstr \<Rightarrow> sstore \<Rightarrow> (session_row \<times> nat) option" where
  "get_session session_id st =
     map_option (\<lambda>r. (r, session_event_head session_id st)) (session_row_of session_id st)"

definition require_live_session :: "rstr \<Rightarrow> sstore \<Rightarrow> (session_row \<times> nat) result" where
  "require_live_session session_id st =
     (case get_session session_id st of
        Some s \<Rightarrow> Ok s
      | None \<Rightarrow>
          if list_ex (\<lambda>t. tb_session_id t = session_id) (ss_tombstones st) then Err (SessionDeleted session_id)
          else Err (SessionNotFound session_id))"

definition insert_session_row :: "session_row \<Rightarrow> nat \<Rightarrow> sstore \<Rightarrow> sstore option" where
  "insert_session_row row change_seq st =
     (if list_ex (\<lambda>r. se_id r = se_id row \<or>
            se_target_id r = se_target_id row \<and> se_agent_session_id r = se_agent_session_id row) (ss_sessions st)
      then None
      else Some (clear_session_tombstone (se_id row)
        (on_base (\<lambda>b. b\<lparr>ps_sessions := ps_sessions b @ [row\<lparr>se_change_seq := change_seq\<rparr>]\<rparr>) st)))"

definition insert_stamped :: "session_row \<Rightarrow> sstore \<Rightarrow> (nat \<times> sstore) option" where
  "insert_stamped row st =
     (case next_change_seq st of (change_seq, st1) \<Rightarrow>
        map_option (\<lambda>st2. (change_seq, st2)) (insert_session_row row change_seq st1))"

record new_session_record =
  ns_id :: rstr
  ns_agent_id :: rstr
  ns_cwd :: rstr
  ns_title :: "rstr option"
  ns_metadata_json :: rstr

definition new_active_session_row :: "rstr \<Rightarrow> rstr \<Rightarrow> rstr \<Rightarrow> new_session_record \<Rightarrow> session_row" where
  "new_active_session_row now target_id agent_session_id input =
     \<lparr>se_id = ns_id input, se_target_id = target_id, se_agent_session_id = agent_session_id,
      se_created_at = now, se_updated_at = now, se_status = session_status_active,
      se_agent_id = ns_agent_id input, se_cwd = ns_cwd input, se_title = ns_title input,
      se_metadata_json = ns_metadata_json input, se_change_seq = 0\<rparr>"

definition insert_session_for_target ::
  "(rstr \<Rightarrow> bool) \<Rightarrow> bool \<Rightarrow> rstr \<Rightarrow> rstr \<Rightarrow> rstr \<Rightarrow> new_session_record \<Rightarrow> sstore \<Rightarrow> session_row result \<times> sstore" where
  "insert_session_for_target json_valid db now target_id agent_session_id input st =
     (if \<not> json_valid (ns_metadata_json input) then (Err InvalidEventPayload, st)
      else let row = new_active_session_row now target_id agent_session_id input in
        case (if db then insert_stamped row st else None) of
          None \<Rightarrow> (Err StateAccessFailed, st)
        | Some (change_seq, st1) \<Rightarrow>
            (Ok (row\<lparr>se_change_seq := change_seq\<rparr>), log_change (lit ''sessions'') (se_id row) now st1))"

definition insert_session ::
  "(rstr \<Rightarrow> bool) \<Rightarrow> bool \<Rightarrow> rstr \<Rightarrow> new_session_record \<Rightarrow> sstore \<Rightarrow> session_row result \<times> sstore" where
  "insert_session json_valid db now input st =
     insert_session_for_target json_valid db now (ns_agent_id input) (ns_id input) input st"

text \<open>Updates of session rows leave the key and the stamp alone.\<close>

definition set_sessions :: "(session_row \<Rightarrow> bool) \<Rightarrow> (session_row \<Rightarrow> session_row) \<Rightarrow> sstore \<Rightarrow> sstore" where
  "set_sessions p f st = on_base (\<lambda>b. b\<lparr>ps_sessions := update_rows p f (ps_sessions b)\<rparr>) st"

definition bump_changes :: "rstr list \<Rightarrow> sstore \<Rightarrow> sstore" where
  "bump_changes session_ids st = fold bump_change session_ids st"

text \<open>The shape of the updates by key: no row is an error, the row is stamped and logged.\<close>

definition update_session ::
  "bool \<Rightarrow> rstr \<Rightarrow> rstr \<Rightarrow> (session_row \<Rightarrow> session_row) \<Rightarrow> sstore \<Rightarrow> unit result \<times> sstore" where
  "update_session db session_id now f st =
     (if \<not> db then (Err StateAccessFailed, st)
      else if session_row_of session_id st = None then (Err (SessionNotFound session_id), st)
      else (Ok (), log_change (lit ''sessions'') session_id now
              (bump_change session_id (set_sessions (\<lambda>r. se_id r = session_id) f st))))"

definition update_session_status :: "bool \<Rightarrow> rstr \<Rightarrow> rstr \<Rightarrow> rstr \<Rightarrow> sstore \<Rightarrow> unit result \<times> sstore" where
  "update_session_status db now session_id status st =
     update_session db session_id now (\<lambda>r. r\<lparr>se_status := status, se_updated_at := now\<rparr>) st"

definition update_session_status_and_cwd :: "bool \<Rightarrow> rstr \<Rightarrow> rstr \<Rightarrow> rstr \<Rightarrow> rstr \<Rightarrow> sstore \<Rightarrow> unit result \<times> sstore" where
  "update_session_status_and_cwd db now session_id status cwd st =
     update_session db session_id now (\<lambda>r. r\<lparr>se_status := status, se_cwd := cwd, se_updated_at := now\<rparr>) st"

subsection \<open>Metadata\<close>

text \<open>
  The JSON library: \<open>jo_object\<close> reads a document that must be an object, \<open>jo_print\<close> writes one.  An
  object is the list of its members in the order of their keys.
\<close>

type_synonym 'j object = "(rstr \<times> 'j) list"

record 'j json_ops =
  jo_object :: "rstr \<Rightarrow> rstr + 'j object"
  jo_print :: "'j object \<Rightarrow> rstr"
  jo_string :: "rstr \<Rightarrow> 'j"
  jo_null :: 'j
  jo_nested :: "'j object \<Rightarrow> 'j"

fun insert_member :: "rstr \<Rightarrow> 'j \<Rightarrow> 'j object \<Rightarrow> 'j object" where
  "insert_member k v [] = [(k, v)]"
| "insert_member k v ((k', v') # ms) =
     (if k < k' then (k, v) # (k', v') # ms
      else if k = k' then (k, v) # ms
      else (k', v') # insert_member k v ms)"

definition extend_object :: "'j object \<Rightarrow> 'j object \<Rightarrow> 'j object" where
  "extend_object ms additions = fold (\<lambda>(k, v). insert_member k v) additions ms"

definition metadata_object :: "'j json_ops \<Rightarrow> rstr \<Rightarrow> 'j object result" where
  "metadata_object jo metadata_json =
     (case jo_object jo metadata_json of Inl _ \<Rightarrow> Err (StateInvalidJson (lit ''sessions.metadata_json'')) | Inr ms \<Rightarrow> Ok ms)"

definition update_session_info ::
  "'j json_ops \<Rightarrow> bool \<Rightarrow> rstr \<Rightarrow> rstr \<Rightarrow> rstr option option \<Rightarrow> rstr option option \<Rightarrow> 'j object option \<Rightarrow> sstore
     \<Rightarrow> unit result \<times> sstore" where
  "update_session_info jo db now session_id title agent_updated_at agent_meta st =
     (case session_row_of session_id st of
        None \<Rightarrow> (Err (SessionNotFound session_id), st)
      | Some row \<Rightarrow>
          case metadata_object jo (se_metadata_json row) of
            Inl err \<Rightarrow> (Err err, st)
          | Inr metadata \<Rightarrow>
              let metadata1 = (case agent_updated_at of None \<Rightarrow> metadata
                    | Some stamp_value \<Rightarrow> insert_member (lit ''agent_updated_at'')
                        (case stamp_value of None \<Rightarrow> jo_null jo | Some s \<Rightarrow> jo_string jo s) metadata);
                  metadata2 = (case agent_meta of None \<Rightarrow> metadata1
                    | Some meta \<Rightarrow> insert_member (lit ''agent_meta'') (jo_nested jo meta) metadata1);
                  title' = (case title of None \<Rightarrow> se_title row | Some t \<Rightarrow> t)
              in update_session db session_id now
                   (\<lambda>r. r\<lparr>se_title := title', se_metadata_json := jo_print jo metadata2, se_updated_at := now\<rparr>) st)"

text \<open>The latest list an agent advertises, stored with the time it was stored.\<close>

definition replace_metadata ::
  "'j json_ops \<Rightarrow> bool \<Rightarrow> rstr \<Rightarrow> rstr \<Rightarrow> rstr \<Rightarrow> rstr \<Rightarrow> 'j \<Rightarrow> sstore \<Rightarrow> bool result \<times> sstore" where
  "replace_metadata jo db now session_id key stamp_key new_value st =
     (case session_row_of session_id st of
        None \<Rightarrow> (Err (SessionNotFound session_id), st)
      | Some row \<Rightarrow>
          case metadata_object jo (se_metadata_json row) of
            Inl err \<Rightarrow> (Err err, st)
          | Inr metadata \<Rightarrow>
              if map_of metadata key = Some new_value then (Ok False, st)
              else let metadata' = insert_member stamp_key (jo_string jo now) (insert_member key new_value metadata) in
                case update_session db session_id now
                  (\<lambda>r. r\<lparr>se_metadata_json := jo_print jo metadata', se_updated_at := now\<rparr>) st of
                  (Inl err, st') \<Rightarrow> (Err err, st')
                | (Inr _, st') \<Rightarrow> (Ok True, st'))"

definition replace_session_available_commands ::
  "'j json_ops \<Rightarrow> bool \<Rightarrow> rstr \<Rightarrow> rstr \<Rightarrow> 'j \<Rightarrow> sstore \<Rightarrow> bool result \<times> sstore" where
  "replace_session_available_commands jo db now session_id commands_value st =
     replace_metadata jo db now session_id (lit ''available_commands'') (lit ''available_commands_updated_at'') commands_value st"

definition replace_session_config_options ::
  "'j json_ops \<Rightarrow> bool \<Rightarrow> rstr \<Rightarrow> rstr \<Rightarrow> 'j \<Rightarrow> sstore \<Rightarrow> bool result \<times> sstore" where
  "replace_session_config_options jo db now session_id options_value st =
     replace_metadata jo db now session_id (lit ''config_options'') (lit ''config_options_updated_at'') options_value st"

end
