(* ===== verification/Session_Lifecycle.thy ===== *)
theory Session_Lifecycle
  imports Session_Store
begin

text \<open>
  What happens to whole sessions (\<^verbatim>\<open>src/state/sessions/queries.rs\<close>): the sync with the list an agent reports,
  renamed targets, deletion, the sweeps that demote sessions, and what stands in the way of a restart.
\<close>

section \<open>The session list of an agent\<close>

record listed_session =
  ls_id :: rstr
  ls_agent_session_id :: rstr
  ls_agent_id :: rstr
  ls_cwd :: rstr
  ls_title :: "rstr option"
  ls_updated_at :: "rstr option"
  ls_metadata_json :: rstr

datatype listed_write = ListedInsert session_row | ListedUpdate session_row

record listed_counts =
  lc_upserted :: nat
  lc_updated :: nat

text \<open>\<open>normalize_time\<close> is the parser and printer of timestamps, with its reason for refusing a text.\<close>

definition normalize_listed_session_timestamp :: "(rstr \<Rightarrow> rstr + rstr) \<Rightarrow> rstr \<Rightarrow> rstr result" where
  "normalize_listed_session_timestamp normalize_time raw =
     (case normalize_time raw of
        Inl reason \<Rightarrow> Err (InvalidParam (lit ''updated_at'') (lit ''listed session timestamp is not valid RFC3339: '' @ reason))
      | Inr t \<Rightarrow> Ok t)"

definition listed_time :: "(rstr \<Rightarrow> rstr + rstr) \<Rightarrow> rstr option \<Rightarrow> rstr option result" where
  "listed_time normalize_time raw =
     (case raw of None \<Rightarrow> Ok None
      | Some t \<Rightarrow> and_then (normalize_listed_session_timestamp normalize_time t) (\<lambda>t'. Ok (Some t')))"

definition listed_status :: "rstr \<Rightarrow> rstr" where
  "listed_status status =
     (if status = session_status_active \<or> status = session_status_closed then status else session_status_available)"

definition plan_update :: "'j json_ops \<Rightarrow> listed_session \<Rightarrow> 'j object \<Rightarrow> rstr option \<Rightarrow> session_row \<Rightarrow> session_row option result" where
  "plan_update jo item listed_metadata listed_updated_at existing =
     and_then (metadata_object jo (se_metadata_json existing)) (\<lambda>existing_metadata.
       let updated_at = (case listed_updated_at of Some t \<Rightarrow> t | None \<Rightarrow> se_updated_at existing);
           status = listed_status (se_status existing);
           metadata = extend_object existing_metadata listed_metadata;
           changed = (se_updated_at existing \<noteq> updated_at \<or> se_status existing \<noteq> status \<or>
             se_agent_id existing \<noteq> ls_agent_id item \<or> se_cwd existing \<noteq> ls_cwd item \<or>
             se_title existing \<noteq> ls_title item \<or> metadata \<noteq> existing_metadata)
       in Ok (if \<not> changed then None
              else Some (existing\<lparr>se_updated_at := updated_at, se_status := status, se_agent_id := ls_agent_id item,
                se_cwd := ls_cwd item, se_title := ls_title item, se_metadata_json := jo_print jo metadata\<rparr>)))"

definition plan_insert :: "rstr \<Rightarrow> rstr \<Rightarrow> listed_session \<Rightarrow> rstr option \<Rightarrow> session_row" where
  "plan_insert target_id now item listed_updated_at =
     \<lparr>se_id = ls_id item, se_target_id = target_id, se_agent_session_id = ls_agent_session_id item,
      se_created_at = now, se_updated_at = (case listed_updated_at of Some t \<Rightarrow> t | None \<Rightarrow> now),
      se_status = session_status_available, se_agent_id = ls_agent_id item, se_cwd = ls_cwd item,
      se_title = ls_title item, se_metadata_json = ls_metadata_json item, se_change_seq = 0\<rparr>"

text \<open>\<open>stored\<close> finds a row by the agent's key for it; a planned row replaces its entry.\<close>

fun plan_listed ::
  "'j json_ops \<Rightarrow> (rstr \<Rightarrow> rstr + rstr) \<Rightarrow> rstr \<Rightarrow> (nat \<Rightarrow> rstr) \<Rightarrow> nat \<Rightarrow> listed_session list \<Rightarrow> (rstr \<rightharpoonup> session_row)
     \<Rightarrow> listed_write list result" where
  "plan_listed jo normalize_time target_id at_time n [] stored = Ok []"
| "plan_listed jo normalize_time target_id at_time n (item # items) stored =
     and_then (metadata_object jo (ls_metadata_json item)) (\<lambda>listed_metadata.
     and_then (listed_time normalize_time (ls_updated_at item)) (\<lambda>listed_updated_at.
       case stored (ls_agent_session_id item) of
         Some existing \<Rightarrow>
           and_then (plan_update jo item listed_metadata listed_updated_at existing) (\<lambda>planned.
             case planned of
               None \<Rightarrow> plan_listed jo normalize_time target_id at_time (Suc n) items stored
             | Some row \<Rightarrow>
                 and_then (plan_listed jo normalize_time target_id at_time (Suc n) items
                   (stored(se_agent_session_id row \<mapsto> row))) (\<lambda>writes. Ok (ListedUpdate row # writes)))
       | None \<Rightarrow>
           let row = plan_insert target_id (at_time n) item listed_updated_at in
           and_then (plan_listed jo normalize_time target_id at_time (Suc n) items
             (stored(se_agent_session_id row \<mapsto> row))) (\<lambda>writes. Ok (ListedInsert row # writes))))"

definition stored_sessions :: "rstr \<Rightarrow> sstore \<Rightarrow> rstr \<rightharpoonup> session_row" where
  "stored_sessions target_id st =
     map_of (map (\<lambda>r. (se_agent_session_id r, r)) (filter (\<lambda>r. se_target_id r = target_id) (ss_sessions st)))"

definition count_writes :: "listed_write list \<Rightarrow> listed_counts" where
  "count_writes writes =
     \<lparr>lc_upserted = length (filter (\<lambda>w. case w of ListedInsert _ \<Rightarrow> True | _ \<Rightarrow> False) writes),
      lc_updated = length (filter (\<lambda>w. case w of ListedUpdate _ \<Rightarrow> True | _ \<Rightarrow> False) writes)\<rparr>"

definition write_listed :: "listed_write \<Rightarrow> sstore \<Rightarrow> sstore option" where
  "write_listed write st =
     (case write of
        ListedInsert row \<Rightarrow>
          map_option (\<lambda>(_, st1). log_change (lit ''sessions'') (se_id row) (se_updated_at row) st1) (insert_stamped row st)
      | ListedUpdate row \<Rightarrow>
          Some (log_change (lit ''sessions'') (se_id row) (se_updated_at row)
            (bump_change (se_id row)
              (set_sessions (\<lambda>r. se_id r = se_id row)
                (\<lambda>r. r\<lparr>se_updated_at := se_updated_at row, se_status := listed_status (se_status r),
                        se_agent_id := se_agent_id row, se_cwd := se_cwd row, se_title := se_title row,
                        se_metadata_json := se_metadata_json row\<rparr>) st))))"

fun write_all_listed :: "listed_write list \<Rightarrow> sstore \<Rightarrow> sstore option" where
  "write_all_listed [] st = Some st"
| "write_all_listed (w # ws) st = (case write_listed w st of None \<Rightarrow> None | Some st1 \<Rightarrow> write_all_listed ws st1)"

definition commit_listed :: "bool \<Rightarrow> log_event option \<Rightarrow> listed_write list \<Rightarrow> sstore \<Rightarrow> listed_counts result \<times> sstore" where
  "commit_listed db sync_event writes st =
     (if writes = [] then (Ok (count_writes writes), st)
      else case (if db then write_all_listed writes st else None) of
        None \<Rightarrow> (Err StateAccessFailed, st)
      | Some st1 \<Rightarrow>
          case sync_event of
            None \<Rightarrow> (Ok (count_writes writes), st1)
          | Some e \<Rightarrow>
              case insert_unscoped_event_row e st1 of
                None \<Rightarrow> (Err StateAccessFailed, st)
              | Some st2 \<Rightarrow> (Ok (count_writes writes), log_change (lit ''events'') (le_id e) (le_created_at e) st2))"

text \<open>
  The plan reads the store before the transaction opens.  \<open>sync_event counts\<close> is the event of a sync,
  which names the counts; the plain upsert has none.
\<close>

definition apply_listed_sessions ::
  "'j json_ops \<Rightarrow> (rstr \<Rightarrow> rstr + rstr) \<Rightarrow> bool \<Rightarrow> (nat \<Rightarrow> rstr) \<Rightarrow> (listed_counts \<Rightarrow> log_event) option \<Rightarrow> rstr
     \<Rightarrow> listed_session list \<Rightarrow> sstore \<Rightarrow> listed_counts result \<times> sstore" where
  "apply_listed_sessions jo normalize_time db at_time sync_event target_id items st =
     (case plan_listed jo normalize_time target_id at_time 0 items (stored_sessions target_id st) of
        Inl err \<Rightarrow> (Err err, st)
      | Inr writes \<Rightarrow> commit_listed db (map_option (\<lambda>f. f (count_writes writes)) sync_event) writes st)"

definition upsert_listed_sessions_for_target ::
  "'j json_ops \<Rightarrow> (rstr \<Rightarrow> rstr + rstr) \<Rightarrow> bool \<Rightarrow> (nat \<Rightarrow> rstr) \<Rightarrow> rstr \<Rightarrow> listed_session list \<Rightarrow> sstore
     \<Rightarrow> listed_counts result \<times> sstore" where
  "upsert_listed_sessions_for_target jo normalize_time db at_time target_id items st =
     apply_listed_sessions jo normalize_time db at_time None target_id items st"

text \<open>\<open>sync_payload\<close> prints the JSON document of the event.\<close>

definition list_synced_event :: "rstr \<Rightarrow> rstr \<Rightarrow> rstr \<Rightarrow> log_event" where
  "list_synced_event key now payload_json =
     \<lparr>le_id = key, le_created_at = now, le_level = lit ''info'', le_kind = lit ''session.list_synced'',
      le_message = lit ''ACP session list synced'', le_payload_json = payload_json, le_source = lit ''system'',
      le_session_id = None, le_seq = None\<rparr>"

definition record_session_list_sync ::
  "'j json_ops \<Rightarrow> (rstr \<Rightarrow> rstr + rstr) \<Rightarrow> bool \<Rightarrow> (nat \<Rightarrow> rstr) \<Rightarrow> rstr \<Rightarrow> rstr
     \<Rightarrow> (rstr \<Rightarrow> rstr \<Rightarrow> listed_counts \<Rightarrow> nat \<Rightarrow> rstr) \<Rightarrow> rstr \<Rightarrow> rstr \<Rightarrow> listed_session list \<Rightarrow> nat \<Rightarrow> sstore
     \<Rightarrow> listed_counts result \<times> sstore" where
  "record_session_list_sync jo normalize_time db at_time key now sync_payload target_id agent_id items skipped_invalid_cwd st =
     apply_listed_sessions jo normalize_time db at_time
       (Some (\<lambda>counts. list_synced_event key now (sync_payload target_id agent_id counts skipped_invalid_cwd)))
       target_id items st"

fun upsert_each ::
  "'j json_ops \<Rightarrow> (rstr \<Rightarrow> rstr + rstr) \<Rightarrow> bool \<Rightarrow> (nat \<Rightarrow> rstr) \<Rightarrow> listed_session list \<Rightarrow> listed_counts \<Rightarrow> sstore
     \<Rightarrow> listed_counts result \<times> sstore" where
  "upsert_each jo normalize_time db at_time [] counts st = (Ok counts, st)"
| "upsert_each jo normalize_time db at_time (item # items) counts st =
     (case upsert_listed_sessions_for_target jo normalize_time db at_time (ls_agent_id item) [item] st of
        (Inl err, st1) \<Rightarrow> (Err err, st1)
      | (Inr c, st1) \<Rightarrow> upsert_each jo normalize_time db at_time items
          \<lparr>lc_upserted = lc_upserted counts + lc_upserted c, lc_updated = lc_updated counts + lc_updated c\<rparr> st1)"

definition upsert_listed_sessions ::
  "'j json_ops \<Rightarrow> (rstr \<Rightarrow> rstr + rstr) \<Rightarrow> bool \<Rightarrow> (nat \<Rightarrow> rstr) \<Rightarrow> listed_session list \<Rightarrow> sstore
     \<Rightarrow> listed_counts result \<times> sstore" where
  "upsert_listed_sessions jo normalize_time db at_time items st =
     upsert_each jo normalize_time db at_time items \<lparr>lc_upserted = 0, lc_updated = 0\<rparr> st"

section \<open>Renamed targets\<close>

definition rename_session_target_id :: "bool \<Rightarrow> rstr \<Rightarrow> rstr \<Rightarrow> rstr \<Rightarrow> sstore \<Rightarrow> nat result \<times> sstore" where
  "rename_session_target_id db now old_target_id new_target_id st =
     (if old_target_id = new_target_id then (Ok 0, st)
      else let moving = filter (\<lambda>r. se_target_id r = old_target_id) (ss_sessions st);
               collisions = length (filter (\<lambda>m. list_ex (\<lambda>r. se_target_id r = new_target_id \<and>
                 se_agent_session_id r = se_agent_session_id m) (ss_sessions st)) moving) in
        if 0 < collisions then (Err (SessionTargetRenameConflict old_target_id new_target_id collisions), st)
        else if \<not> db then (Err StateAccessFailed, st)
        else let ids = sort (map se_id moving) in
          (Ok (length ids),
           log_changes (lit ''sessions'') ids now (bump_changes ids
             (set_sessions (\<lambda>r. se_target_id r = old_target_id)
               (\<lambda>r. r\<lparr>se_target_id := new_target_id, se_updated_at := now\<rparr>) st))))"

section \<open>Deletion\<close>

definition subagent_ids_of_root :: "rstr \<Rightarrow> sstore \<Rightarrow> rstr list" where
  "subagent_ids_of_root root_session_id st =
     map sa_session_id (filter (\<lambda>a. sa_root_session_id a = root_session_id) (ss_subagents st))"

text \<open>
  A row goes with its own subagent row; another subagent row that names it as parent or root makes
  the database refuse.
\<close>

definition delete_row :: "rstr \<Rightarrow> rstr \<Rightarrow> sstore \<Rightarrow> sstore option" where
  "delete_row now session_id st =
     (if list_ex (\<lambda>a. sa_session_id a \<noteq> session_id \<and>
           (sa_parent_session_id a = session_id \<or> sa_root_session_id a = session_id)) (ss_subagents st)
      then None
      else Some (insert_session_tombstone session_id now
        (on_base (\<lambda>b. b\<lparr>ps_sessions := filter (\<lambda>r. se_id r \<noteq> session_id) (ps_sessions b)\<rparr>)
          (st\<lparr>ss_prompts := filter (\<lambda>p. pm_session_id p \<noteq> session_id) (ss_prompts st),
             ss_events := filter (\<lambda>e. le_session_id e \<noteq> Some session_id) (ss_events st),
             ss_subagents := filter (\<lambda>a. sa_session_id a \<noteq> session_id) (ss_subagents st)\<rparr>))))"

fun delete_rows :: "rstr \<Rightarrow> rstr list \<Rightarrow> sstore \<Rightarrow> sstore option" where
  "delete_rows now [] st = Some st"
| "delete_rows now (session_id # ids) st =
     (case delete_row now session_id st of None \<Rightarrow> None | Some st1 \<Rightarrow> delete_rows now ids st1)"

definition delete_session :: "bool \<Rightarrow> rstr \<Rightarrow> rstr \<Rightarrow> sstore \<Rightarrow> (session_row \<times> nat) option result \<times> sstore" where
  "delete_session db now session_id st =
     (case get_session session_id st of
        None \<Rightarrow> (Ok None, st)
      | Some s \<Rightarrow>
          let ids = subagent_ids_of_root session_id st @ [session_id] in
          case (if db then delete_rows now ids
                  (st\<lparr>ss_subagents := filter (\<lambda>a. sa_root_session_id a \<noteq> session_id) (ss_subagents st)\<rparr>) else None) of
            None \<Rightarrow> (Err StateAccessFailed, st)
          | Some st1 \<Rightarrow> (Ok (Some s), log_changes (lit ''sessions'') ids now st1))"

section \<open>Demotions\<close>

definition set_subagents :: "(subagent_row \<Rightarrow> bool) \<Rightarrow> (subagent_row \<Rightarrow> subagent_row) \<Rightarrow> sstore \<Rightarrow> sstore" where
  "set_subagents p f st = st\<lparr>ss_subagents := update_rows p f (ss_subagents st)\<rparr>"

definition demote :: "(session_row \<Rightarrow> bool) \<Rightarrow> sstore \<Rightarrow> rstr list \<times> sstore" where
  "demote p st =
     (map se_id (filter p (ss_sessions st)), set_sessions p (\<lambda>r. r\<lparr>se_status := session_status_available\<rparr>) st)"

definition withdraw :: "(subagent_row \<Rightarrow> bool) \<Rightarrow> sstore \<Rightarrow> rstr list \<times> sstore" where
  "withdraw p st =
     (let live = (\<lambda>a. p a \<and> (sa_state_current a \<or> sa_cancel_granted a)) in
      (map sa_session_id (filter live (ss_subagents st)),
       set_subagents live (\<lambda>a. a\<lparr>sa_state_current := False, sa_cancel_granted := False\<rparr>) st))"

definition of_target :: "rstr option \<Rightarrow> session_row \<Rightarrow> bool" where
  "of_target target_id r \<longleftrightarrow> (case target_id of None \<Rightarrow> True | Some t \<Rightarrow> se_target_id r = t)"

definition reconcile_orphaned_sessions ::
  "bool \<Rightarrow> rstr \<Rightarrow> rstr option \<Rightarrow> sstore \<Rightarrow> rstr list result \<times> sstore" where
  "reconcile_orphaned_sessions db now target_id st =
     (if \<not> db then (Err StateAccessFailed, st)
      else case demote (\<lambda>r. se_status r = session_status_active \<and> of_target target_id r) st of
        (ids, st1) \<Rightarrow>
          (case withdraw (\<lambda>a. target_id = None \<or>
               list_ex (\<lambda>r. se_id r = sa_session_id a \<and> of_target target_id r) (ss_sessions st1)) st1 of
             (subagent_ids, st2) \<Rightarrow>
               (Ok ids, log_changes (lit ''sessions'') ids now (bump_changes (ids @ subagent_ids) st2))))"

definition session_prompts :: "rstr \<Rightarrow> sstore \<Rightarrow> prompt_row list" where
  "session_prompts session_id st = filter (\<lambda>p. pm_session_id p = session_id) (ss_prompts st)"

definition last_activity :: "sstore \<Rightarrow> session_row \<Rightarrow> rstr" where
  "last_activity st r = foldr max (map pm_updated_at (session_prompts (se_id r) st)) (se_updated_at r)"

definition waits_on_acp :: "sstore \<Rightarrow> rstr \<Rightarrow> bool" where
  "waits_on_acp st session_id \<longleftrightarrow>
     list_ex (\<lambda>q. pr_subject_id q = Some session_id \<and> pr_source q = lit ''acp'' \<and> pr_status q = lit ''pending'')
       (ps_requests (ss_base st))"

definition idle :: "rstr \<Rightarrow> sstore \<Rightarrow> session_row \<Rightarrow> bool" where
  "idle cutoff st r \<longleftrightarrow> se_status r = session_status_active \<and>
     \<not> list_ex in_flight (session_prompts (se_id r) st) \<and> \<not> waits_on_acp st (se_id r) \<and> last_activity st r < cutoff"

definition mark_idle_sessions :: "rstr + rstr \<Rightarrow> bool \<Rightarrow> rstr \<Rightarrow> sstore \<Rightarrow> rstr list result \<times> sstore" where
  "mark_idle_sessions cutoff db now st =
     (case cutoff of
        Inl reason \<Rightarrow> (Err (InvalidParam (lit ''sessions.idle_threshold'') reason), st)
      | Inr before \<Rightarrow>
          if \<not> db then (Err StateAccessFailed, st)
          else case demote (idle before st) st of
            (ids, st1) \<Rightarrow> (Ok ids, log_changes (lit ''sessions'') ids now (bump_changes ids st1)))"

section \<open>What blocks a restart\<close>

record restart_blocker =
  rb_session_id :: rstr
  rb_target_id :: rstr
  rb_state :: rstr
  rb_prompt_id :: "rstr option"
  rb_prompt_status :: "rstr option"
  rb_prompt_stop_reason :: "rstr option"
  rb_permission_id :: "rstr option"

definition prompt_blocker :: "session_row \<Rightarrow> prompt_row \<Rightarrow> restart_blocker" where
  "prompt_blocker r p =
     \<lparr>rb_session_id = se_id r, rb_target_id = se_target_id r,
      rb_state = (if pm_status p = lit ''pending'' then lit ''prompt_sent''
                  else if pm_status p = lit ''running'' then lit ''working'' else lit ''blocked''),
      rb_prompt_id = Some (pm_id p), rb_prompt_status = Some (pm_status p),
      rb_prompt_stop_reason = pm_stop_reason p, rb_permission_id = None\<rparr>"

definition permission_blocker :: "session_row \<Rightarrow> permission_request \<Rightarrow> restart_blocker" where
  "permission_blocker r q =
     \<lparr>rb_session_id = se_id r, rb_target_id = se_target_id r, rb_state = lit ''permission_required'',
      rb_prompt_id = None, rb_prompt_status = None, rb_prompt_stop_reason = None, rb_permission_id = Some (pr_id q)\<rparr>"

text \<open>Newest first, permissions before prompts of the same moment, then by session.\<close>

definition query_restart_blockers :: "rstr option \<Rightarrow> sstore \<Rightarrow> restart_blocker list" where
  "query_restart_blockers target_id st =
     (let active = filter (\<lambda>r. se_status r = session_status_active \<and> of_target target_id r) (ss_sessions st);
          prompts = concat (map (\<lambda>r. map (\<lambda>p. ((pm_created_at p, 0 :: nat), prompt_blocker r p))
            (filter in_flight (session_prompts (se_id r) st))) active);
          permissions = concat (map (\<lambda>r. map (\<lambda>q. ((pr_created_at q, 1 :: nat), permission_blocker r q))
            (filter (\<lambda>q. pr_subject_id q = Some (se_id r) \<and> pr_status q = lit ''pending'' \<and> pr_source q = lit ''acp'')
              (ps_requests (ss_base st)))) active)
      in map snd (rev (sort_key fst (rev (sort_key (rb_session_id \<circ> snd) (prompts @ permissions))))))"

definition query_pending_acp_permission_ids_for_target :: "rstr \<Rightarrow> sstore \<Rightarrow> rstr list" where
  "query_pending_acp_permission_ids_for_target target_id st =
     map pr_id (sort_key (\<lambda>q. (pr_created_at q, pr_id q))
       (filter (\<lambda>q. pr_status q = lit ''pending'' \<and> pr_source q = lit ''acp'' \<and>
          list_ex (\<lambda>r. Some (se_id r) = pr_subject_id q \<and> se_target_id r = target_id) (ss_sessions st))
        (ps_requests (ss_base st))))"

end
