(* ===== verification/Session_Tree.thy ===== *)
theory Session_Tree
  imports Session_Lifecycle
begin

text \<open>
  Sessions that come from other sessions: subagents (\<^verbatim>\<open>src/state/sessions/subagents.rs\<close>), which an agent
  announces on a parent, and forks (\<^verbatim>\<open>src/state/sessions/fork.rs\<close>), which inherit a part of the parent's record.
\<close>

section \<open>Subagents\<close>

datatype 'a field_patch = Keep | Clear | Set 'a

fun apply_field :: "'a field_patch \<Rightarrow> 'a option \<Rightarrow> 'a option" where
  "apply_field Keep current = current"
| "apply_field Clear current = None"
| "apply_field (Set v) current = Some v"

record subagent_patch =
  sp_agent_session_id :: rstr
  sp_title :: "rstr field_patch"
  sp_description :: "rstr field_patch"
  sp_state_json :: "rstr field_patch"
  sp_cancel_granted :: "bool option"

datatype subagent_rejection = SelfParent | Ancestor | Reparent | Prompted | HeadsTree

datatype subagent_applied =
    Announced rstr rstr bool
  | Updated rstr bool
  | Rejected subagent_rejection

definition session_by_agent_id :: "rstr \<Rightarrow> rstr \<Rightarrow> sstore \<Rightarrow> session_row option" where
  "session_by_agent_id target_id agent_session_id st =
     find (\<lambda>r. se_target_id r = target_id \<and> se_agent_session_id r = agent_session_id) (ss_sessions st)"

definition get_session_by_target_agent_session_id :: "rstr \<Rightarrow> rstr \<Rightarrow> sstore \<Rightarrow> (session_row \<times> nat) option" where
  "get_session_by_target_agent_session_id target_id agent_session_id st =
     map_option (\<lambda>r. (r, session_event_head (se_id r) st)) (session_by_agent_id target_id agent_session_id st)"

definition child_row :: "rstr \<Rightarrow> rstr \<Rightarrow> rstr \<Rightarrow> session_row \<Rightarrow> session_row" where
  "child_row key now agent_session_id parent =
     \<lparr>se_id = key, se_target_id = se_target_id parent, se_agent_session_id = agent_session_id,
      se_created_at = now, se_updated_at = now, se_status = session_status_available,
      se_agent_id = se_agent_id parent, se_cwd = se_cwd parent, se_title = None,
      se_metadata_json = lit ''{}'', se_change_seq = 0\<rparr>"

text \<open>The child a patch names: created, known to this parent, adopted, or the reason to leave it.\<close>

datatype child = ChildFails | ChildRejected subagent_rejection | ChildFound rstr "subagent_row option" sstore

definition resolve_child ::
  "rstr \<Rightarrow> rstr \<Rightarrow> session_row \<Rightarrow> rstr \<Rightarrow> rstr \<Rightarrow> sstore \<Rightarrow> child" where
  "resolve_child key now parent root_session_id agent_session_id st =
     (case session_by_agent_id (se_target_id parent) agent_session_id st of
        None \<Rightarrow>
          (case insert_stamped (child_row key now agent_session_id parent) st of
             None \<Rightarrow> ChildFails
           | Some (_, st1) \<Rightarrow> ChildFound key None st1)
      | Some existing \<Rightarrow>
          if se_id existing = se_id parent then ChildRejected SelfParent
          else if se_id existing = root_session_id then ChildRejected Ancestor
          else case subagent_on (se_id existing) st of
            Some stored \<Rightarrow>
              if sa_parent_session_id stored = se_id parent then ChildFound (se_id existing) (Some stored) st
              else ChildRejected Reparent
          | None \<Rightarrow>
              if list_ex (\<lambda>p. pm_session_id p = se_id existing) (ss_prompts st) then ChildRejected Prompted
              else if list_ex (\<lambda>a. sa_parent_session_id a = se_id existing) (ss_subagents st) then ChildRejected HeadsTree
              else ChildFound (se_id existing) None (bump_change (se_id existing) st))"

definition patched_row ::
  "rstr \<Rightarrow> bool \<Rightarrow> subagent_patch \<Rightarrow> subagent_row option \<Rightarrow> subagent_row \<Rightarrow> subagent_row" where
  "patched_row now historical patch stored a =
     (let was_current = (case stored of None \<Rightarrow> False | Some s \<Rightarrow> sa_state_current s);
          was_granted = (case stored of None \<Rightarrow> False | Some s \<Rightarrow> sa_cancel_granted s)
      in a\<lparr>sa_title := apply_field (sp_title patch) (case stored of None \<Rightarrow> None | Some s \<Rightarrow> sa_title s),
           sa_description := apply_field (sp_description patch) (case stored of None \<Rightarrow> None | Some s \<Rightarrow> sa_description s),
           sa_state_json := apply_field (sp_state_json patch) (case stored of None \<Rightarrow> None | Some s \<Rightarrow> sa_state_json s),
           sa_state_current := (case sp_state_json patch of Keep \<Rightarrow> was_current | Clear \<Rightarrow> False | Set _ \<Rightarrow> \<not> historical),
           sa_cancel_granted := (case sp_cancel_granted patch of
             Some granted \<Rightarrow> if historical then was_granted else granted | None \<Rightarrow> was_granted),
           sa_updated_at := now\<rparr>)"

definition announced_row :: "rstr \<Rightarrow> rstr \<Rightarrow> rstr \<Rightarrow> rstr \<Rightarrow> subagent_row" where
  "announced_row now session_id parent_session_id root_session_id =
     \<lparr>sa_session_id = session_id, sa_parent_session_id = parent_session_id, sa_root_session_id = root_session_id,
      sa_title = None, sa_description = None, sa_state_json = None, sa_state_current = False,
      sa_cancel_granted = False, sa_announced_at = now, sa_updated_at = now\<rparr>"

definition apply_subagent_patch ::
  "rstr \<Rightarrow> rstr \<Rightarrow> rstr \<Rightarrow> subagent_patch \<Rightarrow> rstr list \<Rightarrow> sstore \<Rightarrow> (subagent_applied \<times> sstore) result" where
  "apply_subagent_patch key now parent_session_id patch replaying_roots st =
     (case session_row_of parent_session_id st of
        None \<Rightarrow> Err (SessionNotFound parent_session_id)
      | Some parent \<Rightarrow>
          let root_session_id = root_of (se_id parent) st;
              historical = (root_session_id \<in> set replaying_roots)
          in case resolve_child key now parent root_session_id (sp_agent_session_id patch) st of
               ChildFails \<Rightarrow> Err StateAccessFailed
             | ChildRejected reason \<Rightarrow> Ok (Rejected reason, st)
             | ChildFound child stored st1 \<Rightarrow>
                 let st2 = (if historical then st1
                       else set_sessions (\<lambda>r. se_id r = child) (\<lambda>r. r\<lparr>se_updated_at := now\<rparr>) st1)
                 in case stored of
                      Some s \<Rightarrow> Ok (Updated child historical,
                        bump_change child (set_subagents (\<lambda>a. sa_session_id a = child)
                          (patched_row now historical patch (Some s)) st2))
                    | None \<Rightarrow> Ok (Announced child root_session_id historical,
                        st2\<lparr>ss_subagents := ss_subagents st2 @
                          [patched_row now historical patch None
                            (announced_row now child (se_id parent) root_session_id)]\<rparr>))"

text \<open>\<open>announced_payload\<close> prints the JSON document of the announcement.\<close>

definition record_subagent_update ::
  "(rstr \<Rightarrow> bool) \<Rightarrow> (rstr \<Rightarrow> rstr \<Rightarrow> rstr \<Rightarrow> rstr) \<Rightarrow> bool \<Rightarrow> rstr \<Rightarrow> rstr \<Rightarrow> rstr \<Rightarrow> rstr \<Rightarrow> rstr \<Rightarrow> rstr
     \<Rightarrow> rstr \<Rightarrow> rstr \<Rightarrow> subagent_patch \<Rightarrow> rstr list \<Rightarrow> sstore \<Rightarrow> subagent_applied result \<times> sstore" where
  "record_subagent_update is_json announced_payload db update_key updated_at child_key now announced_key announced_at
      parent_session_id payload_json patch replaying_roots st =
     (case session_update_event is_json update_key updated_at parent_session_id (lit ''session.update'') payload_json of
        Inl err \<Rightarrow> (Err err, st)
      | Inr update_event \<Rightarrow>
          case (if db then insert_session_update_row parent_session_id update_event st else None) of
            None \<Rightarrow> (Err StateAccessFailed, st)
          | Some (_, st1) \<Rightarrow>
              case apply_subagent_patch child_key now parent_session_id patch replaying_roots st1 of
                Inl err \<Rightarrow> (Err err, st)
              | Inr (applied, st2) \<Rightarrow>
                  case applied of
                    Announced child root _ \<Rightarrow>
                      (case insert_session_event_row parent_session_id
                         (session_event announced_key announced_at parent_session_id (lit ''info'')
                           (lit ''session.subagent_announced'') (lit ''system'') (lit ''ACP subagent session announced'')
                           (announced_payload child (sp_agent_session_id patch) root)) st2 of
                         None \<Rightarrow> (Err StateAccessFailed, st)
                       | Some (_, st3) \<Rightarrow>
                           (Ok applied, log_change (lit ''events'') announced_key announced_at
                             (log_change (lit ''sessions'') child announced_at st3)))
                  | Updated child historical \<Rightarrow>
                      (Ok applied, if historical then st2 else log_change (lit ''sessions'') child updated_at st2)
                  | Rejected _ \<Rightarrow> (Ok applied, st2))"

definition withdraw_subagent_tree :: "rstr \<Rightarrow> sstore \<Rightarrow> rstr list \<times> sstore" where
  "withdraw_subagent_tree root_session_id st =
     (case withdraw (\<lambda>a. sa_root_session_id a = root_session_id) st of (ids, st1) \<Rightarrow> (ids, bump_changes ids st1))"

definition withdraw_subagent_state :: "bool \<Rightarrow> rstr \<Rightarrow> rstr \<Rightarrow> sstore \<Rightarrow> rstr list result \<times> sstore" where
  "withdraw_subagent_state db now root_session_id st =
     (if \<not> db then (Err StateAccessFailed, st)
      else case withdraw_subagent_tree root_session_id st of
        (ids, st1) \<Rightarrow> (Ok ids, log_changes (lit ''sessions'') ids now st1))"

definition close_subagent_sessions :: "bool \<Rightarrow> rstr \<Rightarrow> rstr \<Rightarrow> sstore \<Rightarrow> rstr list result \<times> sstore" where
  "close_subagent_sessions db now root_session_id st =
     (if \<not> db then (Err StateAccessFailed, st)
      else let st1 = snd (withdraw_subagent_tree root_session_id st);
               closes = (\<lambda>r. se_id r \<in> set (subagent_ids_of_root root_session_id st1) \<and> se_status r \<noteq> session_status_closed);
               ids = map se_id (filter closes (ss_sessions st1))
        in (Ok ids, log_changes (lit ''sessions'') ids now (bump_changes ids
              (set_sessions closes (\<lambda>r. r\<lparr>se_status := session_status_closed, se_updated_at := now\<rparr>) st1))))"

definition subagent_sessions :: "rstr \<Rightarrow> sstore \<Rightarrow> (session_row \<times> nat) list" where
  "subagent_sessions root_session_id st =
     map (\<lambda>r. (r, session_event_head (se_id r) st))
       (sort_key se_id (filter (\<lambda>r. se_id r \<in> set (subagent_ids_of_root root_session_id st)) (ss_sessions st)))"

section \<open>Forks\<close>

definition fork_inherited_event_kinds :: "rstr list" where
  "fork_inherited_event_kinds =
     [lit ''session.update'', lit ''prompt.inference_failed'', lit ''prompt.stalled'', lit ''prompt.stall_resolved'',
      lit ''prompt.errored'', lit ''prompt.usage_reported'', lit ''prompt.settled'', lit ''session.cancel_requested'',
      lit ''terminal.finished'', lit ''permission.approved'', lit ''permission.denied'', lit ''permission.cancelled'',
      lit ''permission.expired'']"

definition newest_settled_prompt_id :: "rstr \<Rightarrow> sstore \<Rightarrow> rstr option" where
  "newest_settled_prompt_id session_id st =
     (let ps = session_prompts session_id st in
      case rev (sort (map pm_id (filter (\<lambda>p. \<not> list_ex (\<lambda>q. in_flight q \<and> pm_id q \<le> pm_id p) ps) ps))) of
        [] \<Rightarrow> None | key # _ \<Rightarrow> Some key)"

definition held_prompts :: "rstr \<Rightarrow> rstr option \<Rightarrow> sstore \<Rightarrow> prompt_row list" where
  "held_prompts parent held_through st =
     (case held_through of None \<Rightarrow> []
      | Some key \<Rightarrow> sort_key pm_id (filter (\<lambda>p. pm_id p \<le> key) (session_prompts parent st)))"

definition fork_cut :: "rstr \<Rightarrow> rstr option \<Rightarrow> sstore \<Rightarrow> rstr option" where
  "fork_cut parent held_through st =
     (case sort_key pm_id (filter (\<lambda>p. case held_through of None \<Rightarrow> True | Some key \<Rightarrow> key < pm_id p)
         (session_prompts parent st)) of [] \<Rightarrow> None | p # _ \<Rightarrow> Some (pm_created_at p))"

text \<open>\<open>update_tag\<close> is the database's look at the \<^verbatim>\<open>sessionUpdate\<close> member of a payload.\<close>

definition inherited :: "(rstr \<Rightarrow> rstr option) \<Rightarrow> rstr option \<Rightarrow> log_event \<Rightarrow> bool" where
  "inherited update_tag cut_at e \<longleftrightarrow>
     (case cut_at of None \<Rightarrow> True | Some t \<Rightarrow> le_created_at e < t) \<and>
     \<not> (le_kind e = lit ''session.update'' \<and> update_tag (le_payload_json e) = Some (lit ''subagent_update'')) \<and>
     le_kind e \<in> set fork_inherited_event_kinds"

fun copy_prompts :: "(nat \<Rightarrow> rstr) \<Rightarrow> nat \<Rightarrow> rstr \<Rightarrow> prompt_row list \<Rightarrow> sstore \<Rightarrow> sstore option" where
  "copy_prompts next_id n child [] st = Some st"
| "copy_prompts next_id n child (p # ps) st =
     (if list_ex (\<lambda>q. pm_id q = next_id n \<or>
            pm_session_id q = child \<and> pm_message_id p \<noteq> None \<and> pm_message_id q = pm_message_id p) (ss_prompts st)
      then None
      else copy_prompts next_id (Suc n) child ps
        (st\<lparr>ss_prompts := ss_prompts st @ [p\<lparr>pm_id := next_id n, pm_session_id := child\<rparr>]\<rparr>))"

text \<open>The \<open>n\<close>th copy takes the sequence number \<open>n\<close>, which the unique index on it may refuse.\<close>

fun copy_events :: "(nat \<Rightarrow> rstr) \<Rightarrow> nat \<Rightarrow> rstr \<Rightarrow> log_event list \<Rightarrow> sstore \<Rightarrow> sstore option" where
  "copy_events next_id n child [] st = Some st"
| "copy_events next_id n child (e # es) st =
     (if has_event (next_id n) st \<or>
         list_ex (\<lambda>f. le_seq f = Some n) (session_events child st) then None
      else copy_events next_id (Suc n) child es
        (st\<lparr>ss_events := ss_events st @ [e\<lparr>le_id := next_id n, le_session_id := Some child, le_seq := Some n\<rparr>]\<rparr>))"

fun log_copies :: "rstr \<Rightarrow> (nat \<Rightarrow> rstr) \<Rightarrow> nat \<Rightarrow> rstr list \<Rightarrow> sstore \<Rightarrow> sstore" where
  "log_copies source_table next_id n [] st = st"
| "log_copies source_table next_id n (created_at # stamps) st =
     log_copies source_table next_id (Suc n) stamps (log_change source_table (next_id n) created_at st)"

definition insert_forked_session ::
  "(rstr \<Rightarrow> bool) \<Rightarrow> (rstr \<Rightarrow> rstr option) \<Rightarrow> bool \<Rightarrow> (nat \<Rightarrow> rstr) \<Rightarrow> (nat \<Rightarrow> rstr) \<Rightarrow> rstr \<Rightarrow> rstr \<Rightarrow> rstr
     \<Rightarrow> new_session_record \<Rightarrow> rstr \<Rightarrow> rstr option \<Rightarrow> sstore \<Rightarrow> (session_row \<times> nat) result \<times> sstore" where
  "insert_forked_session json_valid update_tag db next_prompt next_event now target_id agent_session_id input
      parent held_through st =
     (if \<not> json_valid (ns_metadata_json input) then (Err InvalidEventPayload, st)
      else let row = new_active_session_row now target_id agent_session_id input in
        case (if db then insert_stamped row st else None) of
          None \<Rightarrow> (Err StateAccessFailed, st)
        | Some (change_seq, st1) \<Rightarrow>
            let prompts = held_prompts parent held_through st1 in
            case copy_prompts next_prompt 0 (se_id row) prompts st1 of
              None \<Rightarrow> (Err StateAccessFailed, st)
            | Some st2 \<Rightarrow>
                let cut_at = fork_cut parent held_through st2;
                    events = filter (inherited update_tag cut_at) (sort_key seq_of (session_events parent st2));
                    first = next_session_event_seq (se_id row) st2
                in case copy_events next_event first (se_id row) events st2 of
                     None \<Rightarrow> (Err StateAccessFailed, st)
                   | Some st3 \<Rightarrow>
                       (Ok (row\<lparr>se_change_seq := change_seq\<rparr>, if events = [] then 0 else first + length events - 1),
                        log_copies (lit ''events'') next_event first (map le_created_at events)
                          (log_copies (lit ''prompts'') next_prompt 0 (map pm_created_at prompts)
                            (log_change (lit ''sessions'') (se_id row) now st3))))"

end
