(* ===== verification/Prompt_Store.thy ===== *)
theory Prompt_Store
  imports Session_Lifecycle
begin

text \<open>
  Prompt rows and their life (\<^verbatim>\<open>src/state/sessions/prompts.rs\<close>): insertion, updates while a turn runs, its
  settlement, the sweep at startup and the sweep of prompts that went quiet.
\<close>

section \<open>Status\<close>

datatype prompt_status = PmPending | PmRunning | PmCompleted | PmErrored | PmCancelled | PmStalled

fun prompt_status_str :: "prompt_status \<Rightarrow> rstr" where
  "prompt_status_str PmPending = lit ''pending''"
| "prompt_status_str PmRunning = lit ''running''"
| "prompt_status_str PmCompleted = lit ''completed''"
| "prompt_status_str PmErrored = lit ''errored''"
| "prompt_status_str PmCancelled = lit ''cancelled''"
| "prompt_status_str PmStalled = lit ''stalled''"

definition prompt_terminal :: "prompt_status \<Rightarrow> bool" where
  "prompt_terminal s \<longleftrightarrow> s \<in> {PmCompleted, PmErrored, PmCancelled, PmStalled}"

definition prompt_status_from_str :: "rstr \<Rightarrow> prompt_status result" where
  "prompt_status_from_str s =
     (if s = lit ''pending'' then Ok PmPending
      else if s = lit ''running'' then Ok PmRunning
      else if s = lit ''completed'' then Ok PmCompleted
      else if s = lit ''errored'' then Ok PmErrored
      else if s = lit ''cancelled'' then Ok PmCancelled
      else if s = lit ''stalled'' then Ok PmStalled
      else Err (InvalidParam (lit ''prompt_status'') (lit ''unknown prompt status `'' @ s @ lit ''`'')))"

datatype failure_class = FcAgentRequest | FcInference5xx | FcInference4xx | FcVm | FcSqlite | FcDaemon | FcAgentProcess | FcStalled

fun failure_class_str :: "failure_class \<Rightarrow> rstr" where
  "failure_class_str FcAgentRequest = lit ''agent_request''"
| "failure_class_str FcInference5xx = lit ''inference_5xx''"
| "failure_class_str FcInference4xx = lit ''inference_4xx''"
| "failure_class_str FcVm = lit ''vm''"
| "failure_class_str FcSqlite = lit ''sqlite''"
| "failure_class_str FcDaemon = lit ''daemon''"
| "failure_class_str FcAgentProcess = lit ''agent_process''"
| "failure_class_str FcStalled = lit ''stalled''"

definition failure_class_from_str :: "rstr \<Rightarrow> failure_class result" where
  "failure_class_from_str s =
     (if s = lit ''agent_request'' then Ok FcAgentRequest
      else if s = lit ''inference_5xx'' then Ok FcInference5xx
      else if s = lit ''inference_4xx'' then Ok FcInference4xx
      else if s = lit ''vm'' then Ok FcVm
      else if s = lit ''sqlite'' then Ok FcSqlite
      else if s = lit ''daemon'' then Ok FcDaemon
      else if s = lit ''agent_process'' then Ok FcAgentProcess
      else if s = lit ''stalled'' then Ok FcStalled
      else Err (InvalidParam (lit ''failure_class'') (lit ''unknown failure class `'' @ s @ lit ''`'')))"

section \<open>Rows\<close>

definition get_prompt :: "rstr \<Rightarrow> sstore \<Rightarrow> prompt_row option" where
  "get_prompt prompt_id st = find (\<lambda>p. pm_id p = prompt_id) (ss_prompts st)"

definition get_prompt_by_message_id :: "rstr \<Rightarrow> rstr \<Rightarrow> sstore \<Rightarrow> prompt_row option" where
  "get_prompt_by_message_id session_id message_id st =
     find (\<lambda>p. pm_session_id p = session_id \<and> pm_message_id p = Some message_id) (ss_prompts st)"

definition new_prompt :: "rstr \<Rightarrow> rstr \<Rightarrow> rstr \<Rightarrow> rstr \<Rightarrow> rstr option \<Rightarrow> prompt_row" where
  "new_prompt prompt_id session_id now prompt_json message_id =
     \<lparr>pm_id = prompt_id, pm_session_id = session_id, pm_created_at = now, pm_updated_at = now,
      pm_status = prompt_status_str PmPending, pm_stop_reason = None, pm_error_code = None, pm_error_message = None,
      pm_prompt_json = prompt_json, pm_message_id = message_id, pm_message_id_acknowledged = False,
      pm_failure_class = None, pm_failure_detail_json = None, pm_agent_message_id = None\<rparr>"

text \<open>The row needs its session, a fresh key and a message id that is fresh in the session.\<close>

definition prompt_insertable :: "prompt_row \<Rightarrow> sstore \<Rightarrow> bool" where
  "prompt_insertable p st \<longleftrightarrow> session_row_of (pm_session_id p) st \<noteq> None \<and> get_prompt (pm_id p) st = None \<and>
     (case pm_message_id p of None \<Rightarrow> True | Some m \<Rightarrow> get_prompt_by_message_id (pm_session_id p) m st = None)"

definition insert_prompt_with_message_id ::
  "(rstr \<Rightarrow> bool) \<Rightarrow> bool \<Rightarrow> rstr \<Rightarrow> rstr \<Rightarrow> rstr \<Rightarrow> rstr \<Rightarrow> rstr option \<Rightarrow> sstore \<Rightarrow> prompt_row result \<times> sstore" where
  "insert_prompt_with_message_id json_valid db now prompt_id session_id prompt_json message_id st =
     (let p = new_prompt prompt_id session_id now prompt_json message_id in
      if \<not> json_valid prompt_json then (Err InvalidEventPayload, st)
      else if \<not> db \<or> \<not> prompt_insertable p st then (Err StateAccessFailed, st)
      else (Ok p, log_change (lit ''prompts'') prompt_id now
              (bump_change session_id (st\<lparr>ss_prompts := ss_prompts st @ [p]\<rparr>))))"

definition insert_prompt ::
  "(rstr \<Rightarrow> bool) \<Rightarrow> bool \<Rightarrow> rstr \<Rightarrow> rstr \<Rightarrow> rstr \<Rightarrow> rstr \<Rightarrow> sstore \<Rightarrow> prompt_row result \<times> sstore" where
  "insert_prompt json_valid db now prompt_id session_id prompt_json st =
     insert_prompt_with_message_id json_valid db now prompt_id session_id prompt_json None st"

definition set_prompts :: "(prompt_row \<Rightarrow> bool) \<Rightarrow> (prompt_row \<Rightarrow> prompt_row) \<Rightarrow> sstore \<Rightarrow> sstore" where
  "set_prompts p f st = st\<lparr>ss_prompts := update_rows p f (ss_prompts st)\<rparr>"

definition bump_prompt_session_change :: "rstr \<Rightarrow> sstore \<Rightarrow> sstore" where
  "bump_prompt_session_change prompt_id st =
     (case get_prompt prompt_id st of None \<Rightarrow> st | Some p \<Rightarrow> bump_change (pm_session_id p) st)"

text \<open>The shape of the updates by key, where the \<^verbatim>\<open>WHERE\<close> clause may ask for more.\<close>

definition update_prompt ::
  "bool \<Rightarrow> rstr \<Rightarrow> (prompt_row \<Rightarrow> bool) \<Rightarrow> rstr \<Rightarrow> (prompt_row \<Rightarrow> prompt_row) \<Rightarrow> sstore \<Rightarrow> unit result \<times> sstore" where
  "update_prompt db prompt_id matches now f st =
     (if \<not> db then (Err StateAccessFailed, st)
      else if \<not> list_ex (\<lambda>p. pm_id p = prompt_id \<and> matches p) (ss_prompts st) then (Err (PromptNotFound prompt_id), st)
      else (Ok (), log_change (lit ''prompts'') prompt_id now
              (bump_prompt_session_change prompt_id (set_prompts (\<lambda>p. pm_id p = prompt_id \<and> matches p) f st))))"

definition acknowledge_prompt_message_id :: "bool \<Rightarrow> rstr \<Rightarrow> rstr \<Rightarrow> rstr \<Rightarrow> sstore \<Rightarrow> unit result \<times> sstore" where
  "acknowledge_prompt_message_id db now prompt_id message_id st =
     update_prompt db prompt_id (\<lambda>p. pm_message_id p = Some message_id) now
       (\<lambda>p. p\<lparr>pm_message_id_acknowledged := True, pm_updated_at := now\<rparr>) st"

definition record_prompt_agent_message_id :: "bool \<Rightarrow> rstr \<Rightarrow> rstr \<Rightarrow> rstr \<Rightarrow> sstore \<Rightarrow> unit result \<times> sstore" where
  "record_prompt_agent_message_id db now prompt_id agent_message_id st =
     update_prompt db prompt_id (\<lambda>_. True) now
       (\<lambda>p. p\<lparr>pm_agent_message_id := Some agent_message_id, pm_updated_at := now\<rparr>) st"

definition preceding_prompt :: "rstr \<Rightarrow> rstr \<Rightarrow> sstore \<Rightarrow> (rstr \<times> rstr option) option" where
  "preceding_prompt session_id prompt_id st =
     (case rev (sort_key pm_id (filter (\<lambda>p. pm_id p < prompt_id) (session_prompts session_id st))) of
        [] \<Rightarrow> None | p # _ \<Rightarrow> Some (pm_id p, pm_agent_message_id p))"

section \<open>Status updates\<close>

text \<open>An absent value keeps the column, the empty text clears it.\<close>

definition patch_column :: "rstr option \<Rightarrow> rstr option \<Rightarrow> rstr option" where
  "patch_column new_value current =
     (case new_value of None \<Rightarrow> current | Some v \<Rightarrow> if v = [] then None else Some v)"

definition settled_text :: "prompt_row \<Rightarrow> bool" where
  "settled_text p \<longleftrightarrow> pm_status p \<in> {lit ''completed'', lit ''errored'', lit ''cancelled'', lit ''stalled''}"

definition update_prompt_status ::
  "bool \<Rightarrow> rstr \<Rightarrow> rstr \<Rightarrow> prompt_status \<Rightarrow> rstr option \<Rightarrow> rstr option \<Rightarrow> rstr option \<Rightarrow> rstr option \<Rightarrow> rstr option
     \<Rightarrow> sstore \<Rightarrow> bool result \<times> sstore" where
  "update_prompt_status db now prompt_id status stop_reason error_code error_message failure_class failure_detail_json st =
     (if \<not> db then (Err StateAccessFailed, st)
      else if \<not> list_ex (\<lambda>p. pm_id p = prompt_id \<and> \<not> settled_text p) (ss_prompts st) then
        (if get_prompt prompt_id st = None then (Err (PromptNotFound prompt_id), st) else (Ok False, st))
      else (Ok True, log_change (lit ''prompts'') prompt_id now
        (bump_prompt_session_change prompt_id
          (set_prompts (\<lambda>p. pm_id p = prompt_id \<and> \<not> settled_text p)
            (\<lambda>p. p\<lparr>pm_status := prompt_status_str status, pm_updated_at := now, pm_stop_reason := stop_reason,
                    pm_error_code := error_code, pm_error_message := error_message,
                    pm_failure_class := patch_column failure_class (pm_failure_class p),
                    pm_failure_detail_json := patch_column failure_detail_json (pm_failure_detail_json p)\<rparr>) st))))"

record prompt_settlement =
  st_status :: prompt_status
  st_stop_reason :: "rstr option"
  st_error_code :: "rstr option"
  st_error_message :: "rstr option"
  st_failure_class :: "rstr option"
  st_failure_detail_json :: "rstr option"

datatype prompt_settle = Applied | ReplacedStall | AlreadyTerminal

definition settle_verdict :: "prompt_status \<Rightarrow> bool \<Rightarrow> prompt_settle" where
  "settle_verdict current replace_stalled =
     (if current \<in> {PmPending, PmRunning} then Applied
      else if current = PmStalled \<and> replace_stalled then ReplacedStall
      else AlreadyTerminal)"

definition settled_row :: "rstr \<Rightarrow> prompt_settlement \<Rightarrow> prompt_row \<Rightarrow> prompt_row" where
  "settled_row now settlement p =
     p\<lparr>pm_status := prompt_status_str (st_status settlement), pm_updated_at := now,
       pm_stop_reason := st_stop_reason settlement, pm_error_code := st_error_code settlement,
       pm_error_message := st_error_message settlement, pm_failure_class := st_failure_class settlement,
       pm_failure_detail_json := st_failure_detail_json settlement\<rparr>"

definition settle_prompt ::
  "bool \<Rightarrow> rstr \<Rightarrow> rstr \<Rightarrow> prompt_settlement \<Rightarrow> bool \<Rightarrow> sstore \<Rightarrow> prompt_settle result \<times> sstore" where
  "settle_prompt db now prompt_id settlement replace_stalled st =
     (if \<not> prompt_terminal (st_status settlement) then
        (Err (InvalidParam (lit ''prompt_status'')
           (lit ''`'' @ prompt_status_str (st_status settlement) @ lit ''` is not a terminal prompt status'')), st)
      else if \<not> db then (Err StateAccessFailed, st)
      else case get_prompt prompt_id st of
        None \<Rightarrow> (Err (PromptNotFound prompt_id), st)
      | Some p \<Rightarrow>
          case prompt_status_from_str (pm_status p) of
            Inl err \<Rightarrow> (Err err, st)
          | Inr current \<Rightarrow>
              let verdict = settle_verdict current replace_stalled in
              if verdict = AlreadyTerminal then (Ok verdict, st)
              else (Ok verdict, log_change (lit ''prompts'') prompt_id now
                (bump_prompt_session_change prompt_id
                  (set_prompts (\<lambda>q. pm_id q = prompt_id) (settled_row now settlement) st))))"

section \<open>The sweep at startup\<close>

text \<open>
  One transaction settles the rows and then, for each of them in the order the update returned them,
  writes its event; \<open>outcome_payload\<close> prints the JSON document of the event.
\<close>

definition orphaned_prompt :: "rstr \<Rightarrow> rstr \<Rightarrow> prompt_row \<Rightarrow> prompt_row" where
  "orphaned_prompt now reason p =
     p\<lparr>pm_status := lit ''errored'', pm_updated_at := now, pm_error_code := Some (lit ''agent.daemon_restart''),
       pm_error_message := Some reason, pm_failure_class := Some (lit ''agent_process'')\<rparr>"

definition orphan_event :: "(rstr \<Rightarrow> prompt_status \<Rightarrow> rstr option \<Rightarrow> rstr option \<Rightarrow> rstr) \<Rightarrow> rstr \<Rightarrow> rstr \<Rightarrow> rstr \<Rightarrow> rstr \<Rightarrow> log_event" where
  "orphan_event outcome_payload key now prompt_id session_id =
     session_event key now session_id (lit ''info'') (lit ''prompt.settled'') (lit ''system'') (lit ''prompt settled'')
       (outcome_payload prompt_id PmErrored None (Some (lit ''agent.daemon_restart'')))"

fun report_orphans ::
  "(rstr \<Rightarrow> prompt_status \<Rightarrow> rstr option \<Rightarrow> rstr option \<Rightarrow> rstr) \<Rightarrow> (nat \<Rightarrow> rstr) \<Rightarrow> nat \<Rightarrow> rstr \<Rightarrow> (rstr \<times> rstr) list
     \<Rightarrow> sstore \<Rightarrow> sstore option" where
  "report_orphans outcome_payload next_id n now [] st = Some st"
| "report_orphans outcome_payload next_id n now ((prompt_id, session_id) # rows) st =
     (case insert_session_event_row session_id (orphan_event outcome_payload (next_id n) now prompt_id session_id) st of
        None \<Rightarrow> None
      | Some (_, st1) \<Rightarrow>
          report_orphans outcome_payload next_id (Suc n) now rows
            (log_change (lit ''events'') (next_id n) now
              (log_change (lit ''prompts'') prompt_id now (bump_change session_id st1))))"

definition reconcile_orphaned_prompts ::
  "(rstr \<Rightarrow> prompt_status \<Rightarrow> rstr option \<Rightarrow> rstr option \<Rightarrow> rstr) \<Rightarrow> bool \<Rightarrow> (nat \<Rightarrow> rstr) \<Rightarrow> rstr \<Rightarrow> rstr \<Rightarrow> sstore
     \<Rightarrow> nat result \<times> sstore" where
  "reconcile_orphaned_prompts outcome_payload db next_id now reason st =
     (let rows = map (\<lambda>p. (pm_id p, pm_session_id p)) (filter in_flight (ss_prompts st)) in
      case (if db then report_orphans outcome_payload next_id 0 now rows
              (set_prompts in_flight (orphaned_prompt now reason) st) else None) of
        None \<Rightarrow> (Err StateAccessFailed, st)
      | Some st1 \<Rightarrow> (Ok (length rows), st1))"

section \<open>Quiet prompts\<close>

text \<open>
  The updates of a turn: the tag, the tool call and the status that the database extracts from the
  payloads.  A map from calls to their latest status; a call that has not closed holds the turn open.
\<close>

record update_view =
  uv_kind :: "rstr \<Rightarrow> rstr option"
  uv_tool_call_id :: "rstr \<Rightarrow> rstr option"
  uv_status :: "rstr \<Rightarrow> rstr option"

type_synonym tool_update = "rstr \<times> rstr option \<times> rstr option"

definition turn_updates :: "update_view \<Rightarrow> rstr \<Rightarrow> rstr \<Rightarrow> sstore \<Rightarrow> tool_update list" where
  "turn_updates uv session_id since st =
     List.map_filter (\<lambda>e. case uv_kind uv (le_payload_json e) of
         Some kind \<Rightarrow> if kind \<in> {lit ''tool_call'', lit ''tool_call_update''}
           then Some (kind, uv_tool_call_id uv (le_payload_json e), uv_status uv (le_payload_json e)) else None
       | None \<Rightarrow> None)
     (sort_key seq_of (filter (\<lambda>e. le_kind e = lit ''session.update'' \<and> since \<le> le_created_at e) (session_events session_id st)))"

fun track_call :: "tool_update \<Rightarrow> (rstr \<rightharpoonup> rstr) \<Rightarrow> (rstr \<rightharpoonup> rstr)" where
  "track_call (kind, None, status) statuses = statuses"
| "track_call (kind, Some call, status) statuses =
     (if kind = lit ''tool_call'' then statuses(call \<mapsto> (case status of Some s \<Rightarrow> s | None \<Rightarrow> lit ''pending''))
      else if statuses call = None then statuses
      else (case status of None \<Rightarrow> statuses | Some s \<Rightarrow> statuses(call \<mapsto> s)))"

definition closed_status :: "rstr \<Rightarrow> bool" where
  "closed_status s \<longleftrightarrow> s \<in> {lit ''completed'', lit ''failed''}"

definition open_call_in :: "tool_update list \<Rightarrow> bool" where
  "open_call_in us =
     (let statuses = fold track_call us Map.empty in
      list_ex (\<lambda>(_, call, _). case call of None \<Rightarrow> False
        | Some c \<Rightarrow> (case statuses c of None \<Rightarrow> False | Some s \<Rightarrow> \<not> closed_status s)) us)"

definition session_has_open_tool_call :: "update_view \<Rightarrow> rstr \<Rightarrow> rstr \<Rightarrow> sstore \<Rightarrow> bool" where
  "session_has_open_tool_call uv session_id since st = open_call_in (turn_updates uv session_id since st)"

text \<open>\<open>cutoff\<close> is the moment of a threshold ago, as text, or why the clock cannot name it.\<close>

definition stale_cutoff :: "('d \<Rightarrow> rstr + rstr) \<Rightarrow> 'd \<Rightarrow> rstr \<Rightarrow> rstr result" where
  "stale_cutoff cutoff threshold field =
     (case cutoff threshold of Inl reason \<Rightarrow> Err (InvalidParam field reason) | Inr t \<Rightarrow> Ok t)"

record 'd stale_thresholds =
  th_quiet :: 'd
  th_open_tool_call :: 'd

record 'd stuck_prompt =
  sk_id :: rstr
  sk_session_id :: rstr
  sk_updated_at :: rstr
  sk_threshold :: 'd

definition judge_prompt :: "update_view \<Rightarrow> rstr \<Rightarrow> 'd stale_thresholds \<Rightarrow> sstore \<Rightarrow> prompt_row \<Rightarrow> 'd stuck_prompt option" where
  "judge_prompt uv tool_call_cutoff thresholds st p =
     (let stuck = (\<lambda>threshold. \<lparr>sk_id = pm_id p, sk_session_id = pm_session_id p, sk_updated_at = pm_updated_at p,
            sk_threshold = threshold\<rparr>)
      in if session_has_open_tool_call uv (pm_session_id p) (pm_created_at p) st then
           (if tool_call_cutoff \<le> pm_updated_at p then None else Some (stuck (th_open_tool_call thresholds)))
         else Some (stuck (th_quiet thresholds)))"

definition stuck_prompts ::
  "update_view \<Rightarrow> ('d \<Rightarrow> rstr + rstr) \<Rightarrow> 'd stale_thresholds \<Rightarrow> sstore \<Rightarrow> 'd stuck_prompt list result" where
  "stuck_prompts uv cutoff thresholds st =
     and_then (stale_cutoff cutoff (th_quiet thresholds) (lit ''prompts.stale_threshold'')) (\<lambda>quiet_cutoff.
     and_then (stale_cutoff cutoff (th_open_tool_call thresholds) (lit ''prompts.tool_call_stale_threshold'')) (\<lambda>tool_call_cutoff.
       Ok (List.map_filter (judge_prompt uv tool_call_cutoff thresholds st)
         (sort_key (\<lambda>p. (pm_updated_at p, pm_id p))
           (filter (\<lambda>p. in_flight p \<and> pm_updated_at p < quiet_cutoff) (ss_prompts st))))))"

record 'd stalled_prompt =
  sd_prompt_id :: rstr
  sd_session_id :: rstr
  sd_threshold :: 'd

definition stalled_row :: "rstr \<Rightarrow> rstr \<Rightarrow> prompt_row \<Rightarrow> prompt_row" where
  "stalled_row now reason p =
     p\<lparr>pm_status := lit ''stalled'', pm_updated_at := now, pm_error_code := Some (lit ''prompt.stalled''),
       pm_error_message := Some reason, pm_failure_class := Some (lit ''stalled'')\<rparr>"

fun stall_prompts :: "rstr \<Rightarrow> rstr \<Rightarrow> 'd stuck_prompt list \<Rightarrow> sstore \<Rightarrow> 'd stalled_prompt list \<times> sstore" where
  "stall_prompts now reason [] st = ([], st)"
| "stall_prompts now reason (stuck # rest) st =
     (if \<not> list_ex (\<lambda>p. pm_id p = sk_id stuck \<and> in_flight p) (ss_prompts st) then stall_prompts now reason rest st
      else case stall_prompts now reason rest
          (log_change (lit ''prompts'') (sk_id stuck) now (bump_change (sk_session_id stuck)
            (set_prompts (\<lambda>p. pm_id p = sk_id stuck \<and> in_flight p) (stalled_row now reason) st))) of
        (stalled, st1) \<Rightarrow>
          (\<lparr>sd_prompt_id = sk_id stuck, sd_session_id = sk_session_id stuck, sd_threshold = sk_threshold stuck\<rparr> # stalled, st1))"

definition mark_stalled_prompts ::
  "update_view \<Rightarrow> ('d \<Rightarrow> rstr + rstr) \<Rightarrow> bool \<Rightarrow> rstr \<Rightarrow> 'd stale_thresholds \<Rightarrow> rstr \<Rightarrow> sstore
     \<Rightarrow> 'd stalled_prompt list result \<times> sstore" where
  "mark_stalled_prompts uv cutoff db now thresholds reason st =
     (if \<not> db then (Err StateAccessFailed, st)
      else case stuck_prompts uv cutoff thresholds st of
        Inl err \<Rightarrow> (Err err, st)
      | Inr stuck \<Rightarrow> (case stall_prompts now reason stuck st of (stalled, st1) \<Rightarrow> (Ok stalled, st1)))"

definition count_stuck_prompts ::
  "update_view \<Rightarrow> ('d \<Rightarrow> rstr + rstr) \<Rightarrow> 'd stale_thresholds \<Rightarrow> sstore \<Rightarrow> (nat \<times> rstr option) result" where
  "count_stuck_prompts uv cutoff thresholds st =
     and_then (stuck_prompts uv cutoff thresholds st) (\<lambda>stuck.
       Ok (length stuck, case sort (map sk_updated_at stuck) of [] \<Rightarrow> None | t # _ \<Rightarrow> Some t))"

end
