(* ===== verification/Feed_Tracking.thy ===== *)
theory Feed_Tracking
  imports Session_Tree Prompt_Store
begin

text \<open>
  What the change feed (\<^verbatim>\<open>src/state/sessions/changes.rs\<close>) owes its readers.  \<open>session_view\<close> is what the daemon
  shows of a session; \<open>listed\<close> says that the feed reports a session after a position.  A write
  \<open>advances\<close> the store when every session it changes is listed after the old head and nothing listed before
  is lost, except for tombstones the reader is told about.  Within a transaction, \<open>tracks K\<close> says so
  of all sessions but the ones in \<open>K\<close>, which wait for their stamp; one lemma per kind of write.
\<close>

section \<open>What a session looks like\<close>

definition acp_requests :: "rstr \<Rightarrow> sstore \<Rightarrow> permission_request list" where
  "acp_requests session_id st =
     filter (\<lambda>q. pr_source q = lit ''acp'' \<and> pr_subject_id q = Some session_id) (ps_requests (ss_base st))"

type_synonym view = "(session_row \<times> prompt_row list \<times> log_event list \<times> subagent_row option \<times> permission_request list) option"

definition session_view :: "rstr \<Rightarrow> sstore \<Rightarrow> view" where
  "session_view session_id st =
     map_option (\<lambda>r. (r\<lparr>se_change_seq := 0\<rparr>, map (\<lambda>p. p\<lparr>pm_updated_at := []\<rparr>) (session_prompts session_id st),
       session_events session_id st, subagent_on session_id st, acp_requests session_id st)) (session_row_of session_id st)"

definition listed :: "rstr \<Rightarrow> nat \<Rightarrow> sstore \<Rightarrow> bool" where
  "listed session_id position st \<longleftrightarrow>
     (\<exists>c \<in> set (feed_entries st). sc_session_id c = session_id \<and> position < sc_change_seq c)"

definition feed_ok :: "sstore \<Rightarrow> bool" where
  "feed_ok st \<longleftrightarrow> distinct (map sc_session_id (feed_entries st)) \<and> distinct (map sc_change_seq (feed_entries st)) \<and>
     (\<forall>c \<in> set (feed_entries st). 0 < sc_change_seq c \<and> sc_change_seq c \<le> ss_head st) \<and> ss_pruned_through st \<le> ss_head st"

definition advances :: "rstr set \<Rightarrow> sstore \<Rightarrow> sstore \<Rightarrow> bool" where
  "advances K st0 st \<longleftrightarrow> ss_head st0 \<le> ss_head st \<and> ss_pruned_through st0 \<le> ss_pruned_through st \<and>
     (\<forall>k. k \<in> K \<and> session_row_of k st \<noteq> None \<or> session_view k st = session_view k st0 \<or> listed k (ss_head st0) st) \<and>
     (\<forall>k c. c \<le> ss_head st0 \<longrightarrow> listed k c st0 \<longrightarrow> listed k c st \<or> session_row_of k st0 = None \<and> c < ss_pruned_through st)"

definition tracks :: "rstr set \<Rightarrow> sstore \<Rightarrow> sstore \<Rightarrow> bool" where
  "tracks K st0 st \<longleftrightarrow> feed_ok st \<and> advances K st0 st"

section \<open>Lemmas\<close>

lemma row_listed: "session_row_of k st \<noteq> None \<longleftrightarrow> (\<exists>c \<in> set (feed_entries st). sc_session_id c = k \<and> \<not> sc_deleted c)"
  by (simp add: session_row_of_def find_None_iff feed_entries_def bex_Un) auto

lemma view_None: "session_view k st = None \<longleftrightarrow> session_row_of k st = None"
  by (simp add: session_view_def)

lemma tracks_refl: "feed_ok st \<Longrightarrow> tracks K st st"
  by (simp add: tracks_def advances_def)

lemma tracks_view:
  "tracks K st0 st \<Longrightarrow> k \<in> K \<and> session_row_of k st \<noteq> None \<or> session_view k st = session_view k st0 \<or> listed k (ss_head st0) st"
  by (auto simp: tracks_def advances_def)

lemma tracks_same:
  assumes "tracks K st0 st" and "feed_entries st' = feed_entries st" and "ss_head st' = ss_head st"
    and "ss_pruned_through st' = ss_pruned_through st" and "\<And>k. k \<notin> K \<Longrightarrow> session_view k st' = session_view k st"
  shows "tracks K st0 st'"
proof -
  have listed: "listed k c st' = listed k c st" for k c by (simp add: listed_def assms(2))
  have row: "session_row_of k st' \<noteq> None \<longleftrightarrow> session_row_of k st \<noteq> None" for k by (simp only: row_listed assms(2))
  have "k \<in> K \<and> session_row_of k st' \<noteq> None \<or> session_view k st' = session_view k st0 \<or> listed k (ss_head st0) st'" for k
  proof (cases "k \<in> K")
    case True
    have "session_view k st' = session_view k st" if "session_row_of k st' = None"
      using that row [of k] by (simp add: session_view_def)
    then show ?thesis using tracks_view [OF assms(1), of k] listed row [of k] True by metis
  next
    case False
    then show ?thesis using tracks_view [OF assms(1), of k] assms(5) listed by metis
  qed
  then show ?thesis
    using assms(1-4) listed by (auto simp: tracks_def advances_def feed_ok_def)
qed

lemma feed_entries_cong:
  assumes "map (\<lambda>r. (se_id r, se_change_seq r)) (ss_sessions st') = map (\<lambda>r. (se_id r, se_change_seq r)) (ss_sessions st)"
    and "ss_tombstones st' = ss_tombstones st"
  shows "feed_entries st' = feed_entries st"
proof -
  have "map (\<lambda>r. \<lparr>sc_session_id = se_id r, sc_change_seq = se_change_seq r, sc_deleted = False\<rparr>) rs =
     map (\<lambda>(i, n). \<lparr>sc_session_id = i, sc_change_seq = n, sc_deleted = False\<rparr>) (map (\<lambda>r. (se_id r, se_change_seq r)) rs)" for rs :: "session_row list"
    by simp
  then show ?thesis using assms by (simp only: feed_entries_def)
qed

text \<open>Writes that leave session rows, stamps and tombstones alone.\<close>

lemma tracks_tables:
  assumes "tracks K st0 st" and "ss_sessions st' = ss_sessions st" and "ss_tombstones st' = ss_tombstones st"
    and "ss_head st' = ss_head st" and "ss_pruned_through st' = ss_pruned_through st"
    and "\<And>k. k \<notin> K \<Longrightarrow> map (\<lambda>p. p\<lparr>pm_updated_at := []\<rparr>) (session_prompts k st') =
        map (\<lambda>p. p\<lparr>pm_updated_at := []\<rparr>) (session_prompts k st)"
    and "\<And>k. k \<notin> K \<Longrightarrow> session_events k st' = session_events k st"
    and "\<And>k. k \<notin> K \<Longrightarrow> subagent_on k st' = subagent_on k st"
    and "\<And>k. k \<notin> K \<Longrightarrow> acp_requests k st' = acp_requests k st"
  shows "tracks K st0 st'"
  by (rule tracks_same [OF assms(1) feed_entries_cong])
    (use assms in \<open>simp_all add: session_view_def session_row_of_def\<close>)

lemma log_change_tables [simp]:
  "ss_sessions (log_change t i now st) = ss_sessions st" "ss_tombstones (log_change t i now st) = ss_tombstones st"
  "ss_head (log_change t i now st) = ss_head st" "ss_pruned_through (log_change t i now st) = ss_pruned_through st"
  "ss_events (log_change t i now st) = ss_events st" "ss_prompts (log_change t i now st) = ss_prompts st"
  "ss_subagents (log_change t i now st) = ss_subagents st"
  "ps_requests (ss_base (log_change t i now st)) = ps_requests (ss_base st)"
  by (simp_all add: log_change_def on_base_def log_row_def)

lemma log_changes_tables [simp]:
  "ss_sessions (log_changes t is now st) = ss_sessions st" "ss_tombstones (log_changes t is now st) = ss_tombstones st"
  "ss_head (log_changes t is now st) = ss_head st" "ss_pruned_through (log_changes t is now st) = ss_pruned_through st"
  "ss_events (log_changes t is now st) = ss_events st" "ss_prompts (log_changes t is now st) = ss_prompts st"
  "ss_subagents (log_changes t is now st) = ss_subagents st"
  "ps_requests (ss_base (log_changes t is now st)) = ps_requests (ss_base st)"
  unfolding log_changes_def by (induction "is" arbitrary: st) simp_all

lemma view_tables:
  "session_prompts k st = filter (\<lambda>p. pm_session_id p = k) (ss_prompts st)"
  "session_events k st = filter (\<lambda>e. le_session_id e = Some k) (ss_events st)"
  "subagent_on k st = find (\<lambda>a. sa_session_id a = k) (ss_subagents st)"
  "acp_requests k st = filter (\<lambda>q. pr_source q = lit ''acp'' \<and> pr_subject_id q = Some k) (ps_requests (ss_base st))"
  by (simp_all add: session_prompts_def session_events_def subagent_on_def acp_requests_def)

lemma tracks_log:
  "tracks K st0 st \<Longrightarrow> tracks K st0 (log_change t i now st)"
  "tracks K st0 st \<Longrightarrow> tracks K st0 (log_changes t is now st)"
  by (erule tracks_tables; simp add: view_tables)+

text \<open>A stamp settles the session it is for.\<close>

lemma bump_change_tables [simp]:
  "ss_tombstones (bump_change k st) = ss_tombstones st" "ss_pruned_through (bump_change k st) = ss_pruned_through st"
  "ss_events (bump_change k st) = ss_events st" "ss_prompts (bump_change k st) = ss_prompts st"
  "ss_subagents (bump_change k st) = ss_subagents st"
  "ps_requests (ss_base (bump_change k st)) = ps_requests (ss_base st)"
  by (simp_all add: bump_change_def on_base_def)

lemma bump_change_rows:
  "ss_sessions (bump_change k st) =
     map (\<lambda>r. if se_id r = k then r\<lparr>se_change_seq := ss_head st + 1\<rparr> else r) (ss_sessions st)"
  "ss_head (bump_change k st) = (if session_row_of k st = None then ss_head st else ss_head st + 1)"
proof -
  have "session_row_of k st = None \<longleftrightarrow> \<not> list_ex (\<lambda>r. se_id r = k) (ss_sessions st)"
    by (auto simp: session_row_of_def find_None_iff list_ex_iff)
  moreover have "map (\<lambda>r. if se_id r = k then f r else r) rs = rs" if "\<not> list_ex (\<lambda>r. se_id r = k) rs" for f and rs :: "session_row list"
    using that by (induction rs) auto
  ultimately show
    "ss_sessions (bump_change k st) = map (\<lambda>r. if se_id r = k then r\<lparr>se_change_seq := ss_head st + 1\<rparr> else r) (ss_sessions st)"
    "ss_head (bump_change k st) = (if session_row_of k st = None then ss_head st else ss_head st + 1)"
    by (auto simp: bump_change_def on_base_def bump_session_change_def update_rows_def)
qed

lemma feed_ok_tables:
  "feed_ok st \<longleftrightarrow>
     distinct (map se_id (ss_sessions st)) \<and> distinct (map tb_session_id (ss_tombstones st)) \<and>
     se_id ` set (ss_sessions st) \<inter> tb_session_id ` set (ss_tombstones st) = {} \<and>
     distinct (map se_change_seq (ss_sessions st)) \<and> distinct (map tb_change_seq (ss_tombstones st)) \<and>
     se_change_seq ` set (ss_sessions st) \<inter> tb_change_seq ` set (ss_tombstones st) = {} \<and>
     (\<forall>r \<in> set (ss_sessions st). 0 < se_change_seq r \<and> se_change_seq r \<le> ss_head st) \<and>
     (\<forall>t \<in> set (ss_tombstones st). 0 < tb_change_seq t \<and> tb_change_seq t \<le> ss_head st) \<and> ss_pruned_through st \<le> ss_head st"
  by (simp add: feed_ok_def feed_entries_def comp_def image_image ball_Un)

lemma listed_tables:
  "listed k c st \<longleftrightarrow> (\<exists>r \<in> set (ss_sessions st). se_id r = k \<and> c < se_change_seq r) \<or>
     (\<exists>t \<in> set (ss_tombstones st). tb_session_id t = k \<and> c < tb_change_seq t)"
  by (simp add: listed_def feed_entries_def bex_Un)

lemma row_in: "session_row_of k st \<noteq> None \<longleftrightarrow> (\<exists>r \<in> set (ss_sessions st). se_id r = k)"
  by (auto simp: session_row_of_def find_None_iff)

lemma distinct_restamp:
  "distinct (map i xs) \<Longrightarrow> distinct (map s xs) \<Longrightarrow> \<forall>x \<in> set xs. s x \<le> n \<Longrightarrow>
   distinct (map (\<lambda>x. if i x = k then Suc n else s x) xs)"
  by (induction xs) (fastforce simp: image_iff)+

lemma find_map_same:
  "(\<And>x. P (f x) = P x) \<Longrightarrow> find P (map f xs) = map_option f (find P xs)"
  by (induction xs) auto

lemma bex_map: "(\<exists>y \<in> set (map f xs). P y) \<longleftrightarrow> (\<exists>x \<in> set xs. P (f x))"
  by auto

lemma listed_bump:
  "listed j c (bump_change k st) \<longleftrightarrow>
     (\<exists>r \<in> set (ss_sessions st). se_id r = j \<and> c < (if j = k then Suc (ss_head st) else se_change_seq r)) \<or>
     (\<exists>t \<in> set (ss_tombstones st). tb_session_id t = j \<and> c < tb_change_seq t)"
  unfolding listed_tables bump_change_rows bex_map bump_change_tables by (intro disj_cong bex_cong refl) auto

lemma row_bump: "session_row_of j (bump_change k st) = None \<longleftrightarrow> session_row_of j st = None"
  by (simp add: session_row_of_def bump_change_rows find_map_same)

lemma view_bump: "session_view j (bump_change k st) = session_view j st"
proof -
  have "map_option (\<lambda>r. r\<lparr>se_change_seq := 0\<rparr>) (session_row_of j (bump_change k st)) =
    map_option (\<lambda>r. r\<lparr>se_change_seq := 0\<rparr>) (session_row_of j st)"
    by (simp add: session_row_of_def bump_change_rows find_map_same option.map_comp comp_def if_distrib cong: if_cong)
  then show ?thesis
    by (cases "session_row_of j (bump_change k st)"; cases "session_row_of j st") (simp_all add: session_view_def view_tables)
qed

lemma tracks_bump:
  assumes "tracks (insert k K) st0 st"
  shows "tracks K st0 (bump_change k st)"
proof (cases "session_row_of k st = None")
  case True
  then have "bump_change k st = st"
    by (simp add: bump_change_def on_base_def bump_session_change_def session_row_of_def find_None_iff list_ex_iff)
  moreover have "tracks K st0 st"
    using assms True unfolding tracks_def advances_def by (metis insert_iff)
  ultimately show ?thesis by simp
next
  case False
  let ?st = "bump_change k st"
  have ok: "feed_ok st" using assms by (simp add: tracks_def)
  have head: "ss_head ?st = Suc (ss_head st)" using False by (simp add: bump_change_rows)
  have mono: "listed j c ?st" if "listed j c st" "c \<le> ss_head st" for j c
    using that by (subst listed_bump) (auto simp: listed_tables [of _ _ st])
  have here: "listed k c ?st" if "c \<le> ss_head st" for c
    using that False unfolding row_in by (subst listed_bump) auto
  have "distinct (map (\<lambda>r. if se_id r = k then Suc (ss_head st) else se_change_seq r) (ss_sessions st))"
    using ok by (intro distinct_restamp) (auto simp: feed_ok_tables)
  then have "feed_ok ?st"
    using ok head unfolding feed_ok_tables
    by (auto simp: bump_change_rows comp_def if_distrib [of se_id] if_distrib [of se_change_seq] cong: if_cong)
  then show ?thesis
    using assms head mono here unfolding tracks_def advances_def view_bump row_bump
    by (smt (verit) bump_change_tables(2) insert_iff le_SucI order_trans)
qed

lemma tracks_bumps: "tracks (set ks \<union> K) st0 st \<Longrightarrow> tracks K st0 (bump_changes ks st)"
  unfolding bump_changes_def
proof (induction ks arbitrary: st)
  case (Cons k ks)
  then show ?case using tracks_bump [of k "set ks \<union> K" st0 st] by simp
qed simp

lemma tracksI:
  assumes "feed_ok st" and "ss_head st0 \<le> ss_head st" and "ss_pruned_through st0 \<le> ss_pruned_through st"
    and "\<And>k. k \<in> K \<and> session_row_of k st \<noteq> None \<or> session_view k st = session_view k st0 \<or> listed k (ss_head st0) st"
    and "\<And>k c. c \<le> ss_head st0 \<Longrightarrow> listed k c st0 \<Longrightarrow> listed k c st \<or> session_row_of k st0 = None \<and> c < ss_pruned_through st"
  shows "tracks K st0 st"
  using assms by (auto simp: tracks_def advances_def)

lemma tracks_later:
  assumes "tracks K st0 st" and "feed_ok st'" and "ss_head st \<le> ss_head st'"
    and "ss_pruned_through st' = ss_pruned_through st"
    and view: "\<And>j. session_view j st' = session_view j st \<or> listed j (ss_head st) st'"
    and row: "\<And>j. j \<in> K \<Longrightarrow> session_row_of j st \<noteq> None \<Longrightarrow>
      j \<in> K' \<and> session_row_of j st' \<noteq> None \<or> listed j (ss_head st) st'"
    and keep: "\<And>j c. c \<le> ss_head st \<Longrightarrow> listed j c st \<Longrightarrow> listed j c st'"
  shows "tracks K' st0 st'"
proof (rule tracksI)
  have old: "ss_head st0 \<le> ss_head st" "ss_pruned_through st0 \<le> ss_pruned_through st"
    "\<And>k c. c \<le> ss_head st0 \<Longrightarrow> listed k c st0 \<Longrightarrow> listed k c st \<or> session_row_of k st0 = None \<and> c < ss_pruned_through st"
    using assms(1) by (auto simp: tracks_def advances_def)
  show "feed_ok st'" "ss_head st0 \<le> ss_head st'" "ss_pruned_through st0 \<le> ss_pruned_through st'"
    using assms(2-4) old by auto
  show "listed k c st' \<or> session_row_of k st0 = None \<and> c < ss_pruned_through st'" if "c \<le> ss_head st0" "listed k c st0" for k c
    using old(3) [OF that] keep [of c k] that(1) old(1) assms(4) by auto
  have down: "listed k (ss_head st0) st'" if "listed k (ss_head st) st'" for k
    using that old(1) by (force simp: listed_def)
  show "k \<in> K' \<and> session_row_of k st' \<noteq> None \<or> session_view k st' = session_view k st0 \<or> listed k (ss_head st0) st'" for k
    using tracks_view [OF assms(1), of k] view [of k] row [of k] keep [OF old(1), of k] down [of k] by metis
qed

lemma insert_stamped_tables:
  assumes "insert_stamped row st = Some (n, st')"
  shows "ss_sessions st' = ss_sessions st @ [row\<lparr>se_change_seq := n\<rparr>]" "n = Suc (ss_head st)"
    "ss_tombstones st' = filter (\<lambda>t. tb_session_id t \<noteq> se_id row) (ss_tombstones st)"
    "ss_head st' = Suc (ss_head st)" "ss_pruned_through st' = ss_pruned_through st"
    "ss_events st' = ss_events st" "ss_prompts st' = ss_prompts st" "ss_subagents st' = ss_subagents st"
    "ps_requests (ss_base st') = ps_requests (ss_base st)" "session_row_of (se_id row) st = None"
  using assms
  by (auto simp: insert_stamped_def next_change_seq_def insert_session_row_def on_base_def clear_session_tombstone_def
      session_row_of_def find_None_iff list_ex_iff split: if_splits)

lemma tracks_insert:
  assumes "tracks K st0 st" and ins: "insert_stamped row st = Some (n, st')"
  shows "tracks K st0 st'"
proof (rule tracks_later [OF assms(1)])
  note t = insert_stamped_tables [OF ins]
  have ok: "feed_ok st" using assms(1) by (simp add: tracks_def)
  have "\<forall>r \<in> set (ss_sessions st). se_id r \<noteq> se_id row" using t(10) by (auto simp: session_row_of_def find_None_iff)
  then show "feed_ok st'"
    using ok distinct_map_filter [of tb_session_id "ss_tombstones st" "\<lambda>t. tb_session_id t \<noteq> se_id row"]
      distinct_map_filter [of tb_change_seq "ss_tombstones st" "\<lambda>t. tb_session_id t \<noteq> se_id row"]
    unfolding feed_ok_tables t(1-5) by (auto dest: le_imp_less_Suc)
  show "ss_head st \<le> ss_head st'" "ss_pruned_through st' = ss_pruned_through st" using t by simp_all
  have new: "listed (se_id row) (ss_head st) st'" unfolding listed_tables t by simp
  have same: "session_row_of j st' = session_row_of j st" if "j \<noteq> se_id row" for j
    using that by (auto simp: session_row_of_def t(1) find_append split: option.split)
  show "session_view j st' = session_view j st \<or> listed j (ss_head st) st'" for j
    using new same [of j] by (cases "j = se_id row") (simp_all add: session_view_def view_tables t)
  show "j \<in> K \<and> session_row_of j st' \<noteq> None \<or> listed j (ss_head st) st'" if "j \<in> K" "session_row_of j st \<noteq> None" for j
    using that new same [of j] by (cases "j = se_id row") simp_all
  show "listed j c st'" if "c \<le> ss_head st" "listed j c st" for j c
    using that by (cases "j = se_id row") (auto simp: listed_tables t(1-3))
qed

lemma put_tombstone_set:
  "set (put_tombstone t ts) = insert t {u \<in> set ts. tb_session_id u \<noteq> tb_session_id t}"
  by (auto simp: put_tombstone_def set_update_rows list_ex_iff image_iff)

lemma put_tombstone_ids:
  "map tb_session_id (put_tombstone t ts) =
     (if tb_session_id t \<in> tb_session_id ` set ts then map tb_session_id ts else map tb_session_id ts @ [tb_session_id t])"
proof -
  have "list_ex (\<lambda>u. tb_session_id u = tb_session_id t) ts \<longleftrightarrow> tb_session_id t \<in> tb_session_id ` set ts"
    by (simp add: list_ex_iff image_iff) metis
  moreover have "map tb_session_id (update_rows (\<lambda>u. tb_session_id u = tb_session_id t) (\<lambda>_. t) ts) = map tb_session_id ts"
    by (simp add: update_rows_def)
  ultimately show ?thesis by (simp add: put_tombstone_def)
qed

lemma put_tombstone_seqs:
  assumes "distinct (map tb_session_id ts)" and "distinct (map tb_change_seq ts)" and "\<forall>u \<in> set ts. tb_change_seq u \<le> n"
    and "tb_change_seq t = Suc n"
  shows "distinct (map tb_change_seq (put_tombstone t ts))"
proof -
  have "map tb_change_seq (update_rows (\<lambda>u. tb_session_id u = tb_session_id t) (\<lambda>_. t) ts) =
    map (\<lambda>u. if tb_session_id u = tb_session_id t then Suc n else tb_change_seq u) ts"
    using assms(4) by (simp add: update_rows_def)
  then show ?thesis
    using distinct_restamp [OF assms(1-3), of "tb_session_id t"] assms(2-4) by (auto simp: put_tombstone_def)
qed

lemma delete_row_tables:
  assumes "delete_row now k st = Some st'"
  shows "ss_sessions st' = filter (\<lambda>r. se_id r \<noteq> k) (ss_sessions st)"
    "ss_tombstones st' = put_tombstone \<lparr>tb_session_id = k, tb_deleted_at = now, tb_change_seq = Suc (ss_head st)\<rparr> (ss_tombstones st)"
    "ss_head st' = Suc (ss_head st)" "ss_pruned_through st' = ss_pruned_through st"
    "ss_events st' = filter (\<lambda>e. le_session_id e \<noteq> Some k) (ss_events st)"
    "ss_prompts st' = filter (\<lambda>p. pm_session_id p \<noteq> k) (ss_prompts st)"
    "ss_subagents st' = filter (\<lambda>a. sa_session_id a \<noteq> k) (ss_subagents st)"
    "ps_requests (ss_base st') = ps_requests (ss_base st)"
  using assms by (auto simp: delete_row_def insert_session_tombstone_def next_change_seq_def on_base_def split: if_splits)

lemma find_filter_other: "(\<And>x. P x \<Longrightarrow> Q x) \<Longrightarrow> find P (filter Q xs) = find P xs"
  by (induction xs) auto

lemma tracks_delete:
  assumes "tracks (insert k K) st0 st" and del: "delete_row now k st = Some st'"
  shows "tracks K st0 st'"
proof (rule tracks_later [OF assms(1)])
  note t = delete_row_tables [OF del]
  have ok: "feed_ok st" using assms(1) by (simp add: tracks_def)
  show "ss_head st \<le> ss_head st'" "ss_pruned_through st' = ss_pruned_through st" using t by simp_all
  show "feed_ok st'"
  proof -
    let ?t = "\<lparr>tb_session_id = k, tb_deleted_at = now, tb_change_seq = Suc (ss_head st)\<rparr>"
    have "distinct (map tb_session_id (put_tombstone ?t (ss_tombstones st)))"
      using ok unfolding put_tombstone_ids by (auto simp: feed_ok_tables)
    moreover have "distinct (map tb_change_seq (put_tombstone ?t (ss_tombstones st)))"
      using ok by (intro put_tombstone_seqs [of _ "ss_head st"]) (auto simp: feed_ok_tables)
    moreover have "distinct (map se_id (filter (\<lambda>r. se_id r \<noteq> k) (ss_sessions st)))"
      "distinct (map se_change_seq (filter (\<lambda>r. se_id r \<noteq> k) (ss_sessions st)))"
      using ok by (auto simp: feed_ok_tables intro: distinct_map_filter)
    ultimately show ?thesis
      using ok unfolding feed_ok_tables t(1-4) put_tombstone_set by (auto dest: le_imp_less_Suc)
  qed
  have new: "listed k (ss_head st) st'" unfolding listed_tables t put_tombstone_set by simp
  have same: "session_row_of j st' = session_row_of j st" if "j \<noteq> k" for j
    using that by (auto simp: session_row_of_def t(1) intro!: find_filter_other)
  show "session_view j st' = session_view j st \<or> listed j (ss_head st) st'" for j
  proof (cases "j = k")
    case False
    have "session_prompts j st' = session_prompts j st" "session_events j st' = session_events j st"
      "subagent_on j st' = subagent_on j st" "acp_requests j st' = acp_requests j st"
      using False by (auto simp: view_tables t intro!: find_filter_other filter_cong)
    then show ?thesis using same [OF False] by (simp add: session_view_def)
  qed (use new in simp)
  show "j \<in> K \<and> session_row_of j st' \<noteq> None \<or> listed j (ss_head st) st'"
    if "j \<in> insert k K" "session_row_of j st \<noteq> None" for j
    using that new same [of j] by (cases "j = k") simp_all
  show "listed j c st'" if "c \<le> ss_head st" "listed j c st" for j c
    using that by (cases "j = k") (auto simp: listed_tables t(1,2) put_tombstone_set)
qed

lemma tracks_prune:
  assumes "feed_ok st"
  shows "tracks {} st (snd (prune_session_tombstones cutoff db st))"
proof -
  have le: "foldr max ns (m :: nat) \<le> h \<longleftrightarrow> m \<le> h \<and> (\<forall>n \<in> set ns. n \<le> h)" for ns m h
    by (induction ns) auto
  have less: "c < foldr max ns (m :: nat) \<longleftrightarrow> c < m \<or> (\<exists>n \<in> set ns. c < n)" for ns m c
    by (induction ns) auto
  have ge: "m \<le> foldr max ns (m :: nat)" for ns m by (induction ns) auto
  show ?thesis
  proof (cases "\<exists>before. cutoff = Inr before \<and> db")
    case True
    then obtain before where b: "cutoff = Inr before" db by blast
    let ?st = "snd (prune_session_tombstones cutoff db st)"
    have v: "session_view k ?st = session_view k st" for k
      using b by (simp add: prune_session_tombstones_def Let_def session_view_def session_row_of_def view_tables)
    have t: "ss_sessions ?st = ss_sessions st" "ss_tombstones ?st = filter (\<lambda>t. \<not> tb_deleted_at t < before) (ss_tombstones st)"
      "ss_head ?st = ss_head st" "ss_pruned_through ?st =
        foldr max (map tb_change_seq (filter (\<lambda>t. tb_deleted_at t < before) (ss_tombstones st))) (ss_pruned_through st)"
      using b by (simp_all add: prune_session_tombstones_def Let_def)
    have "feed_ok ?st"
      using assms distinct_map_filter [of tb_session_id "ss_tombstones st" "\<lambda>t. \<not> tb_deleted_at t < before"]
        distinct_map_filter [of tb_change_seq "ss_tombstones st" "\<lambda>t. \<not> tb_deleted_at t < before"]
      unfolding feed_ok_tables t le by auto
    moreover have gone: "session_row_of (tb_session_id u) st = None" if "u \<in> set (ss_tombstones st)" for u
      using assms that by (auto simp: feed_ok_tables session_row_of_def find_None_iff)
    then have "listed k c ?st \<or> session_row_of k st = None \<and> c < ss_pruned_through ?st" if "listed k c st" for k c
      using that unfolding t(4) less by (auto simp: listed_tables t(1,2))
    ultimately show ?thesis by (intro tracksI) (simp_all add: v t(3,4) ge)
  next
    case False
    then show ?thesis using tracks_refl [OF assms] by (auto simp: prune_session_tombstones_def split: sum.split)
  qed
qed

section \<open>Writes\<close>

lemma find_update_other_rows:
  assumes "\<And>x. x \<in> set xs \<Longrightarrow> p x \<Longrightarrow> \<not> q x" and "\<And>x. q (f x) = q x"
  shows "find q (update_rows p f xs) = find q xs"
  using assms(1) by (induction xs) (auto simp: update_rows_def assms(2))

lemma find_filter_kept: "(\<And>x. x \<in> set xs \<Longrightarrow> \<not> p x \<Longrightarrow> \<not> q x) \<Longrightarrow> find q (filter p xs) = find q xs"
  by (induction xs) auto

lemma set_sessions_tables [simp]:
  "ss_sessions (set_sessions p f st) = update_rows p f (ss_sessions st)"
  "ss_tombstones (set_sessions p f st) = ss_tombstones st" "ss_head (set_sessions p f st) = ss_head st"
  "ss_pruned_through (set_sessions p f st) = ss_pruned_through st" "ss_events (set_sessions p f st) = ss_events st"
  "ss_prompts (set_sessions p f st) = ss_prompts st" "ss_subagents (set_sessions p f st) = ss_subagents st"
  "ps_requests (ss_base (set_sessions p f st)) = ps_requests (ss_base st)"
  by (simp_all add: set_sessions_def on_base_def)

lemma tracks_set_sessions:
  assumes "tracks K st0 st" and "\<And>r. se_id (f r) = se_id r" and "\<And>r. se_change_seq (f r) = se_change_seq r"
    and "\<And>r. r \<in> set (ss_sessions st) \<Longrightarrow> p r \<Longrightarrow> se_id r \<in> K"
  shows "tracks K st0 (set_sessions p f st)"
proof (rule tracks_same [OF assms(1) feed_entries_cong])
  fix k assume "k \<notin> K"
  then have "session_row_of k (set_sessions p f st) = session_row_of k st"
    using assms(2,4) unfolding session_row_of_def set_sessions_tables by (intro find_update_other_rows) auto
  then show "session_view k (set_sessions p f st) = session_view k st"
    by (simp add: session_view_def view_tables)
qed (simp_all add: update_rows_def assms(2,3))

lemma filter_update_rows:
  assumes "\<And>x. x \<in> set xs \<Longrightarrow> p x \<Longrightarrow> \<not> q x" and "\<And>x. q (f x) = q x"
  shows "filter q (update_rows p f xs) = filter q xs"
  using assms(1) by (induction xs) (auto simp: update_rows_def assms(2))

lemma tracks_set_prompts:
  assumes "tracks K st0 st" and "\<And>q. pm_session_id (f q) = pm_session_id q"
    and "\<And>q. q \<in> set (ss_prompts st) \<Longrightarrow> p q \<Longrightarrow> pm_session_id q \<in> K"
  shows "tracks K st0 (set_prompts p f st)"
proof (rule tracks_tables [OF assms(1)])
  fix k assume "k \<notin> K"
  then have "session_prompts k (set_prompts p f st) = session_prompts k st"
    using assms(2,3) unfolding view_tables set_prompts_def by (auto intro!: filter_update_rows)
  then show "map (\<lambda>p. p\<lparr>pm_updated_at := []\<rparr>) (session_prompts k (set_prompts p f st)) =
    map (\<lambda>p. p\<lparr>pm_updated_at := []\<rparr>) (session_prompts k st)" by simp
qed (simp_all add: set_prompts_def view_tables)

lemma tracks_touch: "tracks K st0 st \<Longrightarrow> tracks K st0 (touch_prompt now target st)"
proof (erule tracks_tables)
  have "map (\<lambda>p. p\<lparr>pm_updated_at := []\<rparr>) (filter (\<lambda>p. pm_session_id p = k)
      (update_rows q (\<lambda>p. p\<lparr>pm_updated_at := now\<rparr>) ps)) =
    map (\<lambda>p. p\<lparr>pm_updated_at := []\<rparr>) (filter (\<lambda>p. pm_session_id p = k) ps)" for k q ps
    by (induction ps) (auto simp: update_rows_def)
  then show "map (\<lambda>p. p\<lparr>pm_updated_at := []\<rparr>) (session_prompts k (touch_prompt now target st)) =
    map (\<lambda>p. p\<lparr>pm_updated_at := []\<rparr>) (session_prompts k st)" for k
    by (simp add: touch_prompt_def view_tables)
qed (simp_all add: touch_prompt_def view_tables)

lemma tracks_add_prompt:
  "tracks K st0 st \<Longrightarrow> pm_session_id p \<in> K \<Longrightarrow> tracks K st0 (st\<lparr>ss_prompts := ss_prompts st @ [p]\<rparr>)"
  by (erule tracks_tables) (auto simp: view_tables)

lemma tracks_add_event:
  "tracks K st0 st \<Longrightarrow> (\<And>k. le_session_id e = Some k \<Longrightarrow> k \<in> K) \<Longrightarrow>
   tracks K st0 (st\<lparr>ss_events := ss_events st @ [e]\<rparr>)"
  by (erule tracks_tables) (auto simp: view_tables)

lemma tracks_event_row:
  "insert_session_event_row k e st = Some (n, st') \<Longrightarrow> tracks K st0 st \<Longrightarrow> k \<in> K \<Longrightarrow> tracks K st0 st'"
  by (auto simp: insert_session_event_row_def Let_def split: if_splits intro!: tracks_add_event)

lemma tracks_unscoped:
  "insert_unscoped_event_row e st = Some st' \<Longrightarrow> tracks K st0 st \<Longrightarrow> tracks K st0 st'"
  by (auto simp: insert_unscoped_event_row_def split: if_splits intro!: tracks_add_event)

lemma tracks_set_subagents:
  assumes "tracks K st0 st" and "\<And>a. sa_session_id (f a) = sa_session_id a"
    and "\<And>a. a \<in> set (ss_subagents st) \<Longrightarrow> p a \<Longrightarrow> sa_session_id a \<in> K"
  shows "tracks K st0 (set_subagents p f st)"
proof (rule tracks_tables [OF assms(1)])
  show "subagent_on k (set_subagents p f st) = subagent_on k st" if "k \<notin> K" for k
    using that assms(2,3) by (auto simp: view_tables set_subagents_def intro!: find_update_other_rows)
qed (simp_all add: set_subagents_def view_tables)

lemma tracks_add_subagent:
  "tracks K st0 st \<Longrightarrow> sa_session_id a \<in> K \<Longrightarrow> tracks K st0 (st\<lparr>ss_subagents := ss_subagents st @ [a]\<rparr>)"
  by (erule tracks_tables) (auto simp: view_tables find_append split: option.split)

lemma tracks_drop_subagents:
  assumes "tracks K st0 st" and "\<And>a. a \<in> set (ss_subagents st) \<Longrightarrow> \<not> p a \<Longrightarrow> sa_session_id a \<in> K"
  shows "tracks K st0 (st\<lparr>ss_subagents := filter p (ss_subagents st)\<rparr>)"
proof (rule tracks_tables [OF assms(1)])
  show "subagent_on k (st\<lparr>ss_subagents := filter p (ss_subagents st)\<rparr>) = subagent_on k st" if "k \<notin> K" for k
    using that assms(2) by (auto simp: view_tables intro!: find_filter_kept)
qed (simp_all add: view_tables)

lemma tracks_weaken: "tracks K st0 st \<Longrightarrow> K \<subseteq> L \<Longrightarrow> tracks L st0 st"
  unfolding tracks_def advances_def by blast

lemmas tracks_rules = tracks_log tracks_bump tracks_bumps tracks_set_sessions tracks_set_prompts tracks_touch
  tracks_add_prompt tracks_set_subagents tracks_add_subagent tracks_refl

section \<open>Operations on sessions and events\<close>

lemma tracks_append_event:
  "feed_ok st \<Longrightarrow>
   tracks {} st (snd (append_session_event_with_source json_valid db key now k level kind source message payload st))"
  by (auto simp: append_session_event_with_source_def Let_def split: option.split
      intro!: tracks_rules intro: tracks_event_row)

lemma tracks_update_row:
  assumes "insert_session_update_row k e st = Some (n, st')" and "tracks (insert k K) st0 st"
  shows "tracks K st0 st'"
  using assms by (auto simp: insert_session_update_row_def Let_def split: option.splits
      intro!: tracks_rules intro: tracks_event_row)

lemma tracks_append_update:
  "feed_ok st \<Longrightarrow> tracks {} st (snd (append_session_update is_json db key now k kind payload st))"
  by (auto simp: append_session_update_def split: option.splits sum.split intro: tracks_refl tracks_update_row)

lemma tracks_insert_session:
  "feed_ok st \<Longrightarrow> tracks {} st (snd (insert_session_for_target json_valid db now target_id agent_session_id input st))"
  by (auto simp: insert_session_for_target_def Let_def split: option.split intro!: tracks_rules intro: tracks_insert)

lemma tracks_update_session:
  "feed_ok st \<Longrightarrow> (\<And>r. se_id (f r) = se_id r) \<Longrightarrow> (\<And>r. se_change_seq (f r) = se_change_seq r) \<Longrightarrow>
   tracks {} st (snd (update_session db k now f st))"
  by (auto simp: update_session_def intro!: tracks_rules)

lemma tracks_session_updates:
  assumes "feed_ok st"
  shows "tracks {} st (snd (update_session_status db now k status st))"
    "tracks {} st (snd (update_session_status_and_cwd db now k status cwd st))"
    "tracks {} st (snd (update_session_info jo db now k title agent_updated_at agent_meta st))"
  using assms by (auto simp: update_session_status_def update_session_status_and_cwd_def update_session_info_def Let_def
      split: option.split sum.split intro!: tracks_update_session intro: tracks_refl)

lemma tracks_replace_metadata:
  assumes "feed_ok st"
  shows "tracks {} st (snd (replace_metadata jo db now k key stamp_key v st))"
proof -
  have "tracks {} st (snd (update_session db k now (\<lambda>r. r\<lparr>se_metadata_json := m, se_updated_at := now\<rparr>) st))" for m
    using assms by (intro tracks_update_session) simp_all
  then show ?thesis
    using tracks_refl [OF assms]
    by (auto simp: replace_metadata_def Let_def split: option.split sum.split prod.split) (metis snd_conv)+
qed

lemma tracks_write_listed:
  assumes "write_listed w st = Some st'" and "tracks K st0 st"
  shows "tracks K st0 st'"
proof (cases w)
  case (ListedInsert row)
  then show ?thesis using assms by (auto simp: write_listed_def intro!: tracks_log intro: tracks_insert)
next
  case (ListedUpdate row)
  then show ?thesis
    using assms by (auto simp: write_listed_def intro!: tracks_rules intro: tracks_weaken)
qed

lemma tracks_write_all: "write_all_listed ws st = Some st' \<Longrightarrow> tracks K st0 st \<Longrightarrow> tracks K st0 st'"
  by (induction ws arbitrary: st) (auto split: option.splits dest: tracks_write_listed)

lemma tracks_commit_listed: "feed_ok st \<Longrightarrow> tracks {} st (snd (commit_listed db e ws st))"
  by (auto simp: commit_listed_def split: option.split intro!: tracks_log
      intro: tracks_refl dest: tracks_write_all tracks_unscoped)

lemma tracks_rename: "feed_ok st \<Longrightarrow> tracks {} st (snd (rename_session_target_id db now old new st))"
  by (auto simp: rename_session_target_id_def Let_def intro!: tracks_rules)

lemma tracks_delete_rows:
  "delete_rows now ks st = Some st' \<Longrightarrow> tracks (set ks \<union> K) st0 st \<Longrightarrow> tracks K st0 st'"
proof (induction ks arbitrary: st)
  case (Cons k ks)
  then show ?case by (auto split: option.splits dest: tracks_delete)
qed simp

lemma tracks_delete_session: "feed_ok st \<Longrightarrow> tracks {} st (snd (delete_session db now k st))"
  by (auto simp: delete_session_def Let_def subagent_ids_of_root_def split: option.split
      intro!: tracks_rules tracks_drop_subagents elim!: tracks_delete_rows)

lemma tracks_reconcile_sessions: "feed_ok st \<Longrightarrow> tracks {} st (snd (reconcile_orphaned_sessions db now target_id st))"
  by (auto simp: reconcile_orphaned_sessions_def demote_def withdraw_def Let_def
      intro!: tracks_rules)

lemma tracks_idle: "feed_ok st \<Longrightarrow> tracks {} st (snd (mark_idle_sessions cutoff db now st))"
  by (auto simp: mark_idle_sessions_def demote_def split: sum.split intro!: tracks_rules)

end
