(* ===== verification/Feed_Operations.thy ===== *)
theory Feed_Operations
  imports Feed_Tracking
begin

text \<open>
  Every operation of the store advances the change feed: subagents and forks, prompts, and permission
  requests.
\<close>

section \<open>Subagents and forks\<close>

lemma tracks_drop:
  assumes "tracks (insert k K) st0 st" and "listed k (ss_head st0) st"
  shows "tracks K st0 st"
proof (rule tracksI)
  show "j \<in> K \<and> session_row_of j st \<noteq> None \<or> session_view j st = session_view j st0 \<or> listed j (ss_head st0) st" for j
    using tracks_view [OF assms(1), of j] assms(2) by blast
qed (use assms(1) in \<open>simp_all add: tracks_def advances_def\<close>)

lemma listed_cong:
  "map (\<lambda>r. (se_id r, se_change_seq r)) (ss_sessions st') = map (\<lambda>r. (se_id r, se_change_seq r)) (ss_sessions st) \<Longrightarrow>
   ss_tombstones st' = ss_tombstones st \<Longrightarrow> listed k c st' = listed k c st"
  using feed_entries_cong [of st' st] by (simp add: listed_def)

lemma listed_bump_keeps: "listed j c st \<Longrightarrow> c \<le> ss_head st \<Longrightarrow> listed j c (bump_change k st)"
  by (subst listed_bump) (auto simp: listed_tables [of _ _ st])

lemma listed_bump_new: "session_row_of k st \<noteq> None \<Longrightarrow> c \<le> ss_head st \<Longrightarrow> listed k c (bump_change k st)"
  unfolding row_in by (subst listed_bump) auto

lemma listed_insert:
  assumes "insert_stamped row st = Some (n, st')" and "c \<le> ss_head st"
  shows "listed (se_id row) c st'" and "listed j c st \<Longrightarrow> listed j c st'"
proof -
  note t = insert_stamped_tables [OF assms(1)]
  show new: "listed (se_id row) c st'" using assms(2) unfolding listed_tables t by simp
  show "listed j c st'" if "listed j c st"
    using that new by (cases "j = se_id row") (auto simp: listed_tables t(1,3))
qed

lemma listed_set_sessions:
  "(\<And>r. se_id (f r) = se_id r) \<Longrightarrow> (\<And>r. se_change_seq (f r) = se_change_seq r) \<Longrightarrow>
   listed k c (set_sessions p f st) = listed k c st"
  by (rule listed_cong) (auto simp: update_rows_def)

lemma head_bump: "ss_head st \<le> ss_head (bump_change k st)"
  by (simp add: bump_change_rows)

lemma session_by_agent_id_row:
  "session_by_agent_id t a st = Some r \<Longrightarrow> session_row_of (se_id r) st \<noteq> None"
  unfolding row_in by (auto simp: session_by_agent_id_def find_Some_iff)

lemma resolve_child_found:
  assumes "resolve_child key now parent root agent_id st = ChildFound child stored st1"
  obtains (created) n where "stored = None" "child = key"
      "insert_stamped (child_row key now agent_id parent) st = Some (n, st1)"
    | (known) r s where "session_by_agent_id (se_target_id parent) agent_id st = Some r" "child = se_id r"
      "stored = Some s" "subagent_on child st = Some s" "sa_parent_session_id s = se_id parent" "st1 = st"
    | (adopted) r where "session_by_agent_id (se_target_id parent) agent_id st = Some r" "child = se_id r"
      "stored = None" "subagent_on child st = None" "child \<noteq> se_id parent" "child \<noteq> root"
      "\<forall>p \<in> set (ss_prompts st). pm_session_id p \<noteq> child" "\<forall>a \<in> set (ss_subagents st). sa_parent_session_id a \<noteq> child"
      "st1 = bump_change child st"
proof (cases "session_by_agent_id (se_target_id parent) agent_id st")
  case None
  then show thesis using assms created by (auto simp: resolve_child_def split: option.splits)
next
  case (Some r)
  note row = Some
  show thesis
  proof (cases "subagent_on (se_id r) st")
    case None
    then show thesis using assms row adopted [OF row] by (auto simp: resolve_child_def list_ex_iff split: if_splits)
  next
    case (Some s)
    then show thesis using assms row known [OF row, of s] by (simp add: resolve_child_def split: if_splits)
  qed
qed

text \<open>The child a patch finds is stamped in this transaction, unless the patch is an update.\<close>

lemma resolve_child_tracks:
  assumes "resolve_child key now parent root agent_id st = ChildFound child stored st1"
    and "tracks K st0 st"
  shows "tracks K st0 st1" and "stored = None \<Longrightarrow> listed child (ss_head st0) st1"
    and "listed j (ss_head st0) st \<Longrightarrow> listed j (ss_head st0) st1"
proof -
  have h: "ss_head st0 \<le> ss_head st" using assms(2) by (simp add: tracks_def advances_def)
  have "tracks K st0 st1 \<and> (stored = None \<longrightarrow> listed child (ss_head st0) st1) \<and>
    (listed j (ss_head st0) st \<longrightarrow> listed j (ss_head st0) st1)"
    using assms(1)
  proof (cases rule: resolve_child_found)
    case (created n)
    then show ?thesis
      using listed_insert [OF created(3) h] tracks_insert [OF assms(2) created(3)] by (simp add: child_row_def)
  next
    case (known r s)
    then show ?thesis using assms(2) by simp
  next
    case (adopted r)
    then show ?thesis
      using session_by_agent_id_row [OF adopted(1)] h assms(2)
      by (auto intro!: tracks_bump listed_bump_keeps listed_bump_new intro: tracks_weaken)
  qed
  then show "tracks K st0 st1" "stored = None \<Longrightarrow> listed child (ss_head st0) st1"
    "listed j (ss_head st0) st \<Longrightarrow> listed j (ss_head st0) st1" by auto
qed

lemma patched_row_keys [simp]:
  "sa_session_id (patched_row now historical patch stored a) = sa_session_id a"
  "sa_parent_session_id (patched_row now historical patch stored a) = sa_parent_session_id a"
  "sa_root_session_id (patched_row now historical patch stored a) = sa_root_session_id a"
  by (simp_all add: patched_row_def Let_def)

lemma apply_patch_cases:
  assumes "apply_subagent_patch key now parent_id patch roots st = Ok (applied, st')"
  obtains (rejected) reason where "applied = Rejected reason" "st' = st"
    | (updated) parent child s st1 st2 historical where "session_row_of parent_id st = Some parent" "se_id parent = parent_id"
      "resolve_child key now parent (root_of parent_id st) (sp_agent_session_id patch) st = ChildFound child (Some s) st1"
      "st2 = (if historical then st1 else set_sessions (\<lambda>r. se_id r = child) (\<lambda>r. r\<lparr>se_updated_at := now\<rparr>) st1)"
      "applied = Updated child historical"
      "st' = bump_change child (set_subagents (\<lambda>a. sa_session_id a = child) (patched_row now historical patch (Some s)) st2)"
    | (announced) parent child st1 st2 historical where "session_row_of parent_id st = Some parent" "se_id parent = parent_id"
      "resolve_child key now parent (root_of parent_id st) (sp_agent_session_id patch) st = ChildFound child None st1"
      "st2 = (if historical then st1 else set_sessions (\<lambda>r. se_id r = child) (\<lambda>r. r\<lparr>se_updated_at := now\<rparr>) st1)"
      "applied = Announced child (root_of parent_id st) historical"
      "st' = st2\<lparr>ss_subagents := ss_subagents st2 @
         [patched_row now historical patch None (announced_row now child parent_id (root_of parent_id st))]\<rparr>"
proof (cases "session_row_of parent_id st")
  case None
  then show thesis using assms by (simp add: apply_subagent_patch_def)
next
  case (Some parent)
  then have key: "se_id parent = parent_id" by (auto simp: session_row_of_def find_Some_iff)
  let ?h = "root_of parent_id st \<in> set roots"
  show thesis
  proof (cases "resolve_child key now parent (root_of parent_id st) (sp_agent_session_id patch) st")
    case (ChildFound child stored st1)
    then show thesis
      using assms Some key updated [OF Some key, of child _ st1 _ ?h] announced [OF Some key, of child st1 _ ?h]
      by (cases stored) (simp_all add: apply_subagent_patch_def Let_def)
  next
    case ChildFails
    then show thesis using assms Some key by (simp add: apply_subagent_patch_def Let_def)
  next
    case (ChildRejected reason)
    then show thesis using assms Some key rejected [of reason] by (simp add: apply_subagent_patch_def Let_def)
  qed
qed

lemma tracks_apply_patch:
  assumes "apply_subagent_patch key now parent_id patch roots st = Ok (applied, st')" and "tracks K st0 st"
  shows "tracks K st0 st'" and "listed j (ss_head st0) st \<Longrightarrow> listed j (ss_head st0) st'"
proof -
  have child: "tracks (insert child K) st0 st2" "listed i (ss_head st0) st2 \<longleftrightarrow> listed i (ss_head st0) st1"
    if "tracks K st0 st1"
      "st2 = (if historical then st1 else set_sessions (\<lambda>r. se_id r = child) (\<lambda>r. r\<lparr>se_updated_at := now\<rparr>) st1)"
    for st1 st2 historical child i
    using that tracks_weaken [OF that(1), of "insert child K"] by (auto simp: listed_set_sessions intro!: tracks_set_sessions)
  have "tracks K st0 st' \<and> (listed j (ss_head st0) st \<longrightarrow> listed j (ss_head st0) st')"
    using assms(1)
  proof (cases rule: apply_patch_cases)
    case (rejected reason)
    then show ?thesis using assms(2) by simp
  next
    case (updated parent child s st1 st2 historical)
    note r = resolve_child_tracks [OF updated(3) assms(2)]
    note c = child [OF r(1) updated(4)]
    have "listed j (ss_head st0) (set_subagents q f st2) = listed j (ss_head st0) st2" "ss_head (set_subagents q f st2) = ss_head st2" for q f
      by (simp_all add: set_subagents_def listed_tables)
    moreover have "ss_head st0 \<le> ss_head st2" using c(1) by (simp add: tracks_def advances_def)
    ultimately show ?thesis
      using c r(3) by (auto simp: updated(6) intro!: tracks_bump tracks_set_subagents listed_bump_keeps)
  next
    case (announced parent child st1 st2 historical)
    note r = resolve_child_tracks [OF announced(3) assms(2)]
    note c = child [OF r(1) announced(4)]
    have l: "listed i (ss_head st0) st' = listed i (ss_head st0) st2" for i by (simp add: announced(6) listed_tables)
    have "tracks (insert child K) st0 st'"
      unfolding announced(6) by (rule tracks_add_subagent [OF c(1)]) (simp add: announced_row_def)
    then show ?thesis using l c(2) r(2,3) by (auto intro: tracks_drop)
  qed
  then show "tracks K st0 st'" "listed j (ss_head st0) st \<Longrightarrow> listed j (ss_head st0) st'" by auto
qed

lemma update_row_listed:
  assumes "insert_session_update_row k e st = Some (n, st')" and "session_row_of k st' \<noteq> None" and "c \<le> ss_head st"
  shows "listed k c st'"
proof -
  obtain st1 where st1: "insert_session_event_row k e st = Some (n, st1)"
    using assms(1) by (auto simp: insert_session_update_row_def Let_def split: option.splits)
  have same: "ss_sessions st' = ss_sessions (bump_change k st1)" "ss_tombstones st' = ss_tombstones (bump_change k st1)"
    using assms(1) st1 by (auto simp: insert_session_update_row_def Let_def touch_prompt_def split: option.splits)
  have "ss_sessions st1 = ss_sessions st" "ss_head st1 = ss_head st"
    using st1 by (auto simp: insert_session_event_row_def Let_def split: if_splits)
  moreover have "session_row_of k (bump_change k st1) \<noteq> None" using assms(2) same by (simp add: session_row_of_def)
  ultimately have "listed k c (bump_change k st1)" using assms(3) row_bump listed_bump_new by metis
  then show ?thesis using same by (simp add: listed_tables)
qed

lemma subagent_update_cases:
  assumes "record_subagent_update is_json announced_payload db update_key updated_at child_key now
      announced_key announced_at k payload patch roots st = (res, st')"
  obtains (failed) err where "res = Err err" "st' = st"
    | (announced) e n st1 child root historical st2 ev m st3 where
      "insert_session_update_row k e st = Some (n, st1)"
      "apply_subagent_patch child_key now k patch roots st1 = Ok (Announced child root historical, st2)"
      "insert_session_event_row k ev st2 = Some (m, st3)"
      "st' = log_change (lit ''events'') announced_key announced_at (log_change (lit ''sessions'') child announced_at st3)"
    | (other) e n st1 applied st2 where
      "insert_session_update_row k e st = Some (n, st1)"
      "apply_subagent_patch child_key now k patch roots st1 = Ok (applied, st2)"
      "st' = st2 \<or> (\<exists>t i at_time. st' = log_change t i at_time st2)"
proof (cases "session_update_event is_json update_key updated_at k (lit ''session.update'') payload")
  case (Inl err)
  then show thesis using assms failed by (auto simp: record_subagent_update_def)
next
  case (Inr e)
  note e = Inr
  show thesis
  proof (cases "if db then insert_session_update_row k e st else None")
    case None
    then show thesis using assms e failed by (auto simp: record_subagent_update_def)
  next
    case (Some p)
    then obtain n st1 where p: "(if db then insert_session_update_row k e st else None) = Some (n, st1)"
      and st1: "insert_session_update_row k e st = Some (n, st1)" by (cases p) (auto split: if_splits)
    show thesis
    proof (cases "apply_subagent_patch child_key now k patch roots st1")
      case (Inl err)
      then show thesis using assms e p failed by (auto simp: record_subagent_update_def)
    next
      case (Inr a)
      obtain applied st2 where a: "a = (applied, st2)" by (cases a)
      show thesis
      proof (cases applied)
        case (Announced child root h)
        then show thesis
          using assms e p Inr a failed announced [OF st1, of child root h st2]
          by (auto simp: record_subagent_update_def split: option.splits)
      next
        case (Updated child h)
        then show thesis
          using assms e p Inr a other [OF st1, of applied st2]
          by (auto simp: record_subagent_update_def split: if_splits)
      next
        case (Rejected reason)
        then show thesis
          using assms e p Inr a other [OF st1, of applied st2] by (auto simp: record_subagent_update_def)
      qed
    qed
  qed
qed

lemma tracks_record_subagent:
  assumes "feed_ok st"
  shows "tracks {} st (snd (record_subagent_update is_json announced_payload db update_key updated_at child_key now
      announced_key announced_at k payload patch roots st))"
proof (cases "record_subagent_update is_json announced_payload db update_key updated_at child_key now
      announced_key announced_at k payload patch roots st")
  case (Pair res st')
  note row = tracks_update_row [OF _ tracks_refl [OF assms]]
  from Pair show ?thesis
  proof (cases rule: subagent_update_cases)
    case (failed err)
    then show ?thesis using Pair tracks_refl [OF assms] by simp
  next
    case (other e n st1 applied st2)
    then show ?thesis using Pair tracks_apply_patch(1) [OF other(2) row [OF other(1)]] tracks_log by auto
  next
    case (announced e n st1 child root historical st2 ev m st3)
    have "session_row_of k st1 \<noteq> None" using announced(2) by (auto simp: apply_subagent_patch_def split: option.splits)
    then have "listed k (ss_head st) st1" using update_row_listed [OF announced(1)] by blast
    note t2 = tracks_apply_patch [OF announced(2) row [OF announced(1)]] and l2 = tracks_apply_patch(2) [OF announced(2) row [OF announced(1)] this]
    have "listed k (ss_head st) st3 = listed k (ss_head st) st2"
      using announced(3) by (auto simp: insert_session_event_row_def Let_def listed_tables split: if_splits)
    moreover have "tracks {k} st st3" by (rule tracks_event_row [OF announced(3) t2(1)]) simp
    ultimately have "tracks {} st st3" using l2 tracks_drop by simp
    then show ?thesis using Pair tracks_log by (simp add: announced(4))
  qed
qed

lemma tracks_withdraw:
  "withdraw p st = (ks, st') \<Longrightarrow> tracks K st0 st \<Longrightarrow> set ks \<subseteq> K \<Longrightarrow> tracks K st0 st'"
  by (auto simp: withdraw_def Let_def intro!: tracks_set_subagents)

lemma tracks_withdraw_tree: "withdraw_subagent_tree k st = (ks, st') \<Longrightarrow> tracks {} st0 st \<Longrightarrow> tracks {} st0 st'"
  by (auto simp: withdraw_subagent_tree_def split: prod.splits intro!: tracks_bumps
      intro: tracks_withdraw tracks_weaken)

lemma tracks_subagent_sweeps:
  assumes "feed_ok st"
  shows "tracks {} st (snd (withdraw_subagent_state db now k st))"
    "tracks {} st (snd (close_subagent_sessions db now k st))"
proof -
  show "tracks {} st (snd (withdraw_subagent_state db now k st))"
    using tracks_withdraw_tree [of k st _ _ st] tracks_refl [OF assms]
    by (auto simp: withdraw_subagent_state_def split: prod.split intro!: tracks_log)
  have "tracks {} st (snd (withdraw_subagent_tree k st))"
    using tracks_withdraw_tree [of k st _ _ st] tracks_refl [OF assms] by (metis prod.collapse)
  then show "tracks {} st (snd (close_subagent_sessions db now k st))"
    using tracks_refl [OF assms]
    by (auto simp: close_subagent_sessions_def Let_def intro!: tracks_rules intro: tracks_weaken)
qed

lemma tracks_copy_prompts:
  "copy_prompts next_id n child ps st = Some st' \<Longrightarrow> tracks K st0 st \<Longrightarrow> child \<in> K \<Longrightarrow> tracks K st0 st'"
proof (induction ps arbitrary: n st)
  case (Cons p ps)
  from Cons.prems(1) have "copy_prompts next_id (Suc n) child ps
      (st\<lparr>ss_prompts := ss_prompts st @ [p\<lparr>pm_id := next_id n, pm_session_id := child\<rparr>]\<rparr>) = Some st'"
    by (simp split: if_splits)
  then show ?case by (rule Cons.IH) (use Cons.prems in \<open>simp_all add: tracks_add_prompt\<close>)
qed simp

lemma tracks_copy_events:
  "copy_events next_id n child es st = Some st' \<Longrightarrow> tracks K st0 st \<Longrightarrow> child \<in> K \<Longrightarrow> tracks K st0 st'"
proof (induction es arbitrary: n st)
  case (Cons e es)
  from Cons.prems(1) have "copy_events next_id (Suc n) child es
      (st\<lparr>ss_events := ss_events st @ [e\<lparr>le_id := next_id n, le_session_id := Some child, le_seq := Some n\<rparr>]\<rparr>) = Some st'"
    by (simp split: if_splits)
  then show ?case by (rule Cons.IH) (use Cons.prems(2,3) in \<open>auto intro!: tracks_add_event\<close>)
qed simp

lemma copy_prompts_tables:
  "copy_prompts next_id n child ps st = Some st' \<Longrightarrow> ss_base st' = ss_base st \<and> ss_tombstones st' = ss_tombstones st \<and>
     ss_events st' = ss_events st \<and> ss_subagents st' = ss_subagents st"
  by (induction ps arbitrary: n st) (fastforce split: if_splits)+

lemma copy_events_tables:
  "copy_events next_id n child es st = Some st' \<Longrightarrow> ss_base st' = ss_base st \<and> ss_tombstones st' = ss_tombstones st \<and>
     ss_prompts st' = ss_prompts st \<and> ss_subagents st' = ss_subagents st"
  by (induction es arbitrary: n st) (fastforce split: if_splits)+

lemma tracks_log_copies: "tracks K st0 st \<Longrightarrow> tracks K st0 (log_copies t next_id n stamps st)"
  by (induction stamps arbitrary: n st) (simp_all add: tracks_log)

lemma tracks_fork:
  assumes "feed_ok st"
  shows "tracks {} st (snd (insert_forked_session json_valid update_tag db next_prompt next_event now target_id
    agent_session_id input parent held_through st))"
proof -
  let ?row = "new_active_session_row now target_id agent_session_id input"
  have main: "tracks {} st st3"
    if ins: "insert_stamped ?row st = Some (n, st1)" and ps: "copy_prompts next_prompt 0 (se_id ?row) ps st1 = Some st2"
      and es: "copy_events next_event m (se_id ?row) es st2 = Some st3" for n st1 ps st2 m es st3
  proof (rule tracks_drop [where k = "se_id ?row"])
    have "tracks {se_id ?row} st st1" using tracks_insert [OF tracks_refl [OF assms] ins] .
    then show "tracks {se_id ?row} st st3" using tracks_copy_prompts [OF ps] tracks_copy_events [OF es] by simp
    have "listed (se_id ?row) (ss_head st) st1" using listed_insert(1) [OF ins] by simp
    then show "listed (se_id ?row) (ss_head st) st3"
      using copy_prompts_tables [OF ps] copy_events_tables [OF es] by (simp add: listed_tables)
  qed
  show ?thesis
    using tracks_refl [OF assms]
    by (auto simp: insert_forked_session_def Let_def split: option.split intro!: tracks_log_copies tracks_log
        elim: main main [where es = "[]", simplified])
qed

section \<open>Prompts\<close>

definition prompts_ok :: "sstore \<Rightarrow> bool" where
  "prompts_ok st \<longleftrightarrow> distinct (map pm_id (ss_prompts st))"

lemma prompts_unique:
  "prompts_ok st \<Longrightarrow> p \<in> set (ss_prompts st) \<Longrightarrow> q \<in> set (ss_prompts st) \<Longrightarrow> pm_id p = pm_id q \<Longrightarrow> p = q"
  by (auto simp: prompts_ok_def distinct_map inj_on_def)

lemma get_prompt_unique: "prompts_ok st \<Longrightarrow> get_prompt (pm_id p) st = Some p \<longleftrightarrow> p \<in> set (ss_prompts st)"
proof -
  have "distinct (map pm_id ps) \<Longrightarrow> find (\<lambda>q. pm_id q = pm_id p) ps = Some p \<longleftrightarrow> p \<in> set ps" for ps
    by (induction ps) auto
  then show "prompts_ok st \<Longrightarrow> get_prompt (pm_id p) st = Some p \<longleftrightarrow> p \<in> set (ss_prompts st)"
    by (simp add: prompts_ok_def get_prompt_def)
qed

lemma get_prompt_Some: "get_prompt k st = Some p \<Longrightarrow> p \<in> set (ss_prompts st) \<and> pm_id p = k"
  by (auto simp: get_prompt_def find_Some_iff)

lemma get_prompt_set:
  "(\<And>p. pm_id (f p) = pm_id p) \<Longrightarrow>
   get_prompt k (set_prompts q f st) = map_option (\<lambda>p. if q p then f p else p) (get_prompt k st)"
  by (simp add: get_prompt_def set_prompts_def update_rows_def find_map_same)

text \<open>An update of one row, followed by the stamp of its session.\<close>

lemma tracks_one_prompt:
  assumes "feed_ok st" and "prompts_ok st" and "\<And>p. pm_id (f p) = pm_id p" and "\<And>p. pm_session_id (f p) = pm_session_id p"
    and "\<And>p. q p \<Longrightarrow> pm_id p = k"
  shows "tracks {} st (bump_prompt_session_change k (set_prompts q f st))"
proof (cases "get_prompt k st")
  case None
  then have "\<And>p. p \<in> set (ss_prompts st) \<Longrightarrow> \<not> q p"
    using assms(5) by (auto simp: get_prompt_def find_None_iff)
  then have "set_prompts q f st = st" by (simp add: set_prompts_def update_rows_def map_idI)
  then show ?thesis using None tracks_refl [OF assms(1)] by (simp add: bump_prompt_session_change_def)
next
  case (Some p)
  then have "pm_session_id r = pm_session_id p" if "r \<in> set (ss_prompts st)" "q r" for r
    using that assms(2,5) get_prompt_Some [OF Some] prompts_unique by metis
  then show ?thesis
    using Some assms get_prompt_set [OF assms(3), of k q st]
    by (auto simp: bump_prompt_session_change_def intro!: tracks_bump tracks_set_prompts tracks_refl)
qed

lemma tracks_insert_prompt:
  "feed_ok st \<Longrightarrow> tracks {} st (snd (insert_prompt_with_message_id json_valid db now k session_id prompt_json message_id st))"
  by (auto simp: insert_prompt_with_message_id_def Let_def new_prompt_def intro!: tracks_rules)

lemma tracks_prompt_updates:
  assumes "feed_ok st" and "prompts_ok st"
  shows "tracks {} st (snd (acknowledge_prompt_message_id db now k message_id st))"
    "tracks {} st (snd (record_prompt_agent_message_id db now k agent_message_id st))"
    "tracks {} st (snd (update_prompt_status db now k status stop_reason error_code error_message failure_class detail st))"
    "tracks {} st (snd (settle_prompt db now k settlement replace_stalled st))"
  using assms tracks_refl [OF assms(1)]
  by (auto simp: acknowledge_prompt_message_id_def record_prompt_agent_message_id_def update_prompt_def
      update_prompt_status_def settle_prompt_def settled_row_def Let_def split: option.split sum.split
      intro!: tracks_log tracks_one_prompt)

lemma tracks_report_orphans:
  "report_orphans outcome_payload next_id n now rows st = Some st' \<Longrightarrow> tracks (snd ` set rows \<union> K) st0 st \<Longrightarrow> tracks K st0 st'"
proof (induction rows arbitrary: n st)
  case (Cons row rows)
  obtain k s where row: "row = (k, s)" by (cases row)
  from Cons.prems(1) row obtain m st1
    where st1: "insert_session_event_row s (orphan_event outcome_payload (next_id n) now k s) st = Some (m, st1)"
      and rest: "report_orphans outcome_payload next_id (Suc n) now rows
        (log_change (lit ''events'') (next_id n) now (log_change (lit ''prompts'') k now (bump_change s st1))) = Some st'"
    by (auto split: option.splits)
  have "tracks (insert s (snd ` set rows \<union> K)) st0 st1"
    using tracks_event_row [OF st1 Cons.prems(2)] row by simp
  then show ?case by (intro Cons.IH [OF rest] tracks_log tracks_bump)
qed simp

lemma tracks_reconcile_prompts:
  "feed_ok st \<Longrightarrow> tracks {} st (snd (reconcile_orphaned_prompts outcome_payload db next_id now reason st))"
  by (auto simp: reconcile_orphaned_prompts_def Let_def orphaned_prompt_def image_image split: option.split if_splits
      intro!: tracks_refl tracks_set_prompts elim!: tracks_report_orphans)

lemma tracks_stall_prompts:
  "feed_ok st \<Longrightarrow> tracks {} st0 st \<Longrightarrow> prompts_ok st \<Longrightarrow>
   (\<And>s p. s \<in> set stuck \<Longrightarrow> p \<in> set (ss_prompts st) \<Longrightarrow> pm_id p = sk_id s \<Longrightarrow> pm_session_id p = sk_session_id s) \<Longrightarrow>
   tracks {} st0 (snd (stall_prompts now reason stuck st))"
proof (induction stuck arbitrary: st)
  case (Cons s stuck)
  let ?st = "log_change (lit ''prompts'') (sk_id s) now (bump_change (sk_session_id s)
    (set_prompts (\<lambda>p. pm_id p = sk_id s \<and> in_flight p) (stalled_row now reason) st))"
  have t: "tracks {} st0 ?st"
    by (intro tracks_log tracks_bump tracks_set_prompts)
      (use Cons.prems in \<open>auto simp: stalled_row_def intro: tracks_weaken\<close>)
  have ids: "map pm_id (ss_prompts ?st) = map pm_id (ss_prompts st)"
    by (simp add: set_prompts_def update_rows_def stalled_row_def)
  have "tracks {} st0 (snd (stall_prompts now reason stuck ?st))"
  proof (rule Cons.IH [OF _ t])
    show "feed_ok ?st" using t by (simp add: tracks_def)
    show "prompts_ok ?st" using Cons.prems(3) ids by (simp add: prompts_ok_def)
    show "pm_session_id p = sk_session_id u" if "u \<in> set stuck" "p \<in> set (ss_prompts ?st)" "pm_id p = sk_id u" for u p
      using that Cons.prems(4) [of u] by (auto simp: set_prompts_def set_update_rows stalled_row_def split: if_splits)
  qed
  then show ?case using Cons by (auto split: prod.split)
qed simp

lemma stuck_prompts_rows:
  assumes "stuck_prompts uv cutoff thresholds st = Ok stuck" and "s \<in> set stuck"
  shows "\<exists>p \<in> set (ss_prompts st). pm_id p = sk_id s \<and> pm_session_id p = sk_session_id s \<and> in_flight p"
  using assms by (auto simp: stuck_prompts_def and_then_def judge_prompt_def Let_def map_filter_def split: sum.splits if_splits) blast+

lemma tracks_stalled:
  assumes "feed_ok st" and "prompts_ok st"
  shows "tracks {} st (snd (mark_stalled_prompts uv cutoff db now thresholds reason st))"
proof -
  have "tracks {} st (snd (stall_prompts now reason stuck st))" if "stuck_prompts uv cutoff thresholds st = Ok stuck" for stuck
    using assms tracks_refl [OF assms(1)] stuck_prompts_rows [OF that] prompts_unique [OF assms(2)]
    by (intro tracks_stall_prompts) metis+
  then show ?thesis
    using tracks_refl [OF assms(1)]
    by (auto simp: mark_stalled_prompts_def split: sum.split prod.split)
qed

section \<open>Permissions\<close>

lemma tracks_base:
  assumes "tracks K st0 st" and "ps_sessions b = ss_sessions st" and "ps_change_seq b = ss_head st"
    and "\<And>k. k \<notin> K \<Longrightarrow> acp_requests k (st\<lparr>ss_base := b\<rparr>) = acp_requests k st"
  shows "tracks K st0 (st\<lparr>ss_base := b\<rparr>)"
  by (rule tracks_tables [OF assms(1)]) (use assms in \<open>simp_all add: session_prompts_def session_events_def subagent_on_def\<close>)

lemma base_simps:
  "st\<lparr>ss_base := log_row t i now b\<rparr> = log_change t i now (st\<lparr>ss_base := b\<rparr>)"
  "st\<lparr>ss_base := bump_session_change k b\<rparr> = bump_change k (st\<lparr>ss_base := b\<rparr>)"
  by (simp_all add: log_change_def bump_change_def on_base_def)

lemma tracks_add_decision:
  "tracks K st0 (st\<lparr>ss_base := b\<rparr>) \<Longrightarrow> tracks K st0 (st\<lparr>ss_base := add_decision d b\<rparr>)"
  using tracks_base [of K st0 "st\<lparr>ss_base := b\<rparr>" "add_decision d b"]
  by (simp add: add_decision_def acp_requests_def)

text \<open>A request is written, and the session it is raised for is stamped.\<close>

lemma tracks_acp_request:
  assumes "tracks {} st0 st" and "ps_sessions b = ss_sessions st" and "ps_change_seq b = ss_head st"
    and "\<And>k. acp_requests k (st\<lparr>ss_base := b\<rparr>) \<noteq> acp_requests k st \<Longrightarrow>
      \<exists>r. find (\<lambda>r. pr_id r = key \<and> pr_source r = lit ''acp'') (ps_requests b) = Some r \<and> pr_subject_id r = Some k"
  shows "tracks {} st0 (st\<lparr>ss_base := bump_acp_permission_session key b\<rparr>)"
proof (cases "find (\<lambda>r. pr_id r = key \<and> pr_source r = lit ''acp'') (ps_requests b)")
  case None
  then show ?thesis using tracks_base [OF assms(1-3)] assms(4) by (auto simp: bump_acp_permission_session_def)
next
  case (Some r)
  note r = Some
  show ?thesis
  proof (cases "pr_subject_id r")
    case None
    then show ?thesis using tracks_base [OF assms(1-3)] assms(4) r by (auto simp: bump_acp_permission_session_def)
  next
    case (Some k)
    have "tracks {k} st0 (st\<lparr>ss_base := b\<rparr>)"
      using assms(4) r Some by (intro tracks_base [OF tracks_weaken [OF assms(1)] assms(2,3)]) auto
    then show ?thesis using r Some by (simp add: bump_acp_permission_session_def base_simps tracks_bump)
  qed
qed

definition requests_ok :: "sstore \<Rightarrow> bool" where
  "requests_ok st \<longleftrightarrow> distinct (map pr_id (ps_requests (ss_base st)))"

lemma set_status_base [simp]:
  "ps_sessions (set_status key s now b) = ps_sessions b" "ps_change_seq (set_status key s now b) = ps_change_seq b"
  by (simp_all add: set_status_def)

lemma find_stamped:
  "find (\<lambda>r. pr_id r = key \<and> pr_source r = src) (ps_requests (set_status key s now b)) =
   map_option (stamp s now) (find (\<lambda>r. pr_id r = key \<and> pr_source r = src) (ps_requests b))"
proof (cases "find (\<lambda>r. pr_id r = key \<and> pr_source r = src) (ps_requests b)")
  case (Some r)
  then have "pr_id r = key" by (auto simp: find_Some_iff)
  with Some show ?thesis by (simp add: set_status_map find_map_same)
qed (simp add: set_status_map find_map_same)

lemma acp_set_status:
  assumes "requests_ok st" and "acp_requests k (st\<lparr>ss_base := set_status key s now (ss_base st)\<rparr>) \<noteq> acp_requests k st"
  shows "\<exists>r. find (\<lambda>r. pr_id r = key \<and> pr_source r = lit ''acp'') (ps_requests (ss_base st)) = Some r \<and> pr_subject_id r = Some k"
proof -
  have "\<exists>r \<in> set rs. pr_id r = key \<and> pr_source r = lit ''acp'' \<and> pr_subject_id r = Some k"
    if "filter (\<lambda>q. pr_source q = lit ''acp'' \<and> pr_subject_id q = Some k) (map (\<lambda>r. if pr_id r = key then stamp s now r else r) rs)
      \<noteq> filter (\<lambda>q. pr_source q = lit ''acp'' \<and> pr_subject_id q = Some k) rs" for rs
    using that by (induction rs) (auto simp: stamp_def split: if_splits)
  then obtain r where r: "r \<in> set (ps_requests (ss_base st))" "pr_id r = key" "pr_source r = lit ''acp''" "pr_subject_id r = Some k"
    using assms(2) by (auto simp: acp_requests_def set_status_map)
  have "distinct (map pr_id rs) \<Longrightarrow> r \<in> set rs \<Longrightarrow> find (\<lambda>r. pr_id r = key \<and> pr_source r = lit ''acp'') rs = Some r" for rs
    using r(2,3) by (induction rs) auto
  then show ?thesis using r assms(1) by (auto simp: requests_ok_def)
qed

lemma tracks_set_status:
  assumes "tracks {} st0 st" and "requests_ok st"
  shows "tracks {} st0 (st\<lparr>ss_base := bump_acp_permission_session key (set_status key s now (ss_base st))\<rparr>)"
proof (rule tracks_acp_request [OF assms(1)])
  fix k assume "acp_requests k (st\<lparr>ss_base := set_status key s now (ss_base st)\<rparr>) \<noteq> acp_requests k st"
  then obtain r where "find (\<lambda>r. pr_id r = key \<and> pr_source r = lit ''acp'') (ps_requests (ss_base st)) = Some r"
    "pr_subject_id r = Some k"
    using acp_set_status [OF assms(2)] by blast
  then show "\<exists>r. find (\<lambda>r. pr_id r = key \<and> pr_source r = lit ''acp'') (ps_requests (set_status key s now (ss_base st))) = Some r \<and>
      pr_subject_id r = Some k"
    by (simp add: find_stamped stamp_def)
qed simp_all

lemma tracks_new_request:
  assumes "feed_ok st" and "\<not> has_request (pr_id r) (ss_base st)"
  shows "tracks {} st (st\<lparr>ss_base := bump_acp_permission_session (pr_id r)
    ((ss_base st)\<lparr>ps_requests := ps_requests (ss_base st) @ [r], ps_decisions := ds\<rparr>)\<rparr>)"
proof (rule tracks_acp_request [OF tracks_refl [OF assms(1)]])
  have none: "find (\<lambda>q. pr_id q = pr_id r \<and> P q) (ps_requests (ss_base st)) = None" for P
    using assms(2) by (metis (mono_tags, lifting) find_None_iff has_request_def image_eqI)
  fix k assume "acp_requests k (st\<lparr>ss_base := (ss_base st)\<lparr>ps_requests := ps_requests (ss_base st) @ [r], ps_decisions := ds\<rparr>\<rparr>)
    \<noteq> acp_requests k st"
  then have "pr_source r = lit ''acp'' \<and> pr_subject_id r = Some k" by (auto simp: acp_requests_def split: if_splits)
  then show "\<exists>q. find (\<lambda>q. pr_id q = pr_id r \<and> pr_source q = lit ''acp'')
      (ps_requests ((ss_base st)\<lparr>ps_requests := ps_requests (ss_base st) @ [r], ps_decisions := ds\<rparr>)) = Some q \<and> pr_subject_id q = Some k"
    using none by (simp add: find_append)
qed simp_all

lemma tracks_permissions:
  assumes "feed_ok st" and "requests_ok st"
  shows "tracks {} st (on_base (\<lambda>b. snd (append_permission_request json_valid db key now input b)) st)"
    "tracks {} st (on_base (\<lambda>b. snd (append_approved_permission_request json_valid db key decision_key now input who reason b)) st)"
    "tracks {} st (on_base (\<lambda>b. snd (decide_permission db decision_key now decided_at key new_status who reason b)) st)"
proof -
  note refl = tracks_refl [OF assms(1), of "{}"]
  have new: "tracks {} st (st\<lparr>ss_base := bump_acp_permission_session key
      ((ss_base st)\<lparr>ps_requests := ps_requests (ss_base st) @ [r]\<rparr>)\<rparr>)"
    if "\<not> has_request key (ss_base st)" "pr_id r = key" for r
    using tracks_new_request [OF assms(1), of r "ps_decisions (ss_base st)"] that by simp
  show "tracks {} st (on_base (\<lambda>b. snd (append_permission_request json_valid db key now input b)) st)"
    using refl new by (auto simp: append_permission_request_def on_base_def Let_def base_simps new_request_def intro!: tracks_log)
  show "tracks {} st (on_base (\<lambda>b. snd (append_approved_permission_request json_valid db key decision_key now input who reason b)) st)"
    using refl tracks_new_request [OF assms(1), of "(new_request key now PApproved input)\<lparr>pr_expires_at := None\<rparr>"]
    by (auto simp: append_approved_permission_request_def on_base_def Let_def base_simps new_request_def intro!: tracks_log)
  show "tracks {} st (on_base (\<lambda>b. snd (decide_permission db decision_key now decided_at key new_status who reason b)) st)"
    using refl tracks_set_status [OF refl assms(2)]
    by (auto simp: decide_permission_def on_base_def Let_def base_simps(1) split: option.split intro!: tracks_log tracks_add_decision)
qed

lemma settle_orphan_base:
  "st\<lparr>ss_base := settle_orphan dk status now key (ss_base st)\<rparr> =
     log_change (lit ''permission_decisions'') dk now (log_change (lit ''permission_requests'') key now
       (st\<lparr>ss_base := add_decision (orphan_decision dk key status now)
         (if status = PCanceled then bump_acp_permission_session key (set_status key status now (ss_base st))
          else set_status key status now (ss_base st))\<rparr>))"
  by (simp add: settle_orphan_def base_simps)

lemma no_acp_request:
  assumes "requests_ok st" and "r \<in> set (ps_requests (ss_base st))" and "pr_id r = key" and "pr_source r \<noteq> lit ''acp''"
  shows "acp_requests k (st\<lparr>ss_base := set_status key s now (ss_base st)\<rparr>) = acp_requests k st"
proof (rule ccontr)
  assume "\<not> ?thesis"
  then obtain q where "find (\<lambda>r. pr_id r = key \<and> pr_source r = lit ''acp'') (ps_requests (ss_base st)) = Some q"
    using acp_set_status [OF assms(1)] by blast
  then have "q \<in> set (ps_requests (ss_base st))" "pr_id q = key" "pr_source q = lit ''acp''" by (auto simp: find_Some_iff)
  then show False using assms by (auto simp: requests_ok_def distinct_map inj_on_def)
qed

lemma tracks_settle_orphans:
  assumes "settle_orphans next_id n status now keys (ss_base st) = Some b" and "tracks {} st0 st" and "requests_ok st"
    and "status = PCanceled \<or> (\<forall>key \<in> set keys. \<exists>r \<in> set (ps_requests (ss_base st)). pr_id r = key \<and> pr_source r \<noteq> lit ''acp'')"
  shows "tracks {} st0 (st\<lparr>ss_base := b\<rparr>)"
  using assms
proof (induction keys arbitrary: n st)
  case (Cons key keys)
  let ?st = "st\<lparr>ss_base := settle_orphan (next_id n) status now key (ss_base st)\<rparr>"
  have "tracks {} st0 (st\<lparr>ss_base := if status = PCanceled then bump_acp_permission_session key (set_status key status now (ss_base st))
          else set_status key status now (ss_base st)\<rparr>)"
  proof (cases "status = PCanceled")
    case True
    then show ?thesis using tracks_set_status [OF Cons.prems(2,3)] by simp
  next
    case False
    then obtain r where "r \<in> set (ps_requests (ss_base st))" "pr_id r = key" "pr_source r \<noteq> lit ''acp''"
      using Cons.prems(4) by auto
    then show ?thesis
      using False no_acp_request [OF Cons.prems(3)] by (auto intro!: tracks_base [OF Cons.prems(2)])
  qed
  then have t: "tracks {} st0 ?st" unfolding settle_orphan_base by (intro tracks_log tracks_add_decision)
  have rows: "ps_requests (ss_base ?st) = map (\<lambda>r. if pr_id r = key then stamp status now r else r) (ps_requests (ss_base st))"
    by (simp add: settle_orphan_rows set_status_map)
  have "tracks {} st0 (?st\<lparr>ss_base := b\<rparr>)"
  proof (rule Cons.IH [OF _ t])
    show "settle_orphans next_id (Suc n) status now keys (ss_base ?st) = Some b" using Cons.prems(1) by (simp split: if_splits)
    have "map pr_id (ps_requests (ss_base ?st)) = map pr_id (ps_requests (ss_base st))" unfolding rows by simp
    then show "requests_ok ?st" using Cons.prems(3) by (simp add: requests_ok_def)
    show "status = PCanceled \<or> (\<forall>k \<in> set keys. \<exists>r \<in> set (ps_requests (ss_base ?st)). pr_id r = k \<and> pr_source r \<noteq> lit ''acp'')"
      using Cons.prems(4) unfolding rows bex_map by (auto simp: if_distrib [of pr_id] if_distrib [of pr_source] cong: if_cong)
  qed
  then show ?case by simp
next
  case Nil
  then have "b = ss_base st" by simp
  then show ?case using Nil(2) by simp
qed

lemma tracks_reconcile_permissions:
  assumes "feed_ok st" and "requests_ok st"
  shows "tracks {} st (on_base (\<lambda>b. snd (reconcile_orphaned_permissions db next_id now b)) st)"
proof -
  let ?acp = "pending_ids (lit ''acp'') (ss_base st)"
  note refl = tracks_refl [OF assms(1), of "{}"]
  show ?thesis
  proof (cases "if db then settle_orphans next_id 0 PCanceled now ?acp (ss_base st) else None")
    case None
    then show ?thesis using refl by (simp add: reconcile_orphaned_permissions_def on_base_def Let_def)
  next
    case (Some b1)
    note b1 = Some
    let ?cmd = "pending_ids (lit ''command'') b1"
    have s1: "settle_orphans next_id 0 PCanceled now ?acp (ss_base st) = Some b1" using Some by (simp split: if_splits)
    have t1: "tracks {} st (st\<lparr>ss_base := b1\<rparr>)" using tracks_settle_orphans [OF s1 refl assms(2)] by simp
    have "map pr_id (ps_requests b1) = map pr_id (ps_requests (ss_base st))"
      using settle_orphans_rows [OF s1] by (simp add: if_distrib [of pr_id] cong: if_cong)
    then have ok1: "requests_ok (st\<lparr>ss_base := b1\<rparr>)" using assms(2) by (simp add: requests_ok_def)
    show ?thesis
    proof (cases "settle_orphans next_id (length ?acp) PExpired now ?cmd b1")
      case None
      then show ?thesis using refl Some by (simp add: reconcile_orphaned_permissions_def on_base_def Let_def)
    next
      case (Some b2)
      have "tracks {} st (st\<lparr>ss_base := b1, ss_base := b2\<rparr>)"
      proof (rule tracks_settle_orphans [OF _ t1 ok1])
        have "lit ''command'' \<noteq> lit ''acp''" by (simp add: lit_def)
        then show "PExpired = PCanceled \<or> (\<forall>key \<in> set ?cmd. \<exists>r \<in> set (ps_requests (ss_base (st\<lparr>ss_base := b1\<rparr>))).
            pr_id r = key \<and> pr_source r \<noteq> lit ''acp'')"
          by (auto simp: pending_ids_def)
      qed (use Some in simp)
      then show ?thesis
        using Some b1 by (simp add: reconcile_orphaned_permissions_def on_base_def Let_def)
    qed
  qed
qed

end
