(* ===== verification/Session_System.thy ===== *)
theory Session_System
  imports Feed_Operations Command_Store
begin

text \<open>
  The session store as one transition system: a step is any of the write transactions of
  \<^verbatim>\<open>src/state/sessions/\<close>, and of the permission and command stores that share its tables, with any
  arguments, keys, clock readings and database failures.  Four invariants of its steps: the change feed owes
  nothing to its readers (\<open>feed_step\<close>), every log is numbered from one without a gap and only grows
  (\<open>logs_step\<close>), a prompt keeps its verdict (\<open>prompts_step\<close>), and the keys of requests stay unique
  (\<open>requests_step\<close>).
\<close>

section \<open>Steps\<close>

text \<open>The external code the operations call.\<close>

record 'j session_env =
  en_json_valid :: "rstr \<Rightarrow> bool"
  en_is_json :: "rstr \<Rightarrow> bool"
  en_json :: "'j json_ops"
  en_time :: "rstr \<Rightarrow> rstr + rstr"
  en_update_tag :: "rstr \<Rightarrow> rstr option"
  en_view :: update_view
  en_outcome :: "rstr \<Rightarrow> prompt_status \<Rightarrow> rstr option \<Rightarrow> rstr option \<Rightarrow> rstr"
  en_announced :: "rstr \<Rightarrow> rstr \<Rightarrow> rstr \<Rightarrow> rstr"

inductive session_step :: "'j session_env \<Rightarrow> sstore \<Rightarrow> sstore \<Rightarrow> bool" for env where
  step_event: "session_step env st
    (snd (append_session_event_with_source (en_json_valid env) db key now k level kind source message payload st))"
| step_update: "session_step env st (snd (append_session_update (en_is_json env) db key now k kind payload st))"
| step_insert: "session_step env st
    (snd (insert_session_for_target (en_json_valid env) db now target_id agent_session_id input st))"
| step_status: "session_step env st (snd (update_session_status db now k status st))"
| step_cwd: "session_step env st (snd (update_session_status_and_cwd db now k status cwd st))"
| step_info: "session_step env st (snd (update_session_info (en_json env) db now k title agent_updated_at agent_meta st))"
| step_commands: "session_step env st (snd (replace_session_available_commands (en_json env) db now k v st))"
| step_options: "session_step env st (snd (replace_session_config_options (en_json env) db now k v st))"
| step_listed: "session_step env st (snd (commit_listed db e writes st))"
| step_rename: "session_step env st (snd (rename_session_target_id db now old_target new_target st))"
| step_delete: "session_step env st (snd (delete_session db now k st))"
| step_prune: "session_step env st (snd (prune_session_tombstones cutoff db st))"
| step_orphans: "session_step env st (snd (reconcile_orphaned_sessions db now target st))"
| step_idle: "session_step env st (snd (mark_idle_sessions cutoff db now st))"
| step_subagent: "session_step env st (snd (record_subagent_update (en_is_json env) (en_announced env) db update_key updated_at
    child_key now announced_key announced_at k payload patch roots st))"
| step_withdraw: "session_step env st (snd (withdraw_subagent_state db now k st))"
| step_close: "session_step env st (snd (close_subagent_sessions db now k st))"
| step_fork: "session_step env st (snd (insert_forked_session (en_json_valid env) (en_update_tag env) db next_prompt next_event
    now target_id agent_session_id input parent held_through st))"
| step_prompt: "session_step env st
    (snd (insert_prompt_with_message_id (en_json_valid env) db now prompt_id k prompt_json message_id st))"
| step_acknowledge: "session_step env st (snd (acknowledge_prompt_message_id db now prompt_id message st))"
| step_agent_message: "session_step env st (snd (record_prompt_agent_message_id db now prompt_id message st))"
| step_prompt_status: "session_step env st
    (snd (update_prompt_status db now prompt_id pst stop_reason error_code error_message failure_class detail st))"
| step_settle: "session_step env st (snd (settle_prompt db now prompt_id settlement replace_stalled st))"
| step_orphaned_prompts: "session_step env st (snd (reconcile_orphaned_prompts (en_outcome env) db next_id now reason st))"
| step_stalled: "session_step env st (snd (mark_stalled_prompts (en_view env) cutoffs db now (thresholds :: nat stale_thresholds) reason st))"
| step_request: "session_step env st (on_base (\<lambda>b. snd (append_permission_request (en_json_valid env) db key now request b)) st)"
| step_approved: "session_step env st
    (on_base (\<lambda>b. snd (append_approved_permission_request (en_json_valid env) db key decision_key now request who why b)) st)"
| step_decide: "session_step env st (on_base (\<lambda>b. snd (decide_permission db decision_key now decided_at key ps who why b)) st)"
| step_permissions: "session_step env st (on_base (\<lambda>b. snd (reconcile_orphaned_permissions db next_id now b)) st)"
| step_orphaned_commands: "cs_base cs = ss_base st \<Longrightarrow>
    session_step env st (st\<lparr>ss_base := cs_base (snd (reconcile_orphaned_commands db next_id now cs))\<rparr>)"
| step_outbox: "session_step env st (on_base (\<lambda>b. b\<lparr>ps_outbox := ob\<rparr>) st)"

section \<open>Frames\<close>

lemma bump_changes_tables [simp]:
  "ss_tombstones (bump_changes ks st) = ss_tombstones st" "ss_events (bump_changes ks st) = ss_events st"
  "ss_prompts (bump_changes ks st) = ss_prompts st" "ss_subagents (bump_changes ks st) = ss_subagents st"
  "ps_requests (ss_base (bump_changes ks st)) = ps_requests (ss_base st)"
  unfolding bump_changes_def by (induction ks arbitrary: st) simp_all

lemma set_tables [simp]:
  "ss_events (set_prompts p f st) = ss_events st" "ss_subagents (set_prompts p f st) = ss_subagents st"
  "ss_base (set_prompts p f st) = ss_base st" "ss_prompts (set_prompts p f st) = update_rows p f (ss_prompts st)"
  "ss_events (set_subagents q g st) = ss_events st" "ss_prompts (set_subagents q g st) = ss_prompts st"
  "ss_base (set_subagents q g st) = ss_base st" "ss_subagents (set_subagents q g st) = update_rows q g (ss_subagents st)"
  "ss_events (touch_prompt now target st) = ss_events st" "ss_subagents (touch_prompt now target st) = ss_subagents st"
  "ss_base (touch_prompt now target st) = ss_base st"
  by (simp_all add: set_prompts_def set_subagents_def touch_prompt_def)

lemma bump_prompt_tables [simp]:
  "ss_events (bump_prompt_session_change k st) = ss_events st" "ss_prompts (bump_prompt_session_change k st) = ss_prompts st"
  "ss_subagents (bump_prompt_session_change k st) = ss_subagents st"
  "ps_requests (ss_base (bump_prompt_session_change k st)) = ps_requests (ss_base st)"
  by (simp_all add: bump_prompt_session_change_def split: option.split)

lemma on_base_tables [simp]:
  "ss_events (on_base f st) = ss_events st" "ss_prompts (on_base f st) = ss_prompts st"
  "ss_subagents (on_base f st) = ss_subagents st" "ss_base (on_base f st) = f (ss_base st)"
  "ss_tombstones (on_base f st) = ss_tombstones st"
  by (simp_all add: on_base_def)

lemma stall_tables [simp]:
  "ss_events (snd (stall_prompts now reason stuck st)) = ss_events st"
  "ss_subagents (snd (stall_prompts now reason stuck st)) = ss_subagents st"
  "ps_requests (ss_base (snd (stall_prompts now reason stuck st))) = ps_requests (ss_base st)"
  by (induction stuck arbitrary: st) (simp_all add: split_beta)

lemmas session_ops = update_session_def update_session_status_def update_session_status_and_cwd_def update_session_info_def
  replace_metadata_def replace_session_available_commands_def replace_session_config_options_def
  rename_session_target_id_def prune_session_tombstones_def reconcile_orphaned_sessions_def mark_idle_sessions_def
  demote_def withdraw_def withdraw_subagent_tree_def withdraw_subagent_state_def close_subagent_sessions_def

lemmas prompt_ops = insert_prompt_with_message_id_def update_prompt_def acknowledge_prompt_message_id_def
  record_prompt_agent_message_id_def update_prompt_status_def settle_prompt_def mark_stalled_prompts_def

lemma events_same [simp]:
  "ss_events (snd (insert_session_for_target jv db now t a input st)) = ss_events st"
  "ss_events (snd (update_session_status db now k status st)) = ss_events st"
  "ss_events (snd (update_session_status_and_cwd db now k status cwd st)) = ss_events st"
  "ss_events (snd (update_session_info jo db now k title au am st)) = ss_events st"
  "ss_events (snd (replace_session_available_commands jo db now k v st)) = ss_events st"
  "ss_events (snd (replace_session_config_options jo db now k v st)) = ss_events st"
  "ss_events (snd (rename_session_target_id db now t t' st)) = ss_events st"
  "ss_events (snd (prune_session_tombstones cutoff db st)) = ss_events st"
  "ss_events (snd (reconcile_orphaned_sessions db now target st)) = ss_events st"
  "ss_events (snd (mark_idle_sessions cutoff db now st)) = ss_events st"
  "ss_events (snd (withdraw_subagent_state db now k st)) = ss_events st"
  "ss_events (snd (close_subagent_sessions db now k st)) = ss_events st"
  by (auto simp: insert_session_for_target_def session_ops Let_def insert_stamped_tables split: option.split sum.split)

lemma events_same_prompts [simp]:
  "ss_events (snd (insert_prompt_with_message_id jv db now p k pj m st)) = ss_events st"
  "ss_events (snd (acknowledge_prompt_message_id db now p mi st)) = ss_events st"
  "ss_events (snd (record_prompt_agent_message_id db now p mi st)) = ss_events st"
  "ss_events (snd (update_prompt_status db now p ps sr ec em fc fd st)) = ss_events st"
  "ss_events (snd (settle_prompt db now p settlement rs st)) = ss_events st"
  "ss_events (snd (mark_stalled_prompts uv cutoffs db now thresholds reason st)) = ss_events st"
  by (auto simp: prompt_ops Let_def split: option.split sum.split prod.split) (metis snd_conv stall_tables(1))

section \<open>The logs\<close>

definition logs_ok :: "sstore \<Rightarrow> bool" where
  "logs_ok st \<longleftrightarrow> distinct (map le_id (ss_events st)) \<and>
     (\<forall>k. map le_seq (session_events k st) = map Some [1..<Suc (length (session_events k st))])"

definition logs_grow :: "sstore \<Rightarrow> sstore \<Rightarrow> bool" where
  "logs_grow st0 st \<longleftrightarrow> logs_ok st \<and> (\<forall>k. \<exists>new. session_events k st = session_events k st0 @ new)"

lemma logs_grow_refl: "logs_ok st \<Longrightarrow> logs_grow st st"
  by (simp add: logs_grow_def)

lemma logs_grow_same: "logs_grow st0 st \<Longrightarrow> ss_events st' = ss_events st \<Longrightarrow> logs_grow st0 st'"
  by (simp add: logs_grow_def logs_ok_def session_events_def)

lemma session_event_head_length:
  assumes "logs_ok st"
  shows "session_event_head k st = length (session_events k st)"
proof -
  have "map le_seq es = map Some ns \<Longrightarrow> List.map_filter le_seq es = ns" for es ns
  proof (induction es arbitrary: ns)
    case (Cons e es)
    then show ?case by (cases ns) (simp_all add: map_filter_simps)
  qed (simp add: map_filter_simps)
  then have "List.map_filter le_seq (session_events k st) = [1..<Suc (length (session_events k st))]"
    using assms unfolding logs_ok_def by blast
  moreover have "foldr max [1..<Suc n] (0 :: nat) = n" for n
  proof -
    have "foldr max ns (0 :: nat) \<le> m \<longleftrightarrow> (\<forall>n \<in> set ns. n \<le> m)" for ns m by (induction ns) auto
    moreover have "n \<in> set ns \<Longrightarrow> n \<le> foldr max ns (0 :: nat)" for ns by (induction ns) auto
    ultimately show ?thesis
      by (cases n) (auto intro!: antisym simp del: upt_Suc)
  qed
  ultimately show ?thesis by (simp add: session_event_head_def del: upt_Suc)
qed

lemma session_events_add:
  "session_events j (st\<lparr>ss_events := ss_events st @ [e]\<rparr>) =
     session_events j st @ (if le_session_id e = Some j then [e] else [])"
  by (simp add: session_events_def)

lemma logs_grow_add:
  assumes "logs_grow st0 st" and "\<not> has_event (le_id e) st"
    and "\<And>k. le_session_id e = Some k \<Longrightarrow> le_seq e = Some (Suc (length (session_events k st)))"
  shows "logs_grow st0 (st\<lparr>ss_events := ss_events st @ [e]\<rparr>)"
proof -
  have "map le_seq (session_events k (st\<lparr>ss_events := ss_events st @ [e]\<rparr>)) =
      map Some [1..<Suc (length (session_events k (st\<lparr>ss_events := ss_events st @ [e]\<rparr>)))]" for k
    using assms(1,3) unfolding session_events_add by (auto simp: logs_grow_def logs_ok_def)
  moreover have "\<exists>new. session_events k (st\<lparr>ss_events := ss_events st @ [e]\<rparr>) = session_events k st0 @ new" for k
    using assms(1) unfolding session_events_add logs_grow_def by (metis append.assoc)
  ultimately show ?thesis using assms(1,2) by (auto simp: logs_grow_def logs_ok_def has_event_def)
qed

lemma logs_event_row:
  assumes "insert_session_event_row k e st = Some (n, st')" and "logs_grow st0 st"
  shows "logs_grow st0 st'"
proof -
  have "session_event_head k st = length (session_events k st)"
    using assms(2) by (intro session_event_head_length) (simp add: logs_grow_def)
  then show ?thesis
    using assms by (auto simp: insert_session_event_row_def Let_def next_session_event_seq_def split: if_splits intro!: logs_grow_add)
qed

lemma logs_unscoped: "insert_unscoped_event_row e st = Some st' \<Longrightarrow> logs_grow st0 st \<Longrightarrow> logs_grow st0 st'"
  by (auto simp: insert_unscoped_event_row_def split: if_splits intro!: logs_grow_add)

lemma logs_update_row: "insert_session_update_row k e st = Some (n, st') \<Longrightarrow> logs_grow st0 st \<Longrightarrow> logs_grow st0 st'"
  by (auto simp: insert_session_update_row_def Let_def split: option.splits
      dest!: logs_event_row elim: logs_grow_same)

lemma logs_append:
  assumes "logs_ok st"
  shows "logs_grow st (snd (append_session_event_with_source jv db key now k level kind source message payload st))"
    "logs_grow st (snd (append_session_update is_json db key now k kind payload st))"
  using logs_grow_refl [OF assms]
  by (auto simp: append_session_event_with_source_def append_session_update_def Let_def split: option.split sum.split if_splits
      dest!: logs_event_row logs_update_row elim: logs_grow_same)

lemma write_listed_events: "write_all_listed ws st = Some st' \<Longrightarrow> ss_events st' = ss_events st"
proof (induction ws arbitrary: st)
  case (Cons w ws)
  then show ?case
    by (cases w) (auto simp: write_listed_def insert_stamped_tables split: option.splits)
qed simp

lemma logs_listed:
  assumes "logs_ok st"
  shows "logs_grow st (snd (commit_listed db e ws st))"
proof -
  have w: "logs_grow st st1" if "write_all_listed ws st = Some st1" for st1
    using logs_grow_same [OF logs_grow_refl [OF assms] write_listed_events [OF that]] .
  have u: "logs_grow st (log_change t i now st2)"
    if "write_all_listed ws st = Some st1" "insert_unscoped_event_row e' st1 = Some st2" for st1 st2 e' t i now
    using logs_grow_same [OF logs_unscoped [OF that(2) w [OF that(1)]]] by simp
  show ?thesis
    using logs_grow_refl [OF assms] w u by (auto simp: commit_listed_def split: option.split)
qed

lemma copy_events_log:
  assumes "copy_events next_id n child es st = Some st'" and "logs_grow st0 st" and "n = Suc (length (session_events child st))"
  shows "logs_grow st0 st'"
  using assms
proof (induction es arbitrary: n st)
  case (Cons e es)
  let ?e = "e\<lparr>le_id := next_id n, le_session_id := Some child, le_seq := Some n\<rparr>"
  have step: "copy_events next_id (Suc n) child es (st\<lparr>ss_events := ss_events st @ [?e]\<rparr>) = Some st'" "\<not> has_event (next_id n) st"
    using Cons.prems(1) by (auto split: if_splits)
  have "logs_grow st0 (st\<lparr>ss_events := ss_events st @ [?e]\<rparr>)"
    using Cons.prems(2,3) step(2) by (intro logs_grow_add) auto
  then show ?case using Cons.IH [OF step(1)] Cons.prems(3) by (simp add: session_events_add)
qed simp

lemma log_copies_tables [simp]:
  "ss_events (log_copies t next_id n stamps st) = ss_events st" "ss_prompts (log_copies t next_id n stamps st) = ss_prompts st"
  "ss_subagents (log_copies t next_id n stamps st) = ss_subagents st" "ss_sessions (log_copies t next_id n stamps st) = ss_sessions st"
  "ps_requests (ss_base (log_copies t next_id n stamps st)) = ps_requests (ss_base st)"
  by (induction stamps arbitrary: n st) simp_all

text \<open>What a successful fork did, in its order.\<close>

lemma fork_cases:
  assumes "insert_forked_session jv update_tag db next_prompt next_event now target_id agent_session_id input parent held st = (res, st')"
  obtains (failed) err where "res = Err err" "st' = st"
    | (forked) row n st1 st2 st3 es where "row = new_active_session_row now target_id agent_session_id input"
      "insert_stamped row st = Some (n, st1)"
      "copy_prompts next_prompt 0 (se_id row) (held_prompts parent held st1) st1 = Some st2"
      "es = filter (inherited update_tag (fork_cut parent held st2)) (sort_key seq_of (session_events parent st2))"
      "copy_events next_event (next_session_event_seq (se_id row) st2) (se_id row) es st2 = Some st3"
      "st' = log_copies (lit ''events'') next_event (next_session_event_seq (se_id row) st2) (map le_created_at es)
        (log_copies (lit ''prompts'') next_prompt 0 (map pm_created_at (held_prompts parent held st1))
          (log_change (lit ''sessions'') (se_id row) now st3))"
      "\<exists>v. res = Ok v"
proof -
  let ?row = "new_active_session_row now target_id agent_session_id input"
  show thesis
  proof (cases "jv (ns_metadata_json input) \<and> db")
    case False
    then show thesis using assms failed by (cases res) (auto simp: insert_forked_session_def Let_def split: if_splits)
  next
    case True
    show thesis
    proof (cases "insert_stamped ?row st")
      case None
      then show thesis using assms True failed by (auto simp: insert_forked_session_def Let_def)
    next
      case (Some p)
      then obtain n st1 where ins: "insert_stamped ?row st = Some (n, st1)" by (cases p) auto
      show thesis
      proof (cases "copy_prompts next_prompt 0 (se_id ?row) (held_prompts parent held st1) st1")
        case None
        then show thesis using assms True ins failed by (auto simp: insert_forked_session_def Let_def)
      next
        case (Some st2)
        let ?es = "filter (inherited update_tag (fork_cut parent held st2)) (sort_key seq_of (session_events parent st2))"
        show thesis
        proof (cases "copy_events next_event (next_session_event_seq (se_id ?row) st2) (se_id ?row) ?es st2")
          case None
          then show thesis using assms True ins Some failed by (auto simp: insert_forked_session_def Let_def)
        next
          case (Some st3)
          show thesis
            by (rule forked [OF refl ins \<open>copy_prompts _ _ _ _ _ = Some st2\<close> refl Some])
              (use assms True ins \<open>copy_prompts _ _ _ _ _ = Some st2\<close> Some in \<open>auto simp: insert_forked_session_def Let_def\<close>)
        qed
      qed
    qed
  qed
qed

lemma logs_fork:
  assumes "logs_ok st"
  shows "logs_grow st (snd (insert_forked_session jv update_tag db next_prompt next_event now t a input parent held st))"
proof (cases "insert_forked_session jv update_tag db next_prompt next_event now t a input parent held st")
  case (Pair res st')
  then show ?thesis
  proof (cases rule: fork_cases)
    case (failed err)
    then show ?thesis using Pair logs_grow_refl [OF assms] by simp
  next
    case (forked row n st1 st2 st3 es)
    have g2: "logs_grow st st2"
      using logs_grow_same [OF logs_grow_refl [OF assms]] insert_stamped_tables(6) [OF forked(2)]
        copy_prompts_tables [OF forked(3)] by simp
    then have "next_session_event_seq (se_id row) st2 = Suc (length (session_events (se_id row) st2))"
      using session_event_head_length [of st2] by (simp add: next_session_event_seq_def logs_grow_def)
    then have "logs_grow st st3" using copy_events_log [OF forked(5) g2] by simp
    then show ?thesis using Pair logs_grow_same by (simp add: forked(6))
  qed
qed

lemma apply_patch_tables:
  assumes "apply_subagent_patch key now parent_id patch roots st = Ok (applied, st')"
  shows "ss_events st' = ss_events st" "ss_prompts st' = ss_prompts st" "ps_requests (ss_base st') = ps_requests (ss_base st)"
proof -
  have r: "ss_events st1 = ss_events st \<and> ss_prompts st1 = ss_prompts st \<and> ps_requests (ss_base st1) = ps_requests (ss_base st)"
    if "resolve_child key now parent root agent_id st = ChildFound child stored st1" for parent root agent_id child stored st1
    using that by (cases rule: resolve_child_found) (auto dest: insert_stamped_tables)
  have "ss_events st' = ss_events st \<and> ss_prompts st' = ss_prompts st \<and> ps_requests (ss_base st') = ps_requests (ss_base st)"
    using assms
  proof (cases rule: apply_patch_cases)
    case (updated parent child s st1 st2 historical)
    then show ?thesis using r [OF updated(3)] by simp
  next
    case (announced parent child st1 st2 historical)
    then show ?thesis using r [OF announced(3)] by simp
  qed simp
  then show "ss_events st' = ss_events st" "ss_prompts st' = ss_prompts st" "ps_requests (ss_base st') = ps_requests (ss_base st)"
    by simp_all
qed

lemma logs_subagent:
  assumes "logs_ok st"
  shows "logs_grow st (snd (record_subagent_update is_json ap db uk ua ck now ak aa k payload patch roots st))"
proof (cases "record_subagent_update is_json ap db uk ua ck now ak aa k payload patch roots st")
  case (Pair res st')
  note row = logs_update_row [OF _ logs_grow_refl [OF assms]]
  from Pair show ?thesis
  proof (cases rule: subagent_update_cases)
    case (failed err)
    then show ?thesis using Pair logs_grow_refl [OF assms] by simp
  next
    case (announced e n st1 child root historical st2 ev m st3)
    then have "logs_grow st st3"
      using logs_event_row [OF announced(3) logs_grow_same [OF row [OF announced(1)] apply_patch_tables(1) [OF announced(2)]]] by simp
    then show ?thesis using Pair logs_grow_same by (simp add: announced(4))
  next
    case (other e n st1 applied st2)
    then show ?thesis
      using Pair logs_grow_same [OF row [OF other(1)]] apply_patch_tables(1) [OF other(2)] by auto
  qed
qed

lemma logs_report_orphans:
  "report_orphans outcome next_id n now rows st = Some st' \<Longrightarrow> logs_grow st0 st \<Longrightarrow> logs_grow st0 st'"
proof (induction rows arbitrary: n st)
  case (Cons row rows)
  obtain p s where row: "row = (p, s)" by (cases row)
  with Cons.prems(1) obtain m st1
    where st1: "insert_session_event_row s (orphan_event outcome (next_id n) now p s) st = Some (m, st1)"
      and rest: "report_orphans outcome next_id (Suc n) now rows (log_change (lit ''events'') (next_id n) now
        (log_change (lit ''prompts'') p now (bump_change s st1))) = Some st'"
    by (auto split: option.splits)
  show ?case by (rule Cons.IH [OF rest logs_grow_same [OF logs_event_row [OF st1 Cons.prems(2)]]]) simp
qed simp

lemma logs_orphaned_prompts:
  assumes "logs_ok st"
  shows "logs_grow st (snd (reconcile_orphaned_prompts outcome db next_id now reason st))"
  using logs_grow_refl [OF assms] logs_grow_same [OF logs_grow_refl [OF assms]]
  by (auto simp: reconcile_orphaned_prompts_def Let_def split: option.split if_splits elim!: logs_report_orphans)

lemma delete_rows_tables:
  "delete_rows now ks st = Some st' \<Longrightarrow>
   ss_sessions st' = filter (\<lambda>r. se_id r \<notin> set ks) (ss_sessions st) \<and>
   ss_events st' = filter (\<lambda>e. le_session_id e \<notin> Some ` set ks) (ss_events st) \<and>
   ss_prompts st' = filter (\<lambda>p. pm_session_id p \<notin> set ks) (ss_prompts st) \<and>
   ss_subagents st' = filter (\<lambda>a. sa_session_id a \<notin> set ks) (ss_subagents st) \<and>
   ps_requests (ss_base st') = ps_requests (ss_base st)"
proof (induction ks arbitrary: st)
  case (Cons k ks)
  then obtain st1 where st1: "delete_row now k st = Some st1" and rest: "delete_rows now ks st1 = Some st'"
    by (auto split: option.splits)
  show ?case
    using Cons.IH [OF rest] delete_row_tables [OF st1] by (auto intro!: filter_cong)
qed simp

text \<open>A deletion takes whole logs.\<close>

lemma delete_session_cases:
  assumes "delete_session db now k st = (res, st')"
  obtains (same) "st' = st" "\<forall>s. res \<noteq> Ok (Some s)"
    | (deleted) s ks st1 where "res = Ok (Some s)" "get_session k st = Some s" "ks = subagent_ids_of_root k st @ [k]"
      "delete_rows now ks (st\<lparr>ss_subagents := filter (\<lambda>a. sa_root_session_id a \<noteq> k) (ss_subagents st)\<rparr>) = Some st1"
      "st' = log_changes (lit ''sessions'') ks now st1"
proof (cases "get_session k st")
  case None
  then show thesis using assms same by (auto simp: delete_session_def)
next
  case (Some s)
  let ?ks = "subagent_ids_of_root k st @ [k]"
  let ?st = "st\<lparr>ss_subagents := filter (\<lambda>a. sa_root_session_id a \<noteq> k) (ss_subagents st)\<rparr>"
  show thesis
  proof (cases "if db then delete_rows now ?ks ?st else None")
    case None
    then show thesis using assms same \<open>get_session k st = Some s\<close> by (auto simp: delete_session_def)
  next
    case (Some st1)
    then have "delete_rows now ?ks ?st = Some st1" by (simp split: if_splits)
    from deleted [OF _ \<open>get_session k st = Some s\<close> refl this] show thesis
      using assms Some \<open>get_session k st = Some s\<close> by (simp add: delete_session_def)
  qed
qed

lemma logs_delete:
  assumes "logs_ok st"
  shows "logs_ok (snd (delete_session db now k st))"
    "session_row_of j (snd (delete_session db now k st)) \<noteq> None \<Longrightarrow>
      session_events j (snd (delete_session db now k st)) = session_events j st"
proof -
  obtain res st' where op: "delete_session db now k st = (res, st')" by (cases "delete_session db now k st")
  have "logs_ok st' \<and> (session_row_of j st' \<noteq> None \<longrightarrow> session_events j st' = session_events j st)"
    using op
  proof (cases rule: delete_session_cases)
    case same
    then show ?thesis using assms by simp
  next
    case (deleted s ks st1)
    note t = delete_rows_tables [OF deleted(4)]
    have ev: "session_events i st' = (if i \<in> set ks then [] else session_events i st)" for i
      using t by (auto simp: deleted(5) session_events_def filter_empty_conv intro!: filter_cong)
    have "distinct (map le_id (ss_events st'))"
      using assms t by (simp add: deleted(5) logs_ok_def distinct_map_filter)
    moreover have "session_row_of j st' = None" if "j \<in> set ks"
      using that t by (auto simp: deleted(5) session_row_of_def find_None_iff)
    ultimately show ?thesis using assms ev by (auto simp: logs_ok_def simp del: upt_Suc)
  qed
  then show "logs_ok (snd (delete_session db now k st))"
    "session_row_of j (snd (delete_session db now k st)) \<noteq> None \<Longrightarrow>
      session_events j (snd (delete_session db now k st)) = session_events j st"
    by (simp_all add: op)
qed

lemma logs_step:
  assumes "session_step env st st'" and "logs_ok st"
  shows "logs_ok st' \<and> (\<forall>k. session_row_of k st' \<noteq> None \<longrightarrow> (\<exists>new. session_events k st' = session_events k st @ new))"
proof -
  have same: ?thesis if "ss_events st' = ss_events st"
    using logs_grow_same [OF logs_grow_refl [OF assms(2)] that] by (simp add: logs_grow_def)
  have grow: ?thesis if "logs_grow st st'" using that by (simp add: logs_grow_def)
  show ?thesis
    using assms(1)
  proof (cases rule: session_step.cases)
    case (step_delete db now k)
    then show ?thesis using logs_delete [OF assms(2)] by (metis append_Nil2)
  qed (use same grow logs_append [OF assms(2)] logs_listed [OF assms(2)] logs_subagent [OF assms(2)] logs_fork [OF assms(2)]
      logs_orphaned_prompts [OF assms(2)] in simp_all)
qed

section \<open>Keys of prompts and requests\<close>

lemma update_rows_keys: "(\<And>x. key (f x) = key x) \<Longrightarrow> map key (update_rows p f xs) = map key xs"
  by (rule map_update_rows)

lemma update_row_prompts:
  "insert_session_update_row k e st = Some (n, st') \<Longrightarrow>
   \<exists>P. ss_prompts st' = update_rows P (\<lambda>p. p\<lparr>pm_updated_at := le_created_at e\<rparr>) (ss_prompts st)"
  by (auto simp: insert_session_update_row_def insert_session_event_row_def Let_def touch_prompt_def split: option.splits if_splits)

lemma event_row_tables:
  "insert_session_event_row k e st = Some (n, st') \<Longrightarrow>
   ss_prompts st' = ss_prompts st \<and> ss_subagents st' = ss_subagents st \<and> ss_base st' = ss_base st"
  by (auto simp: insert_session_event_row_def Let_def split: if_splits)

lemma report_orphans_tables:
  "report_orphans outcome next_id n now rows st = Some st' \<Longrightarrow>
   ss_prompts st' = ss_prompts st \<and> ss_subagents st' = ss_subagents st \<and>
   ps_requests (ss_base st') = ps_requests (ss_base st)"
  by (induction rows arbitrary: n st) (fastforce split: option.splits dest: event_row_tables)+

lemma write_listed_tables:
  "write_all_listed ws st = Some st' \<Longrightarrow>
   ss_prompts st' = ss_prompts st \<and> ss_subagents st' = ss_subagents st \<and> ps_requests (ss_base st') = ps_requests (ss_base st)"
proof (induction ws arbitrary: st)
  case (Cons w ws)
  then show ?case
    by (cases w) (auto simp: write_listed_def insert_stamped_tables split: option.splits)
qed simp

lemma commit_listed_tables [simp]:
  "ss_prompts (snd (commit_listed db e ws st)) = ss_prompts st" "ss_subagents (snd (commit_listed db e ws st)) = ss_subagents st"
  "ps_requests (ss_base (snd (commit_listed db e ws st))) = ps_requests (ss_base st)"
  by (auto simp: commit_listed_def insert_unscoped_event_row_def dest: write_listed_tables split: option.split if_splits)

lemma session_ops_prompts [simp]:
  "ss_prompts (snd (append_session_event_with_source jv db key now k level kind source message payload st)) = ss_prompts st"
  "ss_prompts (snd (insert_session_for_target jv db now t a input st)) = ss_prompts st"
  "ss_prompts (snd (update_session_status db now k status st)) = ss_prompts st"
  "ss_prompts (snd (update_session_status_and_cwd db now k status cwd st)) = ss_prompts st"
  "ss_prompts (snd (update_session_info jo db now k title au am st)) = ss_prompts st"
  "ss_prompts (snd (replace_session_available_commands jo db now k v st)) = ss_prompts st"
  "ss_prompts (snd (replace_session_config_options jo db now k v st)) = ss_prompts st"
  "ss_prompts (snd (rename_session_target_id db now t t' st)) = ss_prompts st"
  "ss_prompts (snd (prune_session_tombstones cutoff db st)) = ss_prompts st"
  "ss_prompts (snd (reconcile_orphaned_sessions db now target st)) = ss_prompts st"
  "ss_prompts (snd (mark_idle_sessions cutoff db now st)) = ss_prompts st"
  "ss_prompts (snd (withdraw_subagent_state db now k st)) = ss_prompts st"
  "ss_prompts (snd (close_subagent_sessions db now k st)) = ss_prompts st"
  by (auto simp: append_session_event_with_source_def insert_session_for_target_def session_ops Let_def insert_stamped_tables
      dest: event_row_tables split: option.split sum.split if_splits)

text \<open>
  A step keeps the verdict of a settled prompt, except that a settlement may replace a stall; a row whose
  session is deleted goes with it.
\<close>

definition verdict :: "prompt_row \<Rightarrow> rstr \<times> rstr option \<times> rstr option \<times> rstr option \<times> rstr option \<times> rstr option" where
  "verdict p = (pm_status p, pm_stop_reason p, pm_error_code p, pm_error_message p, pm_failure_class p, pm_failure_detail_json p)"

definition kept :: "prompt_row \<Rightarrow> prompt_row \<Rightarrow> bool" where
  "kept p q \<longleftrightarrow> pm_id q = pm_id p \<and> pm_session_id q = pm_session_id p \<and>
     (settled_text p \<longrightarrow> settled_text q \<and> (pm_status p \<noteq> lit ''stalled'' \<longrightarrow> verdict q = verdict p))"

definition prompts_kept :: "prompt_row list \<Rightarrow> prompt_row list \<Rightarrow> bool" where
  "prompts_kept ps qs \<longleftrightarrow> distinct (map pm_id qs) \<and>
     (\<forall>p \<in> set ps. (\<exists>q \<in> set qs. kept p q) \<or> pm_id p \<notin> pm_id ` set qs)"

lemma kept_refl: "kept p p"
  by (simp add: kept_def)

lemma prompts_kept_refl: "distinct (map pm_id ps) \<Longrightarrow> prompts_kept ps ps"
  using kept_refl by (auto simp: prompts_kept_def)

lemma prompts_kept_update:
  assumes "distinct (map pm_id ps)" and "\<And>p. p \<in> set ps \<Longrightarrow> P p \<Longrightarrow> kept p (f p)" and "\<And>p. pm_id (f p) = pm_id p"
  shows "prompts_kept ps (update_rows P f ps)"
  unfolding prompts_kept_def
proof (intro conjI ballI disjI1)
  show "distinct (map pm_id (update_rows P f ps))" using assms(1) by (simp add: update_rows_keys assms(3))
  show "\<exists>q \<in> set (update_rows P f ps). kept p q" if "p \<in> set ps" for p
    unfolding bex_update_rows using that assms(2) kept_refl by (intro bexI [of _ p]) auto
qed

lemma prompts_kept_add:
  assumes "distinct (map pm_id ps)" and "distinct (map pm_id qs)" and "pm_id ` set qs \<inter> pm_id ` set ps = {}"
  shows "prompts_kept ps (ps @ qs)"
  using assms kept_refl by (auto simp: prompts_kept_def)

lemma prompts_kept_filter:
  assumes "distinct (map pm_id ps)"
  shows "prompts_kept ps (filter P ps)"
proof -
  have same: "p = q" if "p \<in> set ps" "q \<in> set ps" "pm_id p = pm_id q" for p q
    using assms that by (simp add: distinct_map inj_on_def)
  show ?thesis
    unfolding prompts_kept_def
  proof (intro conjI ballI)
    show "distinct (map pm_id (filter P ps))" using assms by (rule distinct_map_filter)
    show "(\<exists>q \<in> set (filter P ps). kept p q) \<or> pm_id p \<notin> pm_id ` set (filter P ps)" if "p \<in> set ps" for p
    proof (cases "P p")
      case True
      then have "p \<in> set (filter P ps)" using that by simp
      then show ?thesis using kept_refl by blast
    next
      case False
      then show ?thesis using same [OF that] by auto
    qed
  qed
qed

lemma not_settled_in_flight: "in_flight p \<Longrightarrow> \<not> settled_text p"
  by (auto simp: in_flight_def settled_text_def lit_def)

lemma prompts_kept_touch:
  "prompts_ok st \<Longrightarrow> insert_session_update_row k e st = Some (n, st') \<Longrightarrow> prompts_kept (ss_prompts st) (ss_prompts st')"
  using update_row_prompts [of k e st n st']
  by (auto simp: prompts_ok_def kept_def verdict_def settled_text_def intro!: prompts_kept_update)

lemma copy_prompts_rows:
  "copy_prompts next_id n child ps st = Some st' \<Longrightarrow> distinct (map pm_id (ss_prompts st)) \<Longrightarrow>
   \<exists>qs. ss_prompts st' = ss_prompts st @ qs \<and> distinct (map pm_id (ss_prompts st @ qs))"
proof (induction ps arbitrary: n st)
  case (Cons p ps)
  let ?q = "p\<lparr>pm_id := next_id n, pm_session_id := child\<rparr>"
  have "copy_prompts next_id (Suc n) child ps (st\<lparr>ss_prompts := ss_prompts st @ [?q]\<rparr>) = Some st'"
    and fresh: "next_id n \<notin> pm_id ` set (ss_prompts st)"
    using Cons.prems(1) by (auto simp: list_ex_iff split: if_splits)
  from Cons.IH [OF this(1)] Cons.prems(2) fresh
  obtain qs where "ss_prompts st' = ss_prompts st @ ?q # qs" "distinct (map pm_id (ss_prompts st @ ?q # qs))" by auto
  then show ?case by blast
qed simp

lemma prompts_kept_fork:
  assumes "prompts_ok st"
  shows "prompts_kept (ss_prompts st)
    (ss_prompts (snd (insert_forked_session jv update_tag db next_prompt next_event now t a input parent held st)))"
proof (cases "insert_forked_session jv update_tag db next_prompt next_event now t a input parent held st")
  case (Pair res st')
  then show ?thesis
  proof (cases rule: fork_cases)
    case (failed err)
    then show ?thesis using Pair assms prompts_kept_refl by (simp add: prompts_ok_def)
  next
    case (forked row n st1 st2 st3 es)
    have "ss_prompts st1 = ss_prompts st" using insert_stamped_tables(7) [OF forked(2)] .
    then obtain qs where "ss_prompts st2 = ss_prompts st @ qs" "distinct (map pm_id (ss_prompts st @ qs))"
      using copy_prompts_rows [OF forked(3)] assms by (auto simp: prompts_ok_def)
    then show ?thesis
      using Pair copy_events_tables [OF forked(5)] by (auto simp: forked(6) intro!: prompts_kept_add)
  qed
qed

lemma prompts_kept_delete:
  assumes "prompts_ok st"
  shows "prompts_kept (ss_prompts st) (ss_prompts (snd (delete_session db now k st)))"
proof (cases "delete_session db now k st")
  case (Pair res st')
  then show ?thesis
  proof (cases rule: delete_session_cases)
    case same
    then show ?thesis using Pair assms prompts_kept_refl by (simp add: prompts_ok_def)
  next
    case (deleted s ks st1)
    then show ?thesis
      using Pair delete_rows_tables [OF deleted(4)] assms by (simp add: prompts_ok_def prompts_kept_filter)
  qed
qed

lemma prompts_kept_subagent:
  assumes "prompts_ok st"
  shows "prompts_kept (ss_prompts st)
    (ss_prompts (snd (record_subagent_update is_json ap db uk ua ck now ak aa k payload patch roots st)))"
proof (cases "record_subagent_update is_json ap db uk ua ck now ak aa k payload patch roots st")
  case (Pair res st')
  then show ?thesis
  proof (cases rule: subagent_update_cases)
    case (failed err)
    then show ?thesis using Pair assms prompts_kept_refl by (simp add: prompts_ok_def)
  next
    case (announced e n st1 child root historical st2 ev m st3)
    then show ?thesis
      using Pair prompts_kept_touch [OF assms announced(1)] apply_patch_tables(2) [OF announced(2)]
        event_row_tables [OF announced(3)] by simp
  next
    case (other e n st1 applied st2)
    then show ?thesis
      using Pair prompts_kept_touch [OF assms other(1)] apply_patch_tables(2) [OF other(2)] by auto
  qed
qed

text \<open>The sweep of quiet prompts stalls the listed rows that are still in flight.\<close>

lemma stall_prompts_rows:
  "ss_prompts (snd (stall_prompts now reason stuck st)) =
     update_rows (\<lambda>p. pm_id p \<in> sk_id ` set stuck \<and> in_flight p) (stalled_row now reason) (ss_prompts st)"
proof (induction stuck arbitrary: st)
  case Nil
  then show ?case by (simp add: update_rows_def)
next
  case (Cons s stuck)
  have nf: "\<not> in_flight (stalled_row now reason p)" for p by (simp add: in_flight_def stalled_row_def lit_def)
  show ?case
  proof (cases "list_ex (\<lambda>p. pm_id p = sk_id s \<and> in_flight p) (ss_prompts st)")
    case True
    then show ?thesis using Cons nf by (auto simp: split_beta update_rows_def)
  next
    case False
    then have "pm_id p \<noteq> sk_id s \<or> \<not> in_flight p" if "p \<in> set (ss_prompts st)" for p
      using that by (auto simp: list_ex_iff)
    then show ?thesis using False Cons by (auto simp: update_rows_def)
  qed
qed

lemma prompts_kept_prompt_ops:
  assumes "prompts_ok st"
  shows "prompts_kept (ss_prompts st) (ss_prompts (snd (insert_prompt_with_message_id jv db now p k pj m st)))"
    "prompts_kept (ss_prompts st) (ss_prompts (snd (acknowledge_prompt_message_id db now p mi st)))"
    "prompts_kept (ss_prompts st) (ss_prompts (snd (record_prompt_agent_message_id db now p mi st)))"
    "prompts_kept (ss_prompts st) (ss_prompts (snd (update_prompt_status db now p ps sr ec em fc fd st)))"
    "prompts_kept (ss_prompts st) (ss_prompts (snd (reconcile_orphaned_prompts outcome db next_id now reason st)))"
    "prompts_kept (ss_prompts st) (ss_prompts (snd (mark_stalled_prompts uv cutoffs db now thresholds reason st)))"
proof -
  have d: "distinct (map pm_id (ss_prompts st))" using assms by (simp add: prompts_ok_def)
  note refl = prompts_kept_refl [OF d] and upd = prompts_kept_update [OF d]
  show "prompts_kept (ss_prompts st) (ss_prompts (snd (insert_prompt_with_message_id jv db now p k pj m st)))"
    using refl d by (auto simp: insert_prompt_with_message_id_def Let_def prompt_insertable_def get_prompt_def new_prompt_def
        find_None_iff intro!: prompts_kept_add)
  show "prompts_kept (ss_prompts st) (ss_prompts (snd (acknowledge_prompt_message_id db now p mi st)))"
    "prompts_kept (ss_prompts st) (ss_prompts (snd (record_prompt_agent_message_id db now p mi st)))"
    using refl by (auto simp: acknowledge_prompt_message_id_def record_prompt_agent_message_id_def update_prompt_def
        kept_def verdict_def settled_text_def intro!: upd)
  show "prompts_kept (ss_prompts st) (ss_prompts (snd (update_prompt_status db now p ps sr ec em fc fd st)))"
    using refl by (auto simp: update_prompt_status_def kept_def intro!: upd)
  show "prompts_kept (ss_prompts st) (ss_prompts (snd (reconcile_orphaned_prompts outcome db next_id now reason st)))"
    using refl by (auto simp: reconcile_orphaned_prompts_def Let_def orphaned_prompt_def kept_def not_settled_in_flight
        split: option.split if_splits dest!: report_orphans_tables intro!: upd)
  show "prompts_kept (ss_prompts st) (ss_prompts (snd (mark_stalled_prompts uv cutoffs db now thresholds reason st)))"
    using refl by (auto simp: mark_stalled_prompts_def split_beta stall_prompts_rows stalled_row_def kept_def not_settled_in_flight
        split: sum.split intro!: upd)
qed

lemma settle_not_final:
  assumes "prompt_status_from_str w = Ok s" and "settle_verdict s replace_stalled \<noteq> AlreadyTerminal"
  shows "w \<in> {lit ''pending'', lit ''running''} \<or> w = lit ''stalled''"
  using assms by (auto simp: prompt_status_from_str_def settle_verdict_def split: if_splits)

lemma settled_row_text: "prompt_terminal (st_status s) \<Longrightarrow> settled_text (settled_row now s p)"
  by (cases "st_status s") (auto simp: prompt_terminal_def settled_text_def settled_row_def)

lemma prompts_kept_settle:
  assumes "prompts_ok st"
  shows "prompts_kept (ss_prompts st) (ss_prompts (snd (settle_prompt db now k settlement replace_stalled st)))"
proof -
  have d: "distinct (map pm_id (ss_prompts st))" using assms by (simp add: prompts_ok_def)
  have "kept q (settled_row now settlement q)"
    if "get_prompt k st = Some p" "prompt_status_from_str (pm_status p) = Ok s" "settle_verdict s replace_stalled \<noteq> AlreadyTerminal"
      "prompt_terminal (st_status settlement)" "q \<in> set (ss_prompts st)" "pm_id q = k" for p q s
  proof -
    have "q = p" using that prompts_unique [OF assms] get_prompt_Some by metis
    moreover have "settled_text p \<longrightarrow> pm_status p = lit ''stalled''"
      using settle_not_final [OF that(2,3)] by (auto simp: settled_text_def lit_def)
    ultimately show ?thesis
      using settled_row_text [OF that(4)] by (auto simp: kept_def settled_row_def)
  qed
  then show ?thesis
    using prompts_kept_refl [OF d]
    by (auto simp: settle_prompt_def Let_def settled_row_def split: option.split sum.split intro!: prompts_kept_update [OF d])
qed

lemma prompts_step:
  assumes "session_step env st st'" and "prompts_ok st"
  shows "prompts_kept (ss_prompts st) (ss_prompts st')"
proof -
  have same: ?thesis if "ss_prompts st' = ss_prompts st"
    using that prompts_kept_refl assms(2) by (simp add: prompts_ok_def)
  have update: ?thesis if "st' = snd (append_session_update is_json db key now k kind payload st)" for is_json db key now k kind payload
    using that same prompts_kept_touch [OF assms(2)] by (auto simp: append_session_update_def split: option.splits sum.splits if_splits)
  show ?thesis
    using assms(1)
    by (cases rule: session_step.cases)
      (use same update prompts_kept_fork [OF assms(2)] prompts_kept_delete [OF assms(2)] prompts_kept_subagent [OF assms(2)]
        prompts_kept_prompt_ops [OF assms(2)] prompts_kept_settle [OF assms(2)] in simp_all)
qed

section \<open>Requests\<close>

abbreviation ss_requests :: "sstore \<Rightarrow> permission_request list" where
  "ss_requests st \<equiv> ps_requests (ss_base st)"

lemma session_ops_requests [simp]:
  "ss_requests (snd (append_session_event_with_source jv db key now k level kind source message payload st)) = ss_requests st"
  "ss_requests (snd (insert_session_for_target jv db now t a input st)) = ss_requests st"
  "ss_requests (snd (update_session_status db now k status st)) = ss_requests st"
  "ss_requests (snd (update_session_status_and_cwd db now k status cwd st)) = ss_requests st"
  "ss_requests (snd (update_session_info jo db now k title au am st)) = ss_requests st"
  "ss_requests (snd (replace_session_available_commands jo db now k v st)) = ss_requests st"
  "ss_requests (snd (replace_session_config_options jo db now k v st)) = ss_requests st"
  "ss_requests (snd (rename_session_target_id db now t t' st)) = ss_requests st"
  "ss_requests (snd (prune_session_tombstones cutoff db st)) = ss_requests st"
  "ss_requests (snd (reconcile_orphaned_sessions db now target st)) = ss_requests st"
  "ss_requests (snd (mark_idle_sessions cutoff db now st)) = ss_requests st"
  "ss_requests (snd (withdraw_subagent_state db now k st)) = ss_requests st"
  "ss_requests (snd (close_subagent_sessions db now k st)) = ss_requests st"
  by (auto simp: append_session_event_with_source_def insert_session_for_target_def session_ops Let_def insert_stamped_tables
      dest: event_row_tables split: option.split sum.split if_splits)

lemma prompt_ops_requests [simp]:
  "ss_requests (snd (insert_prompt_with_message_id jv db now p k pj m st)) = ss_requests st"
  "ss_requests (snd (acknowledge_prompt_message_id db now p mi st)) = ss_requests st"
  "ss_requests (snd (record_prompt_agent_message_id db now p mi st)) = ss_requests st"
  "ss_requests (snd (update_prompt_status db now p ps sr ec em fc fd st)) = ss_requests st"
  "ss_requests (snd (settle_prompt db now p settlement rs st)) = ss_requests st"
  "ss_requests (snd (mark_stalled_prompts uv cutoffs db now thresholds reason st)) = ss_requests st"
  "ss_requests (snd (reconcile_orphaned_prompts outcome db next_id now reason st)) = ss_requests st"
  by (auto simp: prompt_ops reconcile_orphaned_prompts_def Let_def split_beta dest!: report_orphans_tables
      split: option.split sum.split if_splits)

lemma update_row_base: "insert_session_update_row k e st = Some (n, st') \<Longrightarrow> ss_requests st' = ss_requests st \<and> ss_subagents st' = ss_subagents st"
  by (auto simp: insert_session_update_row_def Let_def dest!: event_row_tables split: option.splits)

lemma update_requests [simp]:
  "ss_requests (snd (append_session_update is_json db key now k kind payload st)) = ss_requests st"
  by (auto simp: append_session_update_def dest!: update_row_base split: option.split sum.split)

lemma delete_requests [simp]: "ss_requests (snd (delete_session db now k st)) = ss_requests st"
proof (cases "delete_session db now k st")
  case (Pair res st')
  then show ?thesis
    by (cases rule: delete_session_cases) (auto simp: Pair dest!: delete_rows_tables)
qed

lemma fork_requests [simp]:
  "ss_requests (snd (insert_forked_session jv update_tag db next_prompt next_event now t a input parent held st)) = ss_requests st"
proof (cases "insert_forked_session jv update_tag db next_prompt next_event now t a input parent held st")
  case (Pair res st')
  then show ?thesis
    by (cases rule: fork_cases) (auto simp: Pair insert_stamped_tables dest!: copy_prompts_tables copy_events_tables)
qed

lemma subagent_requests [simp]:
  "ss_requests (snd (record_subagent_update is_json ap db uk ua ck now ak aa k payload patch roots st)) = ss_requests st"
proof (cases "record_subagent_update is_json ap db uk ua ck now ak aa k payload patch roots st")
  case (Pair res st')
  then show ?thesis
  proof (cases rule: subagent_update_cases)
    case (announced e n st1 child root historical st2 ev m st3)
    then show ?thesis
      using Pair update_row_base [OF announced(1)] apply_patch_tables(3) [OF announced(2)] event_row_tables [OF announced(3)] by simp
  next
    case (other e n st1 applied st2)
    then show ?thesis using Pair update_row_base [OF other(1)] apply_patch_tables(3) [OF other(2)] by auto
  qed (simp add: Pair)
qed

lemma set_status_ids [simp]: "map pr_id (ps_requests (set_status key s now b)) = map pr_id (ps_requests b)"
  by (simp add: set_status_def update_rows_keys)

lemma cancel_permissions_ids:
  "cancel_permissions next_id n now keys b = Some b' \<Longrightarrow> map pr_id (ps_requests b') = map pr_id (ps_requests b)"
  by (induction keys arbitrary: n b) (fastforce split: if_splits)+

lemma reconcile_commands_ids:
  "reconcile_commands next_id n now ids b = Some (m, b') \<Longrightarrow> map pr_id (ps_requests b') = map pr_id (ps_requests b)"
  by (induction ids arbitrary: n b) (fastforce simp: Let_def dest: cancel_permissions_ids split: option.splits)+

lemma settle_orphans_ids:
  "settle_orphans next_id n s now keys b = Some b' \<Longrightarrow> map pr_id (ps_requests b') = map pr_id (ps_requests b)"
  by (drule settle_orphans_rows) (simp add: if_distrib [of pr_id] cong: if_cong)

lemma requests_permissions:
  assumes "requests_ok st"
  shows "requests_ok (on_base (\<lambda>b. snd (append_permission_request jv db key now request b)) st)"
    "requests_ok (on_base (\<lambda>b. snd (append_approved_permission_request jv db key dk now request who why b)) st)"
    "requests_ok (on_base (\<lambda>b. snd (decide_permission db dk now decided_at key s who why b)) st)"
    "requests_ok (on_base (\<lambda>b. snd (reconcile_orphaned_permissions db next_id now b)) st)"
proof -
  have ids: "requests_ok st'" if "map pr_id (ss_requests st') = map pr_id (ss_requests st)" for st'
    using assms(1) that by (simp add: requests_ok_def)
  show "requests_ok (on_base (\<lambda>b. snd (append_permission_request jv db key now request b)) st)"
    "requests_ok (on_base (\<lambda>b. snd (append_approved_permission_request jv db key dk now request who why b)) st)"
    using assms(1) by (auto simp: requests_ok_def append_permission_request_def append_approved_permission_request_def Let_def
        has_request_def new_request_def list_ex_iff)
  show "requests_ok (on_base (\<lambda>b. snd (decide_permission db dk now decided_at key s who why b)) st)"
    by (rule ids) (auto simp: decide_permission_def Let_def split: option.split)
  show "requests_ok (on_base (\<lambda>b. snd (reconcile_orphaned_permissions db next_id now b)) st)"
    by (rule ids) (auto simp: reconcile_orphaned_permissions_def Let_def dest!: settle_orphans_ids split: option.split if_splits)
qed

lemma requests_commands:
  assumes "requests_ok st" and "cs_base cs = ss_base st"
  shows "requests_ok (st\<lparr>ss_base := cs_base (snd (reconcile_orphaned_commands db next_id now cs))\<rparr>)"
  using assms by (auto simp: requests_ok_def reconcile_orphaned_commands_def Let_def dest!: reconcile_commands_ids
      split: option.split if_splits)

lemma requests_step:
  assumes "session_step env st st'" and "requests_ok st"
  shows "requests_ok st'"
proof -
  have same: ?thesis if "ss_requests st' = ss_requests st" using that assms(2) by (simp add: requests_ok_def)
  show ?thesis
    using assms(1)
    by (cases rule: session_step.cases) (use same requests_permissions [OF assms(2)] requests_commands [OF assms(2)] in simp_all)
qed

section \<open>Every step tracks\<close>

lemma tracks_cancel_permissions:
  assumes "cancel_permissions next_id n now keys (ss_base st) = Some b" and "tracks {} st0 st" and "requests_ok st"
    and "\<forall>key \<in> set keys. \<exists>r \<in> set (ss_requests st). pr_id r = key \<and> pr_source r \<noteq> lit ''acp''"
  shows "tracks {} st0 (st\<lparr>ss_base := b\<rparr>)"
  using assms
proof (induction keys arbitrary: n st)
  case (Cons key keys)
  let ?b = "cancelled_row (ss_base st) (next_id n) key now"
  obtain r where "r \<in> set (ss_requests st)" "pr_id r = key" "pr_source r \<noteq> lit ''acp''"
    using Cons.prems(4) by auto
  then have "tracks {} st0 (st\<lparr>ss_base := set_status key PCanceled now (ss_base st)\<rparr>)"
    using no_acp_request [OF Cons.prems(3)] by (auto intro!: tracks_base [OF Cons.prems(2)])
  then have t: "tracks {} st0 (st\<lparr>ss_base := ?b\<rparr>)"
    unfolding base_simps by (intro tracks_log tracks_add_decision)
  have rows: "ss_requests (st\<lparr>ss_base := ?b\<rparr>) = map (\<lambda>r. if pr_id r = key then stamp PCanceled now r else r) (ss_requests st)"
    by (simp add: set_status_map)
  have "tracks {} st0 (st\<lparr>ss_base := ?b, ss_base := b\<rparr>)"
  proof (rule Cons.IH [OF _ t])
    show "cancel_permissions next_id (Suc n) now keys (ss_base (st\<lparr>ss_base := ?b\<rparr>)) = Some b"
      using Cons.prems(1) by (simp split: if_splits)
    show "requests_ok (st\<lparr>ss_base := ?b\<rparr>)" using Cons.prems(3) by (simp add: requests_ok_def)
    show "\<forall>k \<in> set keys. \<exists>r \<in> set (ss_requests (st\<lparr>ss_base := ?b\<rparr>)). pr_id r = k \<and> pr_source r \<noteq> lit ''acp''"
      using Cons.prems(4) unfolding rows bex_map by (auto simp: if_distrib [of pr_id] if_distrib [of pr_source] cong: if_cong)
  qed
  then show ?case by simp
next
  case Nil
  then have "b = ss_base st" by simp
  then show ?case using Nil(2) by simp
qed

lemma tracks_reconcile_commands:
  assumes "reconcile_commands next_id n now ids (ss_base st) = Some (m, b)" and "tracks {} st0 st" and "requests_ok st"
  shows "tracks {} st0 (st\<lparr>ss_base := b\<rparr>)"
  using assms
proof (induction ids arbitrary: n st)
  case (Cons cid ids)
  let ?keys = "command_permission_ids cid (ss_base st)"
  obtain b1 where b1: "cancel_permissions next_id n now ?keys (ss_base st) = Some b1"
    and rest: "reconcile_commands next_id (n + length ?keys) now ids (log_row (lit ''commands'') cid now b1) = Some (m, b)"
    using Cons.prems(1) by (auto simp: Let_def split: option.splits)
  let ?st = "st\<lparr>ss_base := log_row (lit ''commands'') cid now b1\<rparr>"
  have "lit ''command'' \<noteq> lit ''acp''" by (simp add: lit_def)
  then have "tracks {} st0 (st\<lparr>ss_base := b1\<rparr>)"
    by (intro tracks_cancel_permissions [OF b1 Cons.prems(2,3)]) (auto simp: command_permission_ids_def)
  then have "tracks {} st0 ?st" unfolding base_simps by (rule tracks_log)
  moreover have "requests_ok ?st" using Cons.prems(3) cancel_permissions_ids [OF b1] by (simp add: requests_ok_def)
  ultimately have "tracks {} st0 (?st\<lparr>ss_base := b\<rparr>)" using Cons.IH [of _ ?st] rest by simp
  then show ?case by simp
next
  case Nil
  then have "b = ss_base st" by simp
  then show ?case using Nil(2) by simp
qed

lemma tracks_orphaned_commands:
  assumes "cs_base cs = ss_base st" and "feed_ok st" and "requests_ok st"
  shows "tracks {} st (st\<lparr>ss_base := cs_base (snd (reconcile_orphaned_commands db next_id now cs))\<rparr>)"
  using tracks_refl [OF assms(2)] tracks_reconcile_commands [OF _ tracks_refl [OF assms(2)] assms(3)] assms(1)
  by (auto simp: reconcile_orphaned_commands_def Let_def split: option.split if_splits)

lemma tracks_outbox: "feed_ok st \<Longrightarrow> tracks {} st (on_base (\<lambda>b. b\<lparr>ps_outbox := ob\<rparr>) st)"
  unfolding on_base_def by (rule tracks_base [OF tracks_refl]) (simp_all add: acp_requests_def)

lemma feed_step:
  assumes "session_step env st st'" and "feed_ok st" and "prompts_ok st" and "requests_ok st"
  shows "tracks {} st st'"
  using assms(1)
proof (cases rule: session_step.cases)
  case (step_orphaned_commands cs db next_id now)
  then show ?thesis using tracks_orphaned_commands assms(2,4) by simp
qed (use assms(2-4) tracks_append_event tracks_append_update tracks_insert_session tracks_session_updates tracks_replace_metadata tracks_commit_listed
    tracks_rename tracks_delete_session tracks_prune tracks_reconcile_sessions tracks_idle tracks_record_subagent tracks_subagent_sweeps
    tracks_fork tracks_insert_prompt tracks_prompt_updates tracks_reconcile_prompts tracks_stalled tracks_permissions
    tracks_reconcile_permissions tracks_outbox
    in \<open>simp_all add: replace_session_available_commands_def replace_session_config_options_def\<close>)

end
