(* ===== verification/Session_Invariants.thy ===== *)
theory Session_Invariants
  imports Session_System
begin

text \<open>
  The trees of subagents (\<^verbatim>\<open>src/state/sessions/subagents.rs\<close>): what an announcement, an adoption and a deletion
  do to them, and that every other write leaves them alone.  \<open>tree_ok\<close> holds the foreign keys of the table
  and that every subagent hangs below its root; with the invariants of \<open>Session_System\<close> it is the invariant
  \<open>store_ok\<close> of the whole store.
\<close>

section \<open>Trees of subagents\<close>

text \<open>The key, the parent and the root of each announced subagent; none of them changes once announced.\<close>

definition edges :: "sstore \<Rightarrow> (rstr \<times> rstr \<times> rstr) list" where
  "edges st = map (\<lambda>a. (sa_session_id a, sa_parent_session_id a, sa_root_session_id a)) (ss_subagents st)"

definition row_ids :: "sstore \<Rightarrow> rstr set" where
  "row_ids st = se_id ` set (ss_sessions st)"

inductive under :: "(rstr \<times> rstr \<times> rstr) set \<Rightarrow> rstr \<Rightarrow> rstr \<Rightarrow> bool" for E where
  below_root: "(k, r, r) \<in> E \<Longrightarrow> under E r k"
| below_child: "(k, p, r) \<in> E \<Longrightarrow> under E r p \<Longrightarrow> under E r k"

definition tree_ok :: "sstore \<Rightarrow> bool" where
  "tree_ok st \<longleftrightarrow> distinct (map fst (edges st)) \<and>
     (\<forall>(k, p, r) \<in> set (edges st). k \<in> row_ids st \<and> r \<in> row_ids st \<and> under (set (edges st)) r k \<and> r \<notin> fst ` set (edges st))"

lemma under_mono: "under E r k \<Longrightarrow> E \<subseteq> F \<Longrightarrow> under F r k"
  by (induction rule: under.induct) (auto intro: under.intros)

lemma under_edge: "under E r k \<Longrightarrow> \<exists>p. (k, p, r) \<in> E"
  by (induction rule: under.induct) auto

lemma under_headed: "under E r k \<Longrightarrow> \<exists>j. (j, r, r) \<in> E"
  by (induction rule: under.induct) auto

lemma under_parent: "under E r k \<Longrightarrow> \<exists>p. (k, p, r) \<in> E \<and> (p = r \<or> under E r p)"
  by (induction rule: under.induct) auto

lemma under_restrict:
  assumes "under E r k" and "k \<in> K" and "\<And>j p. (j, p, r) \<in> E \<Longrightarrow> j \<in> K \<Longrightarrow> p = r \<or> p \<in> K"
  shows "under {e \<in> E. fst e \<in> K} r k"
  using assms
proof (induction rule: under.induct)
  case (below_child k p r)
  then have "under {e \<in> E. fst e \<in> K} r p \<or> p = r" by blast
  then show ?case using below_child.hyps(1) below_child.prems(1) by (auto intro: under.intros)
qed (auto intro: under.intros)

lemma tree_okD:
  assumes "tree_ok st" and "(k, p, r) \<in> set (edges st)"
  shows "k \<in> row_ids st" "r \<in> row_ids st" "under (set (edges st)) r k" "r \<notin> fst ` set (edges st)"
    "(k, q, s) \<in> set (edges st) \<Longrightarrow> q = p \<and> s = r" "p = r \<or> (\<exists>q. (p, q, r) \<in> set (edges st))"
proof -
  show *: "k \<in> row_ids st" "r \<in> row_ids st" "under (set (edges st)) r k" "r \<notin> fst ` set (edges st)"
    using assms by (auto simp: tree_ok_def)
  have d: "(k, q, s) \<in> set (edges st) \<Longrightarrow> q = p \<and> s = r" for q s
  proof -
    have "inj_on fst (set (edges st))" using assms(1) by (simp add: tree_ok_def distinct_map)
    from inj_onD [OF this _ _ assms(2)] show "(k, q, s) \<in> set (edges st) \<Longrightarrow> q = p \<and> s = r" by fastforce
  qed
  then show "(k, q, s) \<in> set (edges st) \<Longrightarrow> q = p \<and> s = r" .
  show "p = r \<or> (\<exists>q. (p, q, r) \<in> set (edges st))"
    using under_parent [OF *(3)] d under_edge by blast
qed

lemma tree_okI:
  assumes "distinct (map fst (edges st))"
    and "\<And>k p r. (k, p, r) \<in> set (edges st) \<Longrightarrow>
      k \<in> row_ids st \<and> r \<in> row_ids st \<and> under (set (edges st)) r k \<and> r \<notin> fst ` set (edges st)"
  shows "tree_ok st"
  using assms unfolding tree_ok_def by blast

lemma tree_ok_same: "tree_ok st \<Longrightarrow> edges st' = edges st \<Longrightarrow> row_ids st \<subseteq> row_ids st' \<Longrightarrow> tree_ok st'"
  by (auto simp: tree_ok_def)

text \<open>A new leaf below a known session.\<close>

lemma tree_ok_leaf:
  assumes "tree_ok st" and "edges st' = edges st @ [(k, p, r)]" and "row_ids st \<subseteq> row_ids st'"
    and "k \<in> row_ids st'" and "k \<noteq> r" and "k \<notin> fst ` set (edges st)" and "\<forall>(j, q, s) \<in> set (edges st). s \<noteq> k"
    and "r \<in> row_ids st'" and "r \<notin> fst ` set (edges st)" and "p = r \<or> (\<exists>q. (p, q, r) \<in> set (edges st))"
  shows "tree_ok st'"
proof -
  have E: "set (edges st') = insert (k, p, r) (set (edges st))" using assms(2) by simp
  have u: "under (set (edges st')) s j" if "(j, q, s) \<in> set (edges st)" for j q s
    by (rule under_mono [OF tree_okD(3) [OF assms(1) that]]) (auto simp: E)
  have "under (set (edges st')) r k"
  proof (cases "p = r")
    case True
    then show ?thesis by (intro below_root) (simp add: E)
  next
    case False
    then obtain q where "(p, q, r) \<in> set (edges st)" using assms(10) by auto
    from u [OF this] show ?thesis by (intro below_child [of k p r]) (simp_all add: E)
  qed
  then have new: "k \<in> row_ids st' \<and> r \<in> row_ids st' \<and> under (set (edges st')) r k \<and> r \<notin> fst ` set (edges st')"
    using assms(4,5,8,9) by (simp add: E)
  have old: "j \<in> row_ids st' \<and> s \<in> row_ids st' \<and> under (set (edges st')) s j \<and> s \<notin> fst ` set (edges st')"
    if "(j, q, s) \<in> set (edges st)" for j q s
  proof -
    have "s \<noteq> k" using assms(7) that by blast
    then have "s \<notin> fst ` set (edges st')" using tree_okD(4) [OF assms(1) that] by (simp add: E)
    then show ?thesis using u [OF that] tree_okD(1,2) [OF assms(1) that] assms(3) by blast
  qed
  show ?thesis
  proof (rule tree_okI)
    show "distinct (map fst (edges st'))" using assms(1,2,6) by (simp add: tree_ok_def)
  next
    fix j q s assume "(j, q, s) \<in> set (edges st')"
    then consider "j = k" "s = r" | "(j, q, s) \<in> set (edges st)" by (auto simp: E)
    then show "j \<in> row_ids st' \<and> s \<in> row_ids st' \<and> under (set (edges st')) s j \<and> s \<notin> fst ` set (edges st')"
      using new old by cases blast+
  qed
qed

lemma tree_ok_remove:
  assumes "tree_ok st" and "edges st' = filter (\<lambda>e. fst e \<in> K) (edges st)"
    and "\<And>j p r. (j, p, r) \<in> set (edges st) \<Longrightarrow> j \<in> K \<Longrightarrow> (p = r \<or> p \<in> K) \<and> j \<in> row_ids st' \<and> r \<in> row_ids st'"
  shows "tree_ok st'"
proof -
  have E: "set (edges st') = {e \<in> set (edges st). fst e \<in> K}" using assms(2) by auto
  show ?thesis
  proof (rule tree_okI)
    show "distinct (map fst (edges st'))" using assms(1,2) by (simp add: tree_ok_def distinct_map_filter)
  next
    fix k p r assume "(k, p, r) \<in> set (edges st')"
    then have e: "(k, p, r) \<in> set (edges st)" "k \<in> K" by (simp_all add: E)
    have "under (set (edges st')) r k"
      unfolding E using assms(3) by (intro under_restrict [OF tree_okD(3) [OF assms(1) e(1)] e(2)]) blast
    moreover have "r \<notin> fst ` set (edges st')" using tree_okD(4) [OF assms(1) e(1)] by (auto simp: E)
    ultimately show "k \<in> row_ids st' \<and> r \<in> row_ids st' \<and> under (set (edges st')) r k \<and> r \<notin> fst ` set (edges st')"
      using assms(3) [OF e] by blast
  qed
qed

section \<open>Which operations leave the trees alone\<close>

lemma edges_cong: "ss_subagents st' = ss_subagents st \<Longrightarrow> edges st' = edges st"
  by (simp add: edges_def)

lemma edges_set_subagents:
  "(\<And>a. sa_session_id (f a) = sa_session_id a \<and> sa_parent_session_id (f a) = sa_parent_session_id a \<and>
     sa_root_session_id (f a) = sa_root_session_id a) \<Longrightarrow> edges (set_subagents p f st) = edges st"
  by (simp add: edges_def update_rows_def)

lemma edges_tables [simp]:
  "edges (bump_change k st) = edges st" "edges (bump_changes ks st) = edges st" "edges (log_change t i now st) = edges st"
  "edges (log_changes t ks now st) = edges st" "edges (set_sessions p g st) = edges st" "edges (set_prompts q h st) = edges st"
  "edges (on_base f st) = edges st" "edges (bump_prompt_session_change k st) = edges st" "edges (touch_prompt now target st) = edges st"
  by (simp_all add: edges_def)

lemma row_ids_bump [simp]: "row_ids (bump_change k st) = row_ids st" "row_ids (bump_changes ks st) = row_ids st"
proof -
  have *: "row_ids (bump_change k st) = row_ids st" for k st
  proof -
    have "map se_id (ss_sessions (bump_change k st)) = map se_id (ss_sessions st)" by (simp add: bump_change_rows)
    then show ?thesis unfolding row_ids_def by (metis set_map)
  qed
  then show "row_ids (bump_change k st) = row_ids st" .
  show "row_ids (bump_changes ks st) = row_ids st"
    unfolding bump_changes_def by (induction ks arbitrary: st) (simp_all add: *)
qed

lemma row_ids_tables [simp]:
  "row_ids (log_change t i now st) = row_ids st" "row_ids (log_changes t ks now st) = row_ids st"
  "row_ids (set_prompts q h st) = row_ids st" "row_ids (touch_prompt now target st) = row_ids st"
  "row_ids (set_subagents u v st) = row_ids st"
  by (simp_all add: row_ids_def)

lemma row_ids_bump_prompt [simp]: "row_ids (bump_prompt_session_change k st) = row_ids st"
  by (simp add: bump_prompt_session_change_def split: option.split)

lemma row_ids_set_sessions [simp]: "(\<And>r. se_id (f r) = se_id r) \<Longrightarrow> row_ids (set_sessions p f st) = row_ids st"
  using map_update_rows [of se_id f p "ss_sessions st"] by (simp add: row_ids_def flip: set_map)

lemma row_ids_insert: "insert_stamped row st = Some (n, st') \<Longrightarrow> row_ids st' = insert (se_id row) (row_ids st) \<and> se_id row \<notin> row_ids st"
  using insert_stamped_tables(1,10) [of row st n st'] by (auto simp: row_ids_def session_row_of_def find_None_iff)

lemma edges_insert: "insert_stamped row st = Some (n, st') \<Longrightarrow> edges st' = edges st"
  by (simp add: edges_def insert_stamped_tables)

text \<open>What an operation may do to the rows when it announces nothing and deletes nothing.\<close>

definition leaves_trees :: "sstore \<Rightarrow> sstore \<Rightarrow> bool" where
  "leaves_trees st st' \<longleftrightarrow> edges st' = edges st \<and> row_ids st \<subseteq> row_ids st'"

lemma leaves_refl: "leaves_trees st st"
  by (simp add: leaves_trees_def)

lemma event_row_leaves: "insert_session_event_row k e st = Some (n, st') \<Longrightarrow> edges st' = edges st \<and> row_ids st' = row_ids st"
  by (drule event_row_tables) (simp add: edges_def row_ids_def)

lemma update_row_leaves: "insert_session_update_row k e st = Some (n, st') \<Longrightarrow> edges st' = edges st \<and> row_ids st' = row_ids st"
proof -
  assume "insert_session_update_row k e st = Some (n, st')"
  then obtain st1 where "insert_session_event_row k e st = Some (n, st1)" "edges st' = edges st1" "row_ids st' = row_ids st1"
    by (force simp: insert_session_update_row_def Let_def split: option.splits)
  then show ?thesis using event_row_leaves [of k e st n st1] by simp
qed

lemma leaves_events:
  "leaves_trees st (snd (append_session_event_with_source jv db key now k level kind source message payload st))"
  "leaves_trees st (snd (append_session_update is_json db key now k kind payload st))"
  "leaves_trees st (snd (insert_session_for_target jv db now t a input st))"
  by (auto simp: leaves_trees_def append_session_event_with_source_def append_session_update_def insert_session_for_target_def Let_def
      edges_insert row_ids_insert dest!: event_row_leaves update_row_leaves split: option.split sum.split if_splits)

lemma leaves_sessions:
  "leaves_trees st (snd (update_session_status db now k status st))"
  "leaves_trees st (snd (update_session_status_and_cwd db now k status cwd st))"
  "leaves_trees st (snd (update_session_info jo db now k title au am st))"
  "leaves_trees st (snd (replace_session_available_commands jo db now k v st))"
  "leaves_trees st (snd (replace_session_config_options jo db now k v st))"
  "leaves_trees st (snd (rename_session_target_id db now t t' st))"
  "leaves_trees st (snd (prune_session_tombstones cutoff db st))"
  "leaves_trees st (snd (reconcile_orphaned_sessions db now target st))"
  "leaves_trees st (snd (mark_idle_sessions cutoff db now st))"
  "leaves_trees st (snd (withdraw_subagent_state db now k st))"
  "leaves_trees st (snd (close_subagent_sessions db now k st))"
  by (auto simp: leaves_trees_def session_ops Let_def edges_set_subagents split: option.split sum.split)
    (simp_all add: edges_def row_ids_def)

lemma leaves_trans: "leaves_trees st st1 \<Longrightarrow> leaves_trees st1 st2 \<Longrightarrow> leaves_trees st st2"
  by (auto simp: leaves_trees_def)

lemma write_listed_leaves: "write_all_listed ws st = Some st' \<Longrightarrow> leaves_trees st st'"
proof (induction ws arbitrary: st)
  case (Cons w ws)
  then obtain st1 where "write_listed w st = Some st1" and rest: "write_all_listed ws st1 = Some st'" by (auto split: option.splits)
  then have "leaves_trees st st1"
    by (cases w) (auto simp: write_listed_def leaves_trees_def edges_insert row_ids_insert)
  then show ?case using Cons.IH [OF rest] by (rule leaves_trans)
qed (simp add: leaves_refl)

lemma leaves_log: "leaves_trees st (log_change t i now st') \<longleftrightarrow> leaves_trees st st'"
  by (simp add: leaves_trees_def)

lemma leaves_listed: "leaves_trees st (snd (commit_listed db e ws st))"
proof -
  have row: "leaves_trees st st2" if "leaves_trees st st1" "insert_unscoped_event_row ev st1 = Some st2" for ev st1 st2
    using that by (simp add: insert_unscoped_event_row_def leaves_trees_def edges_def row_ids_def split: if_splits) auto
  show ?thesis
    by (simp add: commit_listed_def leaves_refl leaves_log write_listed_leaves row [OF write_listed_leaves]
        split: option.split)
qed

lemma leaves_fork:
  "leaves_trees st (snd (insert_forked_session jv update_tag db next_prompt next_event now t a input parent held st))"
proof (cases "insert_forked_session jv update_tag db next_prompt next_event now t a input parent held st")
  case (Pair res st')
  then show ?thesis
  proof (cases rule: fork_cases)
    case (forked row n st1 st2 st3 es)
    then show ?thesis
      using Pair insert_stamped_tables [OF forked(2)] copy_prompts_tables [OF forked(3)] copy_events_tables [OF forked(5)]
      by (auto simp: leaves_trees_def edges_def row_ids_def)
  qed (simp add: Pair leaves_refl)
qed

lemma report_orphans_leaves:
  "report_orphans outcome next_id n now rows st = Some st' \<Longrightarrow> edges st' = edges st \<and> row_ids st' = row_ids st"
proof (induction rows arbitrary: n st)
  case (Cons row rows)
  obtain p s where row: "row = (p, s)" by (cases row)
  with Cons.prems(1) obtain m st1
    where st1: "insert_session_event_row s (orphan_event outcome (next_id n) now p s) st = Some (m, st1)"
      and rest: "report_orphans outcome next_id (Suc n) now rows (log_change (lit ''events'') (next_id n) now
        (log_change (lit ''prompts'') p now (bump_change s st1))) = Some st'"
    by (auto split: option.splits)
  then show ?case using Cons.IH [OF rest] event_row_leaves [OF st1] by simp
qed simp

lemma stall_leaves:
  "edges (snd (stall_prompts now reason stuck st)) = edges st" "row_ids (snd (stall_prompts now reason stuck st)) = row_ids st"
  by (induction stuck arbitrary: st) (simp_all add: split_beta)

lemma leaves_prompts:
  "leaves_trees st (snd (insert_prompt_with_message_id jv db now p k pj m st))"
  "leaves_trees st (snd (acknowledge_prompt_message_id db now p mi st))"
  "leaves_trees st (snd (record_prompt_agent_message_id db now p mi st))"
  "leaves_trees st (snd (update_prompt_status db now p ps sr ec em fc fd st))"
  "leaves_trees st (snd (settle_prompt db now p settlement rs st))"
  "leaves_trees st (snd (mark_stalled_prompts uv cutoffs db now thresholds reason st))"
  by (auto simp: leaves_trees_def prompt_ops Let_def split_beta stall_leaves split: option.split sum.split)
    (simp_all add: edges_def row_ids_def)

lemma leaves_orphaned_prompts: "leaves_trees st (snd (reconcile_orphaned_prompts outcome db next_id now reason st))"
proof -
  have "leaves_trees st st'" if "report_orphans outcome next_id 0 now rows (set_prompts q f st) = Some st'" for rows q f st'
    using report_orphans_leaves [OF that] by (simp add: leaves_trees_def)
  then show ?thesis by (simp add: reconcile_orphaned_prompts_def Let_def leaves_refl split: option.split)
qed

lemma base_row_ids:
  "map se_id (ps_sessions (bump_session_change k b)) = map se_id (ps_sessions b)"
  "map se_id (ps_sessions (bump_acp_permission_session key b)) = map se_id (ps_sessions b)"
proof -
  show *: "map se_id (ps_sessions (bump_session_change k b)) = map se_id (ps_sessions b)" for k b
    by (simp add: bump_session_change_def map_update_rows)
  show "map se_id (ps_sessions (bump_acp_permission_session key b)) = map se_id (ps_sessions b)"
    by (simp add: bump_acp_permission_session_def * split: option.split)
qed

lemma log_row_sessions [simp]: "ps_sessions (log_row t i now b) = ps_sessions b" "ps_sessions (add_decision d b) = ps_sessions b"
  by (simp_all add: log_row_def add_decision_def)

lemma settle_orphans_row_ids:
  "settle_orphans next_id n s now keys b = Some b' \<Longrightarrow> map se_id (ps_sessions b') = map se_id (ps_sessions b)"
  by (induction keys arbitrary: n b) (fastforce simp: settle_orphan_def base_row_ids split: if_splits)+

lemma cancel_permissions_row_ids:
  "cancel_permissions next_id n now keys b = Some b' \<Longrightarrow> ps_sessions b' = ps_sessions b"
  by (induction keys arbitrary: n b) (fastforce split: if_splits)+

lemma reconcile_commands_row_ids:
  "reconcile_commands next_id n now ids b = Some (m, b') \<Longrightarrow> ps_sessions b' = ps_sessions b"
  by (induction ids arbitrary: n b) (fastforce simp: Let_def dest: cancel_permissions_row_ids split: option.splits)+

lemma leaves_base: "map se_id (ps_sessions b) = map se_id (ss_sessions st) \<Longrightarrow> leaves_trees st (st\<lparr>ss_base := b\<rparr>)"
  by (simp add: leaves_trees_def edges_def row_ids_def) (metis set_map subset_refl)

lemma leaves_permissions:
  "leaves_trees st (on_base (\<lambda>b. snd (append_permission_request jv db key now request b)) st)"
  "leaves_trees st (on_base (\<lambda>b. snd (append_approved_permission_request jv db key dk now request who why b)) st)"
  "leaves_trees st (on_base (\<lambda>b. snd (decide_permission db dk now decided_at key s who why b)) st)"
  "leaves_trees st (on_base (\<lambda>b. snd (reconcile_orphaned_permissions db next_id now b)) st)"
  "leaves_trees st (on_base (\<lambda>b. b\<lparr>ps_outbox := ob\<rparr>) st)"
  unfolding on_base_def
  by (rule leaves_base, simp add: append_permission_request_def append_approved_permission_request_def decide_permission_def
      reconcile_orphaned_permissions_def Let_def base_row_ids settle_orphans_row_ids split: option.split)+

lemma leaves_orphaned_commands:
  "cs_base cs = ss_base st \<Longrightarrow> leaves_trees st (st\<lparr>ss_base := cs_base (snd (reconcile_orphaned_commands db next_id now cs))\<rparr>)"
  by (rule leaves_base) (simp add: reconcile_orphaned_commands_def Let_def reconcile_commands_row_ids split: option.split prod.split)

section \<open>Announcing and deleting\<close>

lemma subagent_on_edges: "subagent_on k st = None \<longleftrightarrow> k \<notin> fst ` set (edges st)"
  "subagent_on k st = Some a \<Longrightarrow> (k, sa_parent_session_id a, sa_root_session_id a) \<in> set (edges st)"
  by (auto simp: subagent_on_def edges_def find_None_iff find_Some_iff image_image)

lemma root_of_edges:
  assumes "tree_ok st" and "p \<in> row_ids st"
  shows "root_of p st \<in> row_ids st" "root_of p st \<notin> fst ` set (edges st)"
    "p = root_of p st \<or> (\<exists>q. (p, q, root_of p st) \<in> set (edges st))"
proof -
  have "root_of p st \<in> row_ids st \<and> root_of p st \<notin> fst ` set (edges st) \<and>
    (p = root_of p st \<or> (\<exists>q. (p, q, root_of p st) \<in> set (edges st)))"
  proof (cases "subagent_on p st")
    case None
    moreover from None have "p \<notin> fst ` set (edges st)" by (simp add: subagent_on_edges(1))
    ultimately show ?thesis using assms(2) by (simp add: root_of_def)
  next
    case (Some a)
    from subagent_on_edges(2) [OF this] show ?thesis
      using tree_okD(2,4) [OF assms(1)] Some by (simp add: root_of_def) blast
  qed
  then show "root_of p st \<in> row_ids st" "root_of p st \<notin> fst ` set (edges st)"
    "p = root_of p st \<or> (\<exists>q. (p, q, root_of p st) \<in> set (edges st))" by blast+
qed

lemma row_of_ids: "session_row_of k st = Some r \<Longrightarrow> k \<in> row_ids st \<and> se_id r = k"
  by (auto simp: session_row_of_def row_ids_def find_Some_iff)

lemma tree_apply_patch:
  assumes "apply_subagent_patch key now parent_id patch roots st = Ok (applied, st')" and "tree_ok st"
  shows "tree_ok st'"
  using assms(1)
proof (cases rule: apply_patch_cases)
  case (rejected reason)
  then show ?thesis using assms(2) by simp
next
  case (updated parent child s st1 st2 historical)
  have "st1 = st" using updated(3) by (cases rule: resolve_child_found) auto
  then show ?thesis
    using assms(2) by (intro tree_ok_same [OF assms(2)]) (simp_all add: updated(4,6) edges_set_subagents)
next
  case (announced parent child st1 st2 historical)
  let ?r = "root_of parent_id st"
  have p: "parent_id \<in> row_ids st" using row_of_ids [OF announced(1)] by simp
  note r = root_of_edges [OF assms(2) p]
  have "edges st1 = edges st \<and> row_ids st \<subseteq> row_ids st1 \<and> child \<in> row_ids st1 \<and> child \<noteq> ?r \<and> child \<notin> fst ` set (edges st) \<and>
    (\<forall>(j, q, s) \<in> set (edges st). s \<noteq> child)"
    using announced(3)
  proof (cases rule: resolve_child_found)
    case (created n)
    then have ids: "row_ids st1 = insert child (row_ids st)" "child \<notin> row_ids st"
      using row_ids_insert [OF created(3)] by (simp_all add: child_row_def)
    then show ?thesis
      using edges_insert [OF created(3)] r(1) tree_okD(1,2) [OF assms(2)] by fastforce
  next
    case (known q s)
    then show ?thesis by simp
  next
    case (adopted q)
    have "s \<noteq> child" if e: "(j, p, s) \<in> set (edges st)" for j p s
    proof
      assume "s = child"
      then obtain i where "(i, child, child) \<in> set (edges st)"
        using under_headed tree_okD(3) [OF assms(2) e] by blast
      then show False using adopted(8) by (auto simp: edges_def)
    qed
    moreover have "child \<in> row_ids st" using adopted(1,2) by (auto simp: session_by_agent_id_def find_Some_iff row_ids_def)
    ultimately show ?thesis using adopted(4,6,9) subagent_on_edges(1) by auto
  qed
  moreover have "edges st2 = edges st1" "row_ids st2 = row_ids st1" by (simp_all add: announced(4))
  then have "edges st' = edges st1 @ [(child, parent_id, ?r)]" "row_ids st' = row_ids st1"
    unfolding announced(6) by (simp_all add: edges_def row_ids_def announced_row_def)
  ultimately show ?thesis
    using r by (intro tree_ok_leaf [OF assms(2), of st' child parent_id ?r]) auto
qed

lemma tree_record_subagent:
  assumes "tree_ok st"
  shows "tree_ok (snd (record_subagent_update is_json ap db uk ua ck now ak aa k payload patch roots st))"
proof (cases "record_subagent_update is_json ap db uk ua ck now ak aa k payload patch roots st")
  case (Pair res st')
  have row: "tree_ok st1" if "insert_session_update_row k e st = Some (n, st1)" for e n st1
    using update_row_leaves [OF that] by (intro tree_ok_same [OF assms]) simp_all
  from Pair show ?thesis
  proof (cases rule: subagent_update_cases)
    case (failed err)
    then show ?thesis using Pair assms by simp
  next
    case (announced e n st1 child root historical st2 ev m st3)
    have "tree_ok st2" using tree_apply_patch [OF announced(2) row [OF announced(1)]] .
    then show ?thesis
      using event_row_leaves [OF announced(3)] by (auto simp: Pair announced(4) intro: tree_ok_same)
  next
    case (other e n st1 applied st2)
    have "tree_ok st2" using tree_apply_patch [OF other(2) row [OF other(1)]] .
    then have "tree_ok (log_change t i at_time st2)" for t i at_time by (rule tree_ok_same) simp_all
    then show ?thesis using \<open>tree_ok st2\<close> other(3) Pair by auto
  qed
qed

text \<open>The foreign keys: a row goes only when no other row is below it.\<close>

lemma delete_rows_leaves:
  "delete_rows now ks st = Some st' \<Longrightarrow> a \<in> set (ss_subagents st) \<Longrightarrow> sa_session_id a \<notin> set ks \<Longrightarrow>
   sa_parent_session_id a \<notin> set ks \<and> sa_root_session_id a \<notin> set ks"
proof (induction ks arbitrary: st)
  case (Cons k ks)
  then obtain st1 where st1: "delete_row now k st = Some st1" and rest: "delete_rows now ks st1 = Some st'"
    by (auto split: option.splits)
  have "sa_parent_session_id a \<noteq> k \<and> sa_root_session_id a \<noteq> k"
    using st1 Cons.prems by (auto simp: delete_row_def list_ex_iff split: if_splits)
  moreover have "a \<in> set (ss_subagents st1)"
    using Cons.prems delete_row_tables [OF st1] by simp
  ultimately show ?case using Cons.IH [OF rest] Cons.prems by simp
qed simp

lemma delete_rows_ok:
  "\<forall>a \<in> set (ss_subagents st). sa_parent_session_id a \<notin> set ks \<and> sa_root_session_id a \<notin> set ks \<Longrightarrow>
   \<exists>st'. delete_rows now ks st = Some st'"
proof (induction ks arbitrary: st)
  case (Cons k ks)
  then obtain st1 where st1: "delete_row now k st = Some st1"
    by (auto simp: delete_row_def list_ex_iff)
  moreover have "set (ss_subagents st1) \<subseteq> set (ss_subagents st)" using delete_row_tables [OF st1] by auto
  then have "\<exists>st'. delete_rows now ks st1 = Some st'" using Cons.prems by (intro Cons.IH) auto
  ultimately show ?case by simp
qed simp

lemma subagent_ids_edges: "j \<in> set (subagent_ids_of_root k st) \<longleftrightarrow> (\<exists>p. (j, p, k) \<in> set (edges st))"
  by (auto simp: subagent_ids_of_root_def edges_def image_iff)

lemma edge_row: "e \<in> set (edges st) \<Longrightarrow> \<exists>a \<in> set (ss_subagents st). e = (sa_session_id a, sa_parent_session_id a, sa_root_session_id a)"
  by (auto simp: edges_def)

lemma edges_filter:
  "edges (st\<lparr>ss_subagents := filter (\<lambda>a. P (sa_session_id a)) (ss_subagents st)\<rparr>) = filter (\<lambda>e. P (fst e)) (edges st)"
  by (simp add: edges_def filter_map comp_def)

lemma tree_delete:
  assumes "tree_ok st"
  shows "tree_ok (snd (delete_session db now k st))"
proof (cases "delete_session db now k st")
  case (Pair res st')
  then show ?thesis
  proof (cases rule: delete_session_cases)
    case same
    then show ?thesis using Pair assms by simp
  next
    case (deleted s ks st1)
    note t = delete_rows_tables [OF deleted(4)]
    have in_ks: "j \<in> set ks \<longleftrightarrow> j = k \<or> (\<exists>p. (j, p, k) \<in> set (edges st))" for j
      by (auto simp: deleted(3) subagent_ids_edges)
    have "ss_subagents st' = filter (\<lambda>a. sa_session_id a \<notin> set ks) (ss_subagents st)"
      using t by (auto simp: deleted(3,5) subagent_ids_of_root_def intro!: filter_cong)
    then have e: "edges st' = filter (\<lambda>e. fst e \<in> - set ks) (edges st)"
      using edges_filter [of "\<lambda>j. j \<notin> set ks" st] by (simp add: edges_def)
    have rows: "row_ids st' = row_ids st - set ks" using t by (auto simp: deleted(5) row_ids_def)
    show ?thesis
    proof (rule tree_ok_remove [OF assms, of _ "- set ks"])
      show "edges (snd (delete_session db now k st)) = filter (\<lambda>e. fst e \<in> - set ks) (edges st)" using e Pair by simp
    next
      fix j p r assume jpr: "(j, p, r) \<in> set (edges st)" "j \<in> - set ks"
      then have "r \<noteq> k" using in_ks by blast
      then have "r \<notin> set ks" using tree_okD(4) [OF assms jpr(1)] in_ks by force
      moreover obtain a where "a \<in> set (ss_subagents st)" "(j, p, r) = (sa_session_id a, sa_parent_session_id a, sa_root_session_id a)"
        using edge_row [OF jpr(1)] by blast
      then have "p \<notin> set ks" using delete_rows_leaves [OF deleted(4), of a] jpr(2) \<open>r \<noteq> k\<close> by simp
      ultimately show "(p = r \<or> p \<in> - set ks) \<and> j \<in> row_ids (snd (delete_session db now k st)) \<and> r \<in> row_ids (snd (delete_session db now k st))"
        using tree_okD(1,2) [OF assms jpr(1)] jpr(2) rows Pair by simp
    qed
  qed
qed

lemma tree_step:
  assumes "session_step env st st'" and "tree_ok st"
  shows "tree_ok st'"
proof -
  have leaves: ?thesis if "leaves_trees st st'" using that tree_ok_same [OF assms(2)] by (simp add: leaves_trees_def)
  show ?thesis
    using assms(1)
    by (cases rule: session_step.cases)
      (use leaves in \<open>simp_all add: tree_record_subagent [OF assms(2)] tree_delete [OF assms(2)] leaves_events leaves_sessions
        leaves_listed leaves_fork leaves_prompts leaves_orphaned_prompts leaves_permissions leaves_orphaned_commands\<close>)
qed

text \<open>A session that heads a tree goes with the whole tree, and the foreign keys never stand in the way.\<close>

lemma delete_head:
  assumes "tree_ok st" and "get_session k st = Some s" and "subagent_on k st = None"
  shows "\<exists>st1. delete_session True now k st = (Ok (Some s), log_changes (lit ''sessions'') (subagent_ids_of_root k st @ [k]) now st1) \<and>
    delete_rows now (subagent_ids_of_root k st @ [k])
      (st\<lparr>ss_subagents := filter (\<lambda>a. sa_root_session_id a \<noteq> k) (ss_subagents st)\<rparr>) = Some st1"
proof -
  let ?ks = "subagent_ids_of_root k st @ [k]"
  have "sa_parent_session_id a \<notin> set ?ks \<and> sa_root_session_id a \<notin> set ?ks"
    if "a \<in> set (ss_subagents st)" "sa_root_session_id a \<noteq> k" for a
  proof -
    let ?r = "sa_root_session_id a"
    have e: "(sa_session_id a, sa_parent_session_id a, ?r) \<in> set (edges st)" using that(1) by (simp add: edges_def)
    have "?r \<notin> set ?ks" using tree_okD(4) [OF assms(1) e] that(2) by (force simp: subagent_ids_edges)
    moreover have "q \<notin> set ?ks" if q: "(q, p, ?r) \<in> set (edges st)" for q p
    proof -
      have "q \<noteq> k" using q assms(3) by (force simp: subagent_on_edges(1))
      moreover have "(q, u, k) \<notin> set (edges st)" for u using tree_okD(5) [OF assms(1) q] \<open>?r \<noteq> k\<close> by blast
      ultimately show ?thesis by (simp add: subagent_ids_edges)
    qed
    ultimately show ?thesis using tree_okD(6) [OF assms(1) e] by auto
  qed
  then have "\<exists>st1. delete_rows now ?ks (st\<lparr>ss_subagents := filter (\<lambda>a. sa_root_session_id a \<noteq> k) (ss_subagents st)\<rparr>) = Some st1"
    by (intro delete_rows_ok) simp
  then obtain st1 where "delete_rows now ?ks (st\<lparr>ss_subagents := filter (\<lambda>a. sa_root_session_id a \<noteq> k) (ss_subagents st)\<rparr>) = Some st1"
    by blast
  then show ?thesis using assms(2) by (simp add: delete_session_def Let_def)
qed

section \<open>The invariant of the store\<close>

definition store_ok :: "sstore \<Rightarrow> bool" where
  "store_ok st \<longleftrightarrow> feed_ok st \<and> logs_ok st \<and> prompts_ok st \<and> requests_ok st \<and> tree_ok st"

text \<open>A new database has no rows.\<close>

definition session_init :: "sstore \<Rightarrow> bool" where
  "session_init st \<longleftrightarrow> ss_sessions st = [] \<and> ss_requests st = [] \<and> ss_head st = 0 \<and> ss_tombstones st = [] \<and>
     ss_pruned_through st = 0 \<and> ss_events st = [] \<and> ss_prompts st = [] \<and> ss_subagents st = []"

lemma store_step_ok:
  assumes "store_ok st" and "session_step env st st'"
  shows "store_ok st'"
  using assms(1) feed_step [OF assms(2)] logs_step [OF assms(2)] prompts_step [OF assms(2)] requests_step [OF assms(2)]
    tree_step [OF assms(2)]
  by (simp add: store_ok_def tracks_def prompts_ok_def prompts_kept_def)

interpretation ssn: invariant_system session_init "session_step env" store_ok for env
proof
  show "store_ok st" if "session_init st" for st
    using that by (simp add: session_init_def store_ok_def feed_ok_def feed_entries_def logs_ok_def session_events_def prompts_ok_def
        requests_ok_def tree_ok_def edges_def)
qed (rule store_step_ok)

end
