(* ===== verification/Session_Properties.thy ===== *)
theory Session_Properties
  imports Session_Invariants
begin

text \<open>
  What clients of the session store may rely on, over every run of its transition system: logs that only grow and page
  without loss (\<open>session_log_pages\<close>), verdicts on prompts that are final (\<open>prompt_verdict_final\<close>), and deletions that take a
  whole tree of subagents and nothing else (\<open>delete_removes_tree\<close>).
\<close>

section \<open>Sample runs\<close>

definition sample_env :: "unit session_env" where
  "sample_env = \<lparr>en_json_valid = \<lambda>_. True, en_is_json = \<lambda>_. True,
     en_json = \<lparr>jo_object = \<lambda>_. Inr [], jo_print = \<lambda>_. lit ''{}'', jo_string = \<lambda>_. (), jo_null = (), jo_nested = \<lambda>_. ()\<rparr>,
     en_time = Inr, en_update_tag = \<lambda>_. None,
     en_view = \<lparr>uv_kind = \<lambda>_. None, uv_tool_call_id = \<lambda>_. None, uv_status = \<lambda>_. None\<rparr>,
     en_outcome = \<lambda>_ _ _ _. lit ''{}'', en_announced = \<lambda>_ _ _. lit ''{}''\<rparr>"

definition empty_sessions :: sstore where
  "empty_sessions = \<lparr>ss_base = empty_store, ss_tombstones = [], ss_pruned_through = 0, ss_events = [], ss_prompts = [], ss_subagents = []\<rparr>"

definition sample_session :: new_session_record where
  "sample_session = \<lparr>ns_id = lit ''s1'', ns_agent_id = lit ''a'', ns_cwd = lit ''/w'', ns_title = None, ns_metadata_json = lit ''{}''\<rparr>"

definition sample_sessions :: sstore where
  "sample_sessions = snd (insert_session_for_target (\<lambda>_. True) True (lit ''t0'') (lit ''tgt'') (lit ''x'') sample_session empty_sessions)"

lemmas session_sample_defs = sample_sessions_def sample_session_def empty_sessions_def empty_store_def sample_env_def
  insert_session_for_target_def insert_stamped_def insert_session_row_def next_change_seq_def new_active_session_row_def
  clear_session_tombstone_def on_base_def log_change_def log_row_def Let_def

lemma empty_sessions_init: "session_init empty_sessions"
  by (simp add: session_init_def session_sample_defs)

lemma sample_sessions_step: "session_step sample_env empty_sessions sample_sessions"
  using step_insert [of sample_env empty_sessions True "lit ''t0''" "lit ''tgt''" "lit ''x''" sample_session]
  by (simp add: sample_sessions_def sample_env_def)

lemma sample_sessions_reachable: "reachable session_init (session_step sample_env) sample_sessions"
  by (rule reachable_step [of _ _ empty_sessions]) (simp_all add: reachable_init empty_sessions_init sample_sessions_step)

section \<open>Logs\<close>

definition alive_step :: "'j session_env \<Rightarrow> rstr \<Rightarrow> sstore \<Rightarrow> sstore \<Rightarrow> bool" where
  "alive_step env k st st' \<longleftrightarrow> session_step env st st' \<and> session_row_of k st' \<noteq> None"

lemma alive_log_grows:
  assumes "(alive_step env k)\<^sup>*\<^sup>* st st'" and "logs_ok st"
  shows "logs_ok st' \<and> (\<exists>new. session_events k st' = session_events k st @ new)"
  using assms(1)
proof (induction rule: rtranclp_induct)
  case base
  then show ?case using assms(2) by simp
next
  case (step s t)
  then have "session_step env s t" "session_row_of k t \<noteq> None" by (simp_all add: alive_step_def)
  then have "logs_ok t" "\<exists>new. session_events k t = session_events k s @ new" using logs_step step.IH by blast+
  then show ?case using step.IH by auto
qed

lemma numbered_page:
  assumes "map le_seq es = map Some [1..<Suc (length es)]"
  shows "sort_key seq_of (filter (\<lambda>e. le_seq e \<noteq> None \<and> n < seq_of e) es) = drop n es"
proof -
  have nth: "le_seq (es ! i) = Some (Suc i)" if "i < length es" for i
  proof -
    have "map le_seq es ! i = map Some [1..<Suc (length es)] ! i" using assms by simp
    then show ?thesis using that by (simp del: upt_Suc)
  qed
  have keep: "filter (\<lambda>e. le_seq e \<noteq> None \<and> n < seq_of e) es = drop n es"
  proof -
    have "\<forall>e \<in> set (take n es). \<not> (le_seq e \<noteq> None \<and> n < seq_of e)"
      by (auto simp: in_set_conv_nth nth seq_of_def)
    moreover have "\<forall>e \<in> set (drop n es). le_seq e \<noteq> None \<and> n < seq_of e"
      by (auto simp: in_set_conv_nth nth seq_of_def)
    ultimately have "filter (\<lambda>e. le_seq e \<noteq> None \<and> n < seq_of e) (take n es @ drop n es) = drop n es"
      unfolding filter_append by (simp add: filter_empty_conv filter_True)
    then show ?thesis by simp
  qed
  have "sorted (map seq_of (drop n es))"
    by (auto simp: sorted_iff_nth_mono nth seq_of_def)
  then show ?thesis unfolding keep by (rule sort_key_id_if_sorted)
qed

lemma query_numbered:
  assumes "logs_ok st"
  shows "query_session_events k (Some (CursorSeq n)) limit st =
    (if n \<le> length (session_events k st) then Ok (take limit (drop n (session_events k st)))
     else Err (SessionEventCursorUnknown k (show_nat n)))"
proof -
  have m: "map le_seq (session_events k st) = map Some [1..<Suc (length (session_events k st))]"
    using assms by (simp add: logs_ok_def)
  show ?thesis
    using numbered_page [OF m, of n] by (simp add: query_session_events_def cursor_seq_def session_event_head_length [OF assms])
qed

text \<open>C5: the log of a session is numbered from one without gap, in the order the rows were written.  While the session lives it
  only grows at its end, whatever other writes, sweeps and failed transactions happen, so a client that pages by the
  number of the last row it holds misses none and sees none twice; a number past the head is refused.\<close>

theorem session_log_pages:
  assumes "reachable session_init (session_step env) st" and "(alive_step env k)\<^sup>*\<^sup>* st st'"
  shows "map le_seq (session_events k st') = map Some [1..<Suc (length (session_events k st'))] \<and>
    (\<exists>new. session_events k st' = session_events k st @ new \<and>
       query_session_events k (Some (CursorSeq (length (session_events k st)))) limit st' = Ok (take limit new)) \<and>
    (length (session_events k st') < n \<longrightarrow>
       query_session_events k (Some (CursorSeq n)) limit st' = Err (SessionEventCursorUnknown k (show_nat n)))"
proof -
  have "logs_ok st" using ssn.reachable_inv [OF assms(1)] by (simp add: store_ok_def)
  from alive_log_grows [OF assms(2) this] obtain new
    where ok: "logs_ok st'" and new: "session_events k st' = session_events k st @ new" by blast
  then have "query_session_events k (Some (CursorSeq (length (session_events k st)))) limit st' = Ok (take limit new)"
    by (simp add: query_numbered)
  moreover have "map le_seq (session_events k st') = map Some [1..<Suc (length (session_events k st'))]"
    using ok unfolding logs_ok_def by blast
  ultimately show ?thesis using new query_numbered [OF ok, of k n] by auto
qed

section \<open>Verdicts\<close>

definition prompt_step :: "'j session_env \<Rightarrow> rstr \<Rightarrow> sstore \<Rightarrow> sstore \<Rightarrow> bool" where
  "prompt_step env k st st' \<longleftrightarrow> session_step env st st' \<and> get_prompt k st' \<noteq> None"

lemma kept_trans: "kept p q \<Longrightarrow> kept q r \<Longrightarrow> kept p r"
  unfolding kept_def verdict_def by auto

lemma prompt_step_kept:
  assumes "prompt_step env k st st'" and "prompts_ok st" and "get_prompt k st = Some p"
  shows "\<exists>q. get_prompt k st' = Some q \<and> kept p q"
proof -
  have s: "session_step env st st'" and "get_prompt k st' \<noteq> None" using assms(1) by (simp_all add: prompt_step_def)
  then obtain q where q: "get_prompt k st' = Some q" by blast
  note pk = prompts_step [OF s assms(2)]
  have p: "p \<in> set (ss_prompts st)" "pm_id p = k" using get_prompt_Some [OF assms(3)] by simp_all
  have "q \<in> set (ss_prompts st')" "pm_id q = k" using get_prompt_Some [OF q] by simp_all
  moreover from this obtain q' where "q' \<in> set (ss_prompts st')" "kept p q'"
    using pk p unfolding prompts_kept_def by (metis imageI)
  moreover have "prompts_ok st'" using pk by (simp add: prompts_kept_def prompts_ok_def)
  ultimately have "q' = q" using prompts_unique [of st' q' q] p(2) by (simp add: kept_def)
  then show ?thesis using q \<open>kept p q'\<close> by blast
qed

text \<open>C6: the verdict on a prompt is final.  Through every later sequence of writes, sweeps and restarts that leaves the
  prompt in the store, a settled prompt stays settled, and unless the sweep of quiet prompts had stalled it, its status, stop
  reason, error and failure columns never change.\<close>

theorem prompt_verdict_final:
  assumes "reachable session_init (session_step env) st" and "(prompt_step env k)\<^sup>*\<^sup>* st st'"
    and "get_prompt k st = Some p" and "settled_text p"
  shows "\<exists>q. get_prompt k st' = Some q \<and> settled_text q \<and> pm_session_id q = pm_session_id p \<and>
    (pm_status p \<noteq> lit ''stalled'' \<longrightarrow> pm_status q = pm_status p \<and> pm_stop_reason q = pm_stop_reason p \<and>
       pm_error_code q = pm_error_code p \<and> pm_error_message q = pm_error_message p \<and>
       pm_failure_class q = pm_failure_class p \<and> pm_failure_detail_json q = pm_failure_detail_json p)"
proof -
  have ok: "store_ok st" using ssn.reachable_inv [OF assms(1)] .
  have "store_ok st' \<and> (\<exists>q. get_prompt k st' = Some q \<and> kept p q)"
    using assms(2)
  proof (induction rule: rtranclp_induct)
    case base
    then show ?case using ok assms(3) kept_refl by blast
  next
    case (step s t)
    then obtain q where q: "get_prompt k s = Some q" "kept p q" and s: "store_ok s" by blast
    have "store_ok t" using store_step_ok [OF s] step.hyps(2) by (auto simp: prompt_step_def)
    then show ?case
      using prompt_step_kept [OF step.hyps(2) _ q(1)] s kept_trans [OF q(2)] by (auto simp: store_ok_def)
  qed
  then show ?thesis using assms(4) by (auto simp: kept_def verdict_def)
qed

section \<open>Deleting a tree\<close>

lemma under_root_edge:
  assumes "tree_ok st"
  shows "under (set (edges st)) k j \<longleftrightarrow> (\<exists>p. (j, p, k) \<in> set (edges st))"
  using under_edge tree_okD(3) [OF assms] by blast

lemma require_deleted:
  "session_row_of j st = None \<Longrightarrow> \<exists>t \<in> set (ss_tombstones st). tb_session_id t = j \<Longrightarrow> require_live_session j st = Err (SessionDeleted j)"
  by (auto simp: require_live_session_def get_session_def list_ex_iff)


lemma delete_rows_tombstones:
  "delete_rows now ks st = Some st' \<Longrightarrow> j \<in> set ks \<or> (\<exists>t \<in> set (ss_tombstones st). tb_session_id t = j) \<Longrightarrow>
   \<exists>t \<in> set (ss_tombstones st'). tb_session_id t = j"
proof (induction ks arbitrary: st)
  case (Cons k ks)
  then obtain st1 where st1: "delete_row now k st = Some st1" and rest: "delete_rows now ks st1 = Some st'"
    by (auto split: option.splits)
  have "j \<in> set ks \<or> (\<exists>t \<in> set (ss_tombstones st1). tb_session_id t = j)"
    using Cons.prems(2) unfolding delete_row_tables(2) [OF st1]
    by (cases "j = k") (auto simp: put_tombstone_set)
  then show ?case by (rule Cons.IH [OF rest])
qed auto

lemma delete_rows_view:
  assumes "delete_rows now ks (st\<lparr>ss_subagents := filter (\<lambda>a. sa_root_session_id a \<noteq> k) (ss_subagents st)\<rparr>) = Some st1"
    and "ks = subagent_ids_of_root k st @ [k]" and "j \<notin> set ks"
  shows "session_view j st1 = session_view j st"
proof -
  note t = delete_rows_tables [OF assms(1)]
  have "session_row_of j st1 = session_row_of j st" "session_prompts j st1 = session_prompts j st"
    "session_events j st1 = session_events j st"
    using t assms(3) by (auto simp: session_row_of_def session_prompts_def session_events_def intro!: find_filter_other filter_cong)
  moreover have "subagent_on j st1 = subagent_on j st"
    using t assms(2,3) by (auto simp: subagent_on_def subagent_ids_of_root_def intro!: find_filter_kept)
  ultimately show ?thesis using t by (simp add: session_view_def acp_requests_def)
qed

text \<open>C7: deleting a session that is no subagent itself always succeeds, as far as the database does: the foreign keys never stand in
  the way.  It removes the session and every subagent below it, at any depth, with their prompts, logs and subagent rows; each of
  them then answers as deleted; every other session and all permission requests are left as they were.\<close>

theorem delete_removes_tree:
  assumes "reachable session_init (session_step env) st" and "get_session k st = Some s" and "subagent_on k st = None"
  shows "\<exists>st'. delete_session True now k st = (Ok (Some s), st') \<and> ss_requests st' = ss_requests st \<and>
    (\<forall>j. if j = k \<or> under (set (edges st)) k j
       then require_live_session j st' = Err (SessionDeleted j) \<and> session_prompts j st' = [] \<and> session_events j st' = [] \<and>
         subagent_on j st' = None
       else session_view j st' = session_view j st)"
proof -
  let ?ks = "subagent_ids_of_root k st @ [k]"
  have ok: "tree_ok st" using ssn.reachable_inv [OF assms(1)] by (simp add: store_ok_def)
  obtain st1 where op: "delete_session True now k st = (Ok (Some s), log_changes (lit ''sessions'') ?ks now st1)"
    and rows: "delete_rows now ?ks (st\<lparr>ss_subagents := filter (\<lambda>a. sa_root_session_id a \<noteq> k) (ss_subagents st)\<rparr>) = Some st1"
    using delete_head [OF ok assms(2,3)] by blast
  let ?st' = "log_changes (lit ''sessions'') ?ks now st1"
  note t = delete_rows_tables [OF rows]
  have ks: "j \<in> set ?ks \<longleftrightarrow> j = k \<or> under (set (edges st)) k j" for j
    by (auto simp: subagent_ids_edges under_root_edge [OF ok])
  have none: "session_row_of j ?st' = None" "session_prompts j ?st' = []" "session_events j ?st' = []" "subagent_on j ?st' = None"
    if "j \<in> set ?ks" for j
    using t that by (auto simp: session_row_of_def session_prompts_def session_events_def subagent_on_def find_None_iff filter_empty_conv)
  have "\<exists>u \<in> set (ss_tombstones ?st'). tb_session_id u = j" if "j \<in> set ?ks" for j
    using delete_rows_tombstones [OF rows, of j] that by auto
  then have gone: "require_live_session j ?st' = Err (SessionDeleted j)" if "j \<in> set ?ks" for j
    using require_deleted [OF none(1)] that by blast
  have others: "session_view j ?st' = session_view j st" if "j \<notin> set ?ks" for j
    using delete_rows_view [OF rows refl that] by (simp add: session_view_def view_tables session_row_of_def)
  have "ss_requests ?st' = ss_requests st" using t by simp
  then show ?thesis
    using op none gone others unfolding ks by (intro exI [of _ ?st']) simp
qed

section \<open>Witnesses\<close>

definition sample_logged :: sstore where
  "sample_logged = snd (append_session_event_with_source (\<lambda>_. True) True (lit ''ev1'') (lit ''t1'') (lit ''s1'') (lit ''info'') (lit ''k'')
     (lit ''api'') (lit ''m'') (lit ''{}'') sample_sessions)"

definition sample_prompted :: sstore where
  "sample_prompted = snd (insert_prompt_with_message_id (\<lambda>_. True) True (lit ''t1'') (lit ''p1'') (lit ''s1'') (lit ''[]'') None sample_sessions)"

definition sample_settled :: sstore where
  "sample_settled = snd (settle_prompt True (lit ''t2'') (lit ''p1'') \<lparr>st_status = PmCompleted, st_stop_reason = Some (lit ''end_turn''),
     st_error_code = None, st_error_message = None, st_failure_class = None, st_failure_detail_json = None\<rparr> False sample_prompted)"

definition sample_resettled :: sstore where
  "sample_resettled = snd (settle_prompt True (lit ''t3'') (lit ''p1'') \<lparr>st_status = PmCancelled, st_stop_reason = None,
     st_error_code = None, st_error_message = None, st_failure_class = None, st_failure_detail_json = None\<rparr> True sample_settled)"

definition sample_tree :: sstore where
  "sample_tree = snd (record_subagent_update (\<lambda>_. True) (\<lambda>_ _ _. lit ''{}'') True (lit ''ev1'') (lit ''t1'') (lit ''s2'') (lit ''t1'') (lit ''ev2'') (lit ''t1'')
     (lit ''s1'') (lit ''{}'') \<lparr>sp_agent_session_id = lit ''y'', sp_title = Keep, sp_description = Keep, sp_state_json = Keep, sp_cancel_granted = None\<rparr>
     [] sample_sessions)"

lemma sample_steps:
  "session_step sample_env sample_sessions sample_logged" "session_step sample_env sample_sessions sample_prompted"
  "session_step sample_env sample_prompted sample_settled" "session_step sample_env sample_settled sample_resettled"
  "session_step sample_env sample_sessions sample_tree"
  unfolding sample_logged_def sample_prompted_def sample_settled_def sample_resettled_def sample_tree_def
  using step_event [of sample_env] step_prompt [of sample_env] step_settle [of sample_env] step_subagent [of sample_env]
  by (simp_all add: sample_env_def)

definition sample_row :: "nat \<Rightarrow> session_row" where
  "sample_row n = \<lparr>se_id = lit ''s1'', se_target_id = lit ''tgt'', se_agent_session_id = lit ''x'', se_created_at = lit ''t0'',
     se_updated_at = lit ''t0'', se_status = lit ''active'', se_agent_id = lit ''a'', se_cwd = lit ''/w'', se_title = None,
     se_metadata_json = lit ''{}'', se_change_seq = n\<rparr>"

lemma sample_sessions_tables:
  "ss_sessions sample_sessions = [sample_row 1]" "ss_events sample_sessions = []" "ss_prompts sample_sessions = []"
  "ss_subagents sample_sessions = []"
  by (simp_all add: session_sample_defs sample_row_def)

lemma sample_sessions_head: "ss_head sample_sessions = 1"
  by (simp add: session_sample_defs)

lemma sample_row_found: "session_row_of (lit ''s1'') sample_sessions = Some (sample_row 1)"
  by (simp add: session_row_of_def sample_sessions_tables) (simp add: sample_row_def)

lemma sample_logged_tables:
  "ss_sessions sample_logged = [sample_row 2]" "length (ss_events sample_logged) = 1"
  "\<forall>e \<in> set (ss_events sample_logged). le_session_id e = Some (lit ''s1'')"
  by (simp_all add: sample_logged_def append_session_event_with_source_def insert_session_event_row_def session_event_def has_event_def
      session_events_def sample_sessions_tables bump_change_rows sample_sessions_head Let_def sample_row_def)

lemma sample_log:
  "session_events (lit ''s1'') sample_sessions = []" "session_row_of (lit ''s1'') sample_logged \<noteq> None"
  "length (session_events (lit ''s1'') sample_logged) = 1"
  unfolding row_in session_events_def
  by (simp_all add: sample_sessions_tables sample_logged_tables filter_True) (simp add: sample_row_def)

theorem session_log_pages_witness:
  "\<exists>new. session_events (lit ''s1'') sample_logged = new \<and> length new = 1 \<and>
     query_session_events (lit ''s1'') (Some (CursorSeq 0)) 10 sample_logged = Ok (take 10 new) \<and>
     query_session_events (lit ''s1'') (Some (CursorSeq 2)) 10 sample_logged =
       Err (SessionEventCursorUnknown (lit ''s1'') (show_nat 2))"
proof -
  have "(alive_step sample_env (lit ''s1''))\<^sup>*\<^sup>* sample_sessions sample_logged"
    by (rule r_into_rtranclp) (simp add: alive_step_def sample_steps sample_log)
  from session_log_pages [OF sample_sessions_reachable this, where limit = 10 and n = 2] show ?thesis by (simp add: sample_log)
qed

lemma sample_settled_prompt:
  "get_prompt (lit ''p1'') sample_settled = Some \<lparr>pm_id = lit ''p1'', pm_session_id = lit ''s1'', pm_created_at = lit ''t1'',
     pm_updated_at = lit ''t2'', pm_status = lit ''completed'', pm_stop_reason = Some (lit ''end_turn''), pm_error_code = None,
     pm_error_message = None, pm_prompt_json = lit ''[]'', pm_message_id = None, pm_message_id_acknowledged = False,
     pm_failure_class = None, pm_failure_detail_json = None, pm_agent_message_id = None\<rparr>" (is "_ = Some ?p")
proof -
  have "ss_prompts sample_prompted = [new_prompt (lit ''p1'') (lit ''s1'') (lit ''t1'') (lit ''[]'') None]"
    by (simp add: sample_prompted_def insert_prompt_with_message_id_def prompt_insertable_def get_prompt_def sample_sessions_tables
        sample_row_found new_prompt_def Let_def)
  then have "ss_prompts sample_settled = [?p]"
    by (simp add: sample_settled_def settle_prompt_def get_prompt_def new_prompt_def prompt_status_from_str_def settle_verdict_def
        prompt_terminal_def settled_row_def update_rows_def Let_def lit_def)
  then show ?thesis by (simp add: get_prompt_def)
qed

lemma sample_settled_reachable: "reachable session_init (session_step sample_env) sample_settled"
  by (rule reachable_step [OF reachable_step [OF sample_sessions_reachable sample_steps(2)] sample_steps(3)])

lemma sample_resettled_prompt: "get_prompt (lit ''p1'') sample_resettled \<noteq> None"
proof -
  have "sample_resettled = sample_settled"
    using sample_settled_prompt
    by (simp add: sample_resettled_def settle_prompt_def prompt_status_from_str_def settle_verdict_def prompt_terminal_def lit_def)
  then show ?thesis using sample_settled_prompt by simp
qed

theorem prompt_verdict_final_witness:
  "\<exists>q. get_prompt (lit ''p1'') sample_resettled = Some q \<and> pm_status q = lit ''completed'' \<and> pm_stop_reason q = Some (lit ''end_turn'')"
proof -
  have "(prompt_step sample_env (lit ''p1''))\<^sup>*\<^sup>* sample_settled sample_resettled"
    by (rule r_into_rtranclp) (use sample_resettled_prompt in \<open>simp add: prompt_step_def sample_steps\<close>)
  from prompt_verdict_final [OF sample_settled_reachable this sample_settled_prompt]
  show ?thesis by (auto simp: settled_text_def lit_def)
qed

lemma sample_tree_tables:
  "edges sample_tree = [(lit ''s2'', lit ''s1'', lit ''s1'')]" "map se_id (ss_sessions sample_tree) = [lit ''s1'', lit ''s2'']"
  by code_simp+

lemma sample_tree_reachable: "reachable session_init (session_step sample_env) sample_tree"
  by (rule reachable_step [OF sample_sessions_reachable sample_steps(5)])

theorem delete_removes_tree_witness:
  "require_live_session (lit ''s2'') (snd (delete_session True (lit ''t9'') (lit ''s1'') sample_tree)) = Err (SessionDeleted (lit ''s2''))"
proof -
  have "subagent_on (lit ''s1'') sample_tree = None"
    unfolding subagent_on_edges(1) sample_tree_tables by (simp add: lit_def)
  moreover have "lit ''s1'' \<in> set (map se_id (ss_sessions sample_tree))" unfolding sample_tree_tables by simp
  then have "session_row_of (lit ''s1'') sample_tree \<noteq> None" unfolding row_in by auto
  then obtain s where "get_session (lit ''s1'') sample_tree = Some s" by (auto simp: get_session_def)
  moreover have "under (set (edges sample_tree)) (lit ''s1'') (lit ''s2'')"
    by (rule below_root) (simp add: sample_tree_tables)
  ultimately show ?thesis
    using delete_removes_tree [OF sample_tree_reachable, of "lit ''s1''" s "lit ''t9''"] by (metis snd_conv)
qed

text \<open>
  An update of a subagent moves the time of activity of its root's prompt, but stamps the subagent only: a view of the root
  that showed that time would not be covered by the feed.
\<close>

definition sample_busy_tree :: sstore where
  "sample_busy_tree = snd (insert_prompt_with_message_id (\<lambda>_. True) True (lit ''t2'') (lit ''p1'') (lit ''s1'') (lit ''[]'') None sample_tree)"

definition sample_streamed :: sstore where
  "sample_streamed = snd (append_session_update (\<lambda>_. True) True (lit ''ev3'') (lit ''t3'') (lit ''s2'') (lit ''session.update'') (lit ''{}'') sample_busy_tree)"

lemma subagent_update_leaves_root_unstamped:
  "map pm_updated_at (ss_prompts sample_busy_tree) = [lit ''t2''] \<and> map pm_updated_at (ss_prompts sample_streamed) = [lit ''t3''] \<and>
   map_option se_change_seq (session_row_of (lit ''s1'') sample_streamed) = map_option se_change_seq (session_row_of (lit ''s1'') sample_busy_tree)"
  by code_simp

end
