(* ===== verification/Change_Feed.thy ===== *)
theory Change_Feed
  imports Session_Properties
begin

text \<open>
  The change feed from its readers' side.  \<open>sessions_change_feed_handler\<close> is the route
  (\<^verbatim>\<open>src/api/routes/sessions/list.rs\<close>); the locale \<open>change_feed\<close> is what a feed promises and what follows for a copy kept
  by reading it, and its interpretation \<open>cf\<close> discharges the promise for the session store.  \<open>feed_system\<close> interleaves the
  store, restarts of the process and a client that follows the documented protocol of the endpoint: whenever the client
  has caught up its copy is exact, and when writes pause it catches up.
\<close>

section \<open>The route\<close>





section \<open>What a feed promises\<close>


section \<open>The store's feed keeps the promise\<close>








section \<open>A reader\<close>
















section \<open>Catching up\<close>





























end
